(* ===== verification/Prelude.thy ===== *)
theory Prelude
  imports Main "HOL-Library.AList" "HOL-Library.Word" "HOL-Library.Sublist"
begin

section \<open>Shared types, tables and lemmas\<close>

text \<open>
  This theory names the types every component shares and collects the generic lemmas the
  component proofs rest on.

  \<^item> Clocks.  \<open>Instant\<close> (monotonic) and \<open>Duration\<close> of the Rust standard library are
    natural numbers of nanoseconds; \<open>DateTime<Utc>\<close> and unix timestamps are integers.
    Every operation that reads the clock takes the reading as an argument.
  \<^item> Maps and tables.  A \<open>HashMap\<close>, \<open>DashMap\<close> or SQL table with a key is an association list
    with distinct keys.  The order of the list stands for the iteration order the map happens
    to have, so a theorem over all such lists covers every order.
  \<^item> Errors.  \<open>Result<T, E>\<close> is \<open>'e + 'a\<close> with \<open>Inl\<close> for \<open>Err\<close>.
\<close>

type_synonym instant = nat
type_synonym duration = nat
type_synonym timestamp = int
type_synonym u32 = "32 word"

named_theorems inv_rules \<open>an operation keeps its component's invariant\<close>
named_theorems table_simps \<open>rewrite rules for association-list tables\<close>

subsection \<open>Results\<close>

text \<open>The \<open>?\<close> operator, and \<open>collect::<Result<Vec<_>, _>>\<close>, which stops at the first error.\<close>

fun and_then :: "'e + 'a \<Rightarrow> ('a \<Rightarrow> 'e + 'b) \<Rightarrow> 'e + 'b" where
  "and_then (Inl e) f = Inl e"
| "and_then (Inr x) f = f x"

fun collect_results :: "('e + 'a) list \<Rightarrow> 'e + 'a list" where
  "collect_results [] = Inr []"
| "collect_results (r # rs) = and_then r (\<lambda>x. and_then (collect_results rs) (\<lambda>xs. Inr (x # xs)))"

text \<open>\<open>?\<close> after an operation that returns its new state beside the result.\<close>

definition chain :: "('e + 'a) \<times> 's \<Rightarrow> ('a \<Rightarrow> 's \<Rightarrow> ('e + 'b) \<times> 's) \<Rightarrow> ('e + 'b) \<times> 's" where
  "chain m f = (case m of (Inl e, s) \<Rightarrow> (Inl e, s) | (Inr x, s) \<Rightarrow> f x s)"

lemma chain_Inr: "chain m f = (Inr y, s') \<longleftrightarrow> (\<exists>x s. m = (Inr x, s) \<and> f x s = (Inr y, s'))"
  by (auto simp: chain_def split: prod.splits sum.splits)

lemma chain_Inl:
  "chain m f = (Inl e, s') \<longleftrightarrow> m = (Inl e, s') \<or> (\<exists>x s. m = (Inr x, s) \<and> f x s = (Inl e, s'))"
  by (auto simp: chain_def split: prod.splits sum.splits)

lemma chain_simps [simp]: "chain (Inl e, s) f = (Inl e, s)" "chain (Inr x, s) f = f x s"
  by (simp_all add: chain_def)

lemma and_then_Inr_iff: "and_then r f = Inr y \<longleftrightarrow> (\<exists>x. r = Inr x \<and> f x = Inr y)"
  by (cases r) auto

lemma collect_results_map_Inr [simp]: "collect_results (map (\<lambda>x. Inr (f x)) xs) = Inr (map f xs)"
  by (induction xs) auto

lemma collect_results_Inr:
  "collect_results (map g xs) = Inr ys \<longleftrightarrow> map g xs = map Inr ys"
  by (induction xs arbitrary: ys) (auto simp: and_then_Inr_iff Cons_eq_map_conv)

subsection \<open>Identifiers\<close>

text \<open>A \<open>Uuid\<close> is a 128-bit value; the order is that of the value.\<close>

datatype uuid = Uuid "128 word"

primrec uuid_bits :: "uuid \<Rightarrow> 128 word" where
  "uuid_bits (Uuid w) = w"

lemma uuid_bits_inject: "uuid_bits a = uuid_bits b \<longleftrightarrow> a = b"
  by (cases a; cases b) simp

instantiation uuid :: linorder
begin

definition less_eq_uuid :: "uuid \<Rightarrow> uuid \<Rightarrow> bool" where
  "less_eq_uuid a b \<longleftrightarrow> uuid_bits a \<le> uuid_bits b"

definition less_uuid :: "uuid \<Rightarrow> uuid \<Rightarrow> bool" where
  "less_uuid a b \<longleftrightarrow> uuid_bits a < uuid_bits b"

instance
  by standard
    (auto simp: less_eq_uuid_def less_uuid_def uuid_bits_inject [symmetric])

end

subsection \<open>Keyed tables\<close>

type_synonym ('k, 'v) table = "('k \<times> 'v) list"

abbreviation keys_of :: "('k, 'v) table \<Rightarrow> 'k list" where
  "keys_of m \<equiv> map fst m"

definition wf_table :: "('k, 'v) table \<Rightarrow> bool" where
  "wf_table m \<longleftrightarrow> distinct (keys_of m)"

lemma wf_table_Nil [simp, table_simps]: "wf_table []"
  by (simp add: wf_table_def)

lemma wf_table_update [simp, intro]: "wf_table m \<Longrightarrow> wf_table (AList.update k v m)"
  by (simp add: wf_table_def distinct_update)

lemma wf_table_delete [simp, intro]: "wf_table m \<Longrightarrow> wf_table (AList.delete k m)"
  by (simp add: wf_table_def distinct_delete)

lemma wf_table_filter [simp, intro]: "wf_table m \<Longrightarrow> wf_table (filter P m)"
  by (simp add: wf_table_def distinct_map_filter)

lemma map_of_update [table_simps]: "map_of (AList.update k v m) = (map_of m)(k \<mapsto> v)"
  by (rule update_conv')

lemma map_of_delete [table_simps]: "map_of (AList.delete k m) = (map_of m)(k := None)"
  by (rule delete_conv')

lemma map_of_in_table: "wf_table m \<Longrightarrow> map_of m k = Some v \<longleftrightarrow> (k, v) \<in> set m"
  by (simp add: wf_table_def)

lemma map_of_filter_None: "map_of m k = None \<Longrightarrow> map_of (filter P m) k = None"
  by (auto simp: map_of_eq_None_iff)

lemma map_of_filter [table_simps]:
  assumes "wf_table m"
  shows "map_of (filter P m) k =
    (case map_of m k of None \<Rightarrow> None | Some v \<Rightarrow> if P (k, v) then Some v else None)"
proof (cases "map_of m k")
  case None
  then show ?thesis by (simp add: map_of_filter_None)
next
  case (Some v)
  have wf: "wf_table (filter P m)" using assms by simp
  show ?thesis
  proof (cases "P (k, v)")
    case True
    with Some assms have "(k, v) \<in> set (filter P m)" by (simp add: map_of_in_table)
    then have "map_of (filter P m) k = Some v" by (simp only: map_of_in_table [OF wf])
    with Some True show ?thesis by simp
  next
    case False
    have "map_of (filter P m) k = None"
    proof (rule ccontr)
      assume "map_of (filter P m) k \<noteq> None"
      then obtain w where "map_of (filter P m) k = Some w" by blast
      then have "(k, w) \<in> set m" and "P (k, w)"
        by (auto dest: map_of_SomeD)
      then have "map_of m k = Some w" using assms by (simp only: map_of_in_table)
      with Some False \<open>P (k, w)\<close> show False by simp
    qed
    with Some False show ?thesis by simp
  qed
qed

lemma length_update_new: "map_of m k = None \<Longrightarrow> length (AList.update k v m) = Suc (length m)"
  by (induction m) (auto split: if_splits)

lemma length_update_old: "map_of m k \<noteq> None \<Longrightarrow> length (AList.update k v m) = length m"
  by (induction m) (auto split: if_splits)

lemma length_delete_present:
  "wf_table m \<Longrightarrow> map_of m k \<noteq> None \<Longrightarrow> Suc (length (AList.delete k m)) = length m"
proof (induction m)
  case Nil
  then show ?case by simp
next
  case (Cons p m)
  show ?case
  proof (cases "fst p = k")
    case True
    with Cons.prems(1) have "k \<notin> set (keys_of m)" by (auto simp: wf_table_def)
    then have "AList.delete k m = m" by simp
    with True show ?thesis by (cases p) simp
  next
    case False
    with Cons show ?thesis by (cases p) (auto simp: wf_table_def)
  qed
qed

lemma set_delete [table_simps]: "set (AList.delete k m) = {p \<in> set m. fst p \<noteq> k}"
  by (auto simp: AList.delete_eq)

lemma length_delete_le [simp]: "length (AList.delete k m) \<le> length m"
  by (simp add: AList.delete_eq)

lemma length_filter_list_update:
  "i < length xs \<Longrightarrow>
     length (filter P (xs[i := x])) + of_bool (P (xs ! i)) = length (filter P xs) + of_bool (P x)"
proof (induction xs arbitrary: i)
  case (Cons y ys)
  then show ?case
  proof (cases i)
    case (Suc j)
    with Cons.IH [of j] Cons.prems show ?thesis by (cases "P y") simp_all
  qed (cases "P y"; simp)
qed simp

lemma find_distinct:
  "distinct (map f xs) \<Longrightarrow> find (\<lambda>x. f x = k) xs = Some x \<longleftrightarrow> x \<in> set xs \<and> f x = k"
  by (induction xs) auto

lemma find_key_None: "find (\<lambda>x. f x = k) xs = None \<longleftrightarrow> k \<notin> f ` set xs"
  by (auto simp: find_None_iff)

lemma find_map_same_key:
  "(\<And>x. f (g x) = f x) \<Longrightarrow> find (\<lambda>x. f x = k) (map g xs) = map_option g (find (\<lambda>x. f x = k) xs)"
  by (induction xs) auto

lemma find_append: "find P (xs @ ys) = (case find P xs of None \<Rightarrow> find P ys | Some x \<Rightarrow> Some x)"
  by (induction xs) auto

lemma pair_of_fst: "fst p = x \<Longrightarrow> p = (x, snd p)"
  by (cases p) simp

lemma map_same_key: "(\<And>x. f (g x) = f x) \<Longrightarrow> map f (map g xs) = map f xs"
  by simp

lemma distinct_map_replace:
  "distinct (map k xs) \<Longrightarrow> distinct (map h xs) \<Longrightarrow>
     (\<forall>x \<in> set xs. \<forall>y \<in> set xs. k x = i \<longrightarrow> k y \<noteq> i \<longrightarrow> h (g x) \<noteq> h y) \<Longrightarrow>
     distinct (map h (map (\<lambda>x. if k x = i then g x else x) xs))"
proof (induction xs)
  case (Cons x xs)
  let ?r = "\<lambda>x. if k x = i then g x else x"
  have "h (?r x) \<noteq> h (?r y)" if y: "y \<in> set xs" for y
  proof -
    have "k y \<noteq> k x" "h y \<noteq> h x" using Cons.prems(1,2) y by (auto simp: image_iff)
    with Cons.prems(3) y show ?thesis by (auto dest: not_sym)
  qed
  moreover have "distinct (map h (map ?r xs))" using Cons by simp
  ultimately show ?case by (simp add: image_iff)
qed simp

subsection \<open>First minimum and last maximum\<close>

text \<open>
  \<open>Iterator::min_by_key\<close> returns the first element with the least key and
  \<open>Iterator::max_by_key\<close> the last element with the greatest key; both are \<open>None\<close> on an empty
  iterator.
\<close>

fun min_by_key :: "('a \<Rightarrow> 'b::linorder) \<Rightarrow> 'a list \<Rightarrow> 'a option" where
  "min_by_key f [] = None"
| "min_by_key f (x # xs) =
     (case min_by_key f xs of None \<Rightarrow> Some x | Some y \<Rightarrow> if f y < f x then Some y else Some x)"

fun max_by_key :: "('a \<Rightarrow> 'b::linorder) \<Rightarrow> 'a list \<Rightarrow> 'a option" where
  "max_by_key f [] = None"
| "max_by_key f (x # xs) =
     (case max_by_key f xs of None \<Rightarrow> Some x | Some y \<Rightarrow> if f y < f x then Some x else Some y)"

lemma min_by_key_None [simp]: "min_by_key f xs = None \<longleftrightarrow> xs = []"
  by (cases xs) (auto split: option.splits)

lemma min_by_key_in: "min_by_key f xs = Some x \<Longrightarrow> x \<in> set xs"
  by (induction xs arbitrary: x) (auto split: option.splits if_splits)

lemma min_by_key_least: "min_by_key f xs = Some x \<Longrightarrow> y \<in> set xs \<Longrightarrow> f x \<le> f y"
  by (induction xs arbitrary: x) (fastforce split: option.splits if_splits)+

lemma max_by_key_None [simp]: "max_by_key f xs = None \<longleftrightarrow> xs = []"
  by (cases xs) (auto split: option.splits)

lemma max_by_key_in: "max_by_key f xs = Some x \<Longrightarrow> x \<in> set xs"
  by (induction xs arbitrary: x) (auto split: option.splits if_splits)

lemma max_by_key_greatest: "max_by_key f xs = Some x \<Longrightarrow> y \<in> set xs \<Longrightarrow> f y \<le> f x"
  by (induction xs arbitrary: x) (fastforce split: option.splits if_splits)+

subsection \<open>Text\<close>

text \<open>A Rust \<open>str\<close> is the list of its UTF-8 bytes.  \<open>str::contains\<close>, and \<open>chars().take(n)\<close>.\<close>

fun contains :: "string \<Rightarrow> string \<Rightarrow> bool" where
  "contains p [] = (p = [])"
| "contains p (c # cs) = (prefix p (c # cs) \<or> contains p cs)"

abbreviation byte :: "char \<Rightarrow> nat" where
  "byte \<equiv> of_char"

definition continuation :: "char \<Rightarrow> bool" where
  "continuation c \<longleftrightarrow> 128 \<le> byte c \<and> byte c < 192"

fun take_chars :: "nat \<Rightarrow> string \<Rightarrow> string" where
  "take_chars n [] = []"
| "take_chars n (c # cs) =
     (if continuation c then c # take_chars n cs
      else case n of 0 \<Rightarrow> [] | Suc m \<Rightarrow> c # take_chars m cs)"


text \<open>Integers in decimal.\<close>

fun show_decimal :: "nat \<Rightarrow> string" where
  "show_decimal n =
     (if n < 10 then [char_of (48 + n)] else show_decimal (n div 10) @ [char_of (48 + n mod 10)])"

declare show_decimal.simps [simp del]

definition show_signed :: "int \<Rightarrow> string" where
  "show_signed i = (if i < 0 then ''-'' @ show_decimal (nat (- i)) else show_decimal (nat i))"

text \<open>
  \<open>char::is_whitespace\<close> on UTF-8: the length of the white character a text starts with, or 0; the number of words that
  \<open>split_whitespace\<close> makes; and \<open>trim\<close>.
\<close>

fun white :: "string \<Rightarrow> nat" where
  "white [] = 0"
| "white (c # cs) =
     (if byte c \<in> {9, 10, 11, 12, 13, 32} then 1
      else case cs of
             [] \<Rightarrow> 0
           | d # ds \<Rightarrow>
               if byte c = 194 \<and> byte d \<in> {133, 160} then 2
               else case ds of
                      [] \<Rightarrow> 0
                    | e # _ \<Rightarrow>
                        if byte c = 225 \<and> byte d = 154 \<and> byte e = 128 \<or>
                           byte c = 226 \<and> byte d = 128 \<and> (byte e \<in> {128..138} \<or> byte e \<in> {168, 169, 175}) \<or>
                           byte c = 226 \<and> byte d = 129 \<and> byte e = 159 \<or> byte c = 227 \<and> byte d = 128 \<and> byte e = 128
                        then 3 else 0)"

fun count_words :: "bool \<Rightarrow> string \<Rightarrow> nat" where
  "count_words inside [] = 0"
| "count_words inside (c # cs) =
     (if 0 < white (c # cs) then count_words False (drop (white (c # cs) - 1) cs)
      else (if inside then 0 else 1) + count_words True cs)"

fun all_white :: "string \<Rightarrow> bool" where
  "all_white [] \<longleftrightarrow> True"
| "all_white (c # cs) \<longleftrightarrow> 0 < white (c # cs) \<and> all_white (drop (white (c # cs) - 1) cs)"

fun trim_start :: "string \<Rightarrow> string" where
  "trim_start [] = []"
| "trim_start (c # cs) = (if 0 < white (c # cs) then trim_start (drop (white (c # cs) - 1) cs) else c # cs)"

fun trim_end :: "string \<Rightarrow> string" where
  "trim_end [] = []"
| "trim_end (c # cs) = (if all_white (c # cs) then [] else c # trim_end cs)"

definition trim :: "string \<Rightarrow> string" where
  "trim s = trim_end (trim_start s)"

subsection \<open>Signed 64-bit results\<close>

text \<open>\<open>i64\<close> values are integers; \<open>sat_i64\<close> is where \<open>saturating_add\<close> and \<open>saturating_sub\<close> end up.\<close>

definition max_i64 :: int where "max_i64 = 2 ^ 63 - 1"

definition sat_i64 :: "int \<Rightarrow> int" where
  "sat_i64 x = max (- (2 ^ 63)) (min max_i64 x)"

end
