(* ===== verification/Circuit_Breaker.thy ===== *)
theory Circuit_Breaker
  imports Prelude
begin

section \<open>Circuit breaker (\<open>crates/resilience/src/lib.rs\<close>)\<close>

text \<open>
  The state machine that guards every external dependency: \<open>Closed\<close>, \<open>Open\<close>, \<open>HalfOpen\<close> with
  exponential backoff.  The mutex makes each method one atomic step, so a method is a function
  of the breaker and of the clock reading it takes.  Counters are 32-bit words as in the code:
  the increment wraps, and the invariant below shows that it never does.  Durations are
  unbounded here: the code would panic only beyond \<open>2 ^ 64\<close> seconds.
\<close>

record breaker_config =
  failure_threshold :: u32
  success_threshold :: u32
  initial_backoff :: duration
  max_backoff :: duration

definition default_breaker_config :: breaker_config where
  "default_breaker_config =
     \<lparr>failure_threshold = 5, success_threshold = 2,
      initial_backoff = 10 * 10 ^ 9, max_backoff = 120 * 10 ^ 9\<rparr>"

datatype breaker_state =
    Closed (consecutive_failures: u32)
  | Open (open_until: instant) (open_backoff: duration)
  | HalfOpen (consecutive_successes: u32) (half_backoff: duration)

datatype 'e circuit_error = CircuitOpen string | Inner 'e

record breaker =
  breaker_name :: string
  breaker_conf :: breaker_config
  breaker_state :: breaker_state

definition new_breaker :: "string \<Rightarrow> breaker_config \<Rightarrow> breaker" where
  "new_breaker name config =
     \<lparr>breaker_name = name, breaker_conf = config, breaker_state = Closed 0\<rparr>"

definition is_open :: "instant \<Rightarrow> breaker \<Rightarrow> bool" where
  "is_open now cb = (case breaker_state cb of Open until _ \<Rightarrow> now < until | _ \<Rightarrow> False)"

definition allow :: "instant \<Rightarrow> breaker \<Rightarrow> bool \<times> breaker" where
  "allow now cb =
     (case breaker_state cb of
        Closed _ \<Rightarrow> (True, cb)
      | HalfOpen _ _ \<Rightarrow> (True, cb)
      | Open until backoff \<Rightarrow>
          if until \<le> now then (True, cb\<lparr>breaker_state := HalfOpen 0 backoff\<rparr>)
          else (False, cb))"

definition on_success :: "breaker \<Rightarrow> breaker" where
  "on_success cb =
     (case breaker_state cb of
        Closed _ \<Rightarrow> cb\<lparr>breaker_state := Closed 0\<rparr>
      | HalfOpen successes backoff \<Rightarrow>
          (let next = successes + 1 in
           if success_threshold (breaker_conf cb) \<le> next
           then cb\<lparr>breaker_state := Closed 0\<rparr>
           else cb\<lparr>breaker_state := HalfOpen next backoff\<rparr>)
      | Open _ _ \<Rightarrow> cb)"

definition doubled_backoff :: "breaker \<Rightarrow> duration \<Rightarrow> duration" where
  "doubled_backoff cb backoff = min (backoff * 2) (max_backoff (breaker_conf cb))"

definition on_failure :: "instant \<Rightarrow> breaker \<Rightarrow> breaker" where
  "on_failure now cb =
     (case breaker_state cb of
        Closed failures \<Rightarrow>
          (let next = failures + 1 in
           if failure_threshold (breaker_conf cb) \<le> next
           then let backoff = initial_backoff (breaker_conf cb)
                in cb\<lparr>breaker_state := Open (now + backoff) backoff\<rparr>
           else cb\<lparr>breaker_state := Closed next\<rparr>)
      | HalfOpen _ backoff \<Rightarrow>
          let backoff' = doubled_backoff cb backoff
          in cb\<lparr>breaker_state := Open (now + backoff') backoff'\<rparr>
      | Open _ backoff \<Rightarrow>
          let backoff' = doubled_backoff cb backoff
          in cb\<lparr>breaker_state := Open (now + backoff') backoff'\<rparr>)"

definition trip :: "instant \<Rightarrow> breaker \<Rightarrow> breaker" where
  "trip now cb =
     (let backoff =
        (case breaker_state cb of
           Open _ b \<Rightarrow> doubled_backoff cb b
         | HalfOpen _ b \<Rightarrow> doubled_backoff cb b
         | Closed _ \<Rightarrow> initial_backoff (breaker_conf cb))
      in cb\<lparr>breaker_state := Open (now + backoff) backoff\<rparr>)"

definition reset :: "breaker \<Rightarrow> breaker" where
  "reset cb = cb\<lparr>breaker_state := Closed 0\<rparr>"

text \<open>
  \<open>call\<close> runs the closure only when admitted.  The closure acts on an outer world \<open>'w\<close>; the
  second clock reading is the one a failure takes.
\<close>

definition call ::
  "instant \<Rightarrow> instant \<Rightarrow> ('w \<Rightarrow> ('e + 'a) \<times> 'w) \<Rightarrow> breaker \<Rightarrow> 'w
     \<Rightarrow> ('e circuit_error + 'a) \<times> breaker \<times> 'w" where
  "call now later f cb w =
     (case allow now cb of
        (False, cb') \<Rightarrow> (Inl (CircuitOpen (breaker_name cb')), cb', w)
      | (True, cb') \<Rightarrow>
          (case f w of
             (Inr v, w') \<Rightarrow> (Inr v, on_success cb', w')
           | (Inl e, w') \<Rightarrow> (Inl (Inner e), on_failure later cb', w')))"

lemmas breaker_defs = is_open_def allow_def on_success_def on_failure_def trip_def reset_def
  doubled_backoff_def Let_def

subsection \<open>Runs\<close>

text \<open>A run of the breaker: any sequence of method calls with their clock readings.\<close>

datatype breaker_event = EvAllow | EvSuccess | EvFailure | EvTrip | EvReset

fun breaker_step :: "breaker \<Rightarrow> instant \<times> breaker_event \<Rightarrow> breaker" where
  "breaker_step cb (t, EvAllow) = snd (allow t cb)"
| "breaker_step cb (t, EvSuccess) = on_success cb"
| "breaker_step cb (t, EvFailure) = on_failure t cb"
| "breaker_step cb (t, EvTrip) = trip t cb"
| "breaker_step cb (t, EvReset) = reset cb"

definition breaker_run :: "breaker \<Rightarrow> (instant \<times> breaker_event) list \<Rightarrow> breaker" where
  "breaker_run = foldl breaker_step"

lemma breaker_run_simps [simp]:
  "breaker_run cb [] = cb"
  "breaker_run cb (e # es) = breaker_run (breaker_step cb e) es"
  by (simp_all add: breaker_run_def)

lemma breaker_run_append: "breaker_run cb (es @ fs) = breaker_run (breaker_run cb es) fs"
  by (simp add: breaker_run_def)

text \<open>The configuration and the name are never written.\<close>

lemma breaker_step_conf [simp]: "breaker_conf (breaker_step cb e) = breaker_conf cb"
  by (cases e, cases "snd e"; cases "breaker_state cb") (auto simp: breaker_defs)

lemma breaker_step_name [simp]: "breaker_name (breaker_step cb e) = breaker_name cb"
  by (cases e, cases "snd e"; cases "breaker_state cb") (auto simp: breaker_defs)

lemma breaker_op_conf [simp]:
  "breaker_conf (snd (allow t cb)) = breaker_conf cb"
  "breaker_conf (on_success cb) = breaker_conf cb"
  "breaker_conf (on_failure t cb) = breaker_conf cb"
  "breaker_conf (trip t cb) = breaker_conf cb"
  "breaker_conf (reset cb) = breaker_conf cb"
  using breaker_step_conf [of cb "(t, EvAllow)"] breaker_step_conf [of cb "(t, EvSuccess)"]
    breaker_step_conf [of cb "(t, EvFailure)"] breaker_step_conf [of cb "(t, EvTrip)"]
    breaker_step_conf [of cb "(t, EvReset)"]
  by simp_all

lemma breaker_run_conf [simp]: "breaker_conf (breaker_run cb es) = breaker_conf cb"
  by (induction es arbitrary: cb) simp_all

subsection \<open>Invariant: counters below their thresholds, backoff within its bounds\<close>

definition backoff_ok :: "breaker_config \<Rightarrow> duration \<Rightarrow> bool" where
  "backoff_ok c b \<longleftrightarrow>
     min (initial_backoff c) (max_backoff c) \<le> b \<and> b \<le> max (initial_backoff c) (max_backoff c)"

definition counter_ok :: "u32 \<Rightarrow> u32 \<Rightarrow> bool" where
  "counter_ok threshold n \<longleftrightarrow> n < threshold \<or> n = 0"

definition breaker_inv :: "breaker \<Rightarrow> bool" where
  "breaker_inv cb =
     (case breaker_state cb of
        Closed n \<Rightarrow> counter_ok (failure_threshold (breaker_conf cb)) n
      | Open _ b \<Rightarrow> backoff_ok (breaker_conf cb) b
      | HalfOpen n b \<Rightarrow>
          counter_ok (success_threshold (breaker_conf cb)) n \<and> backoff_ok (breaker_conf cb) b)"

lemma counter_ok_0 [simp]: "counter_ok t 0"
  by (simp add: counter_ok_def)

text \<open>Below the threshold the 32-bit increment does not wrap.\<close>

lemma counter_ok_no_wrap:
  assumes "counter_ok t n"
  shows "unat (n + 1) = Suc (unat n)"
proof -
  have "unat n < 2 ^ 32 - 1"
  proof (cases "n = 0")
    case False
    with assms have "unat n < unat t" by (simp add: counter_ok_def word_less_nat_alt)
    moreover have "unat t \<le> 2 ^ 32 - 1" using unsigned_less [of t, where 'a = nat] by simp
    ultimately show ?thesis by linarith
  qed simp
  then show ?thesis by (simp add: unat_word_ariths)
qed

lemma counter_ok_next: "\<not> t \<le> n + 1 \<Longrightarrow> counter_ok t (n + 1)"
  by (simp add: counter_ok_def not_le)

lemma backoff_ok_initial [simp]: "backoff_ok c (initial_backoff c)"
  by (simp add: backoff_ok_def)

lemma backoff_ok_doubled: "backoff_ok (breaker_conf cb) b \<Longrightarrow> backoff_ok (breaker_conf cb) (doubled_backoff cb b)"
  by (auto simp: backoff_ok_def doubled_backoff_def min_def max_def split: if_splits)

lemma new_breaker_inv [inv_rules]: "breaker_inv (new_breaker name c)"
  by (simp add: breaker_inv_def new_breaker_def)

lemma allow_inv [inv_rules]: "breaker_inv cb \<Longrightarrow> breaker_inv (snd (allow t cb))"
  by (auto simp: breaker_inv_def allow_def split: breaker_state.splits)

lemma on_success_inv [inv_rules]: "breaker_inv cb \<Longrightarrow> breaker_inv (on_success cb)"
  by (auto simp: breaker_inv_def on_success_def Let_def counter_ok_next split: breaker_state.splits)

lemma on_failure_inv [inv_rules]: "breaker_inv cb \<Longrightarrow> breaker_inv (on_failure t cb)"
  using backoff_ok_doubled [of cb]
  by (auto simp: breaker_inv_def on_failure_def Let_def counter_ok_next split: breaker_state.splits)

lemma trip_inv [inv_rules]: "breaker_inv cb \<Longrightarrow> breaker_inv (trip t cb)"
  using backoff_ok_doubled [of cb]
  by (auto simp: breaker_inv_def trip_def Let_def split: breaker_state.splits)

lemma reset_inv [inv_rules]: "breaker_inv (reset cb)"
  by (simp add: breaker_inv_def reset_def)

lemma breaker_step_inv [inv_rules]: "breaker_inv cb \<Longrightarrow> breaker_inv (breaker_step cb e)"
  by (cases e, cases "snd e") (auto intro: inv_rules)

lemma breaker_run_inv: "breaker_inv cb \<Longrightarrow> breaker_inv (breaker_run cb es)"
  by (induction es arbitrary: cb) (auto intro: breaker_step_inv)

subsection \<open>Opening\<close>

lemma breaker_failures_closed:
  assumes "breaker_state cb = Closed n" "unat n + length ts < unat (failure_threshold (breaker_conf cb))"
  shows "breaker_state (breaker_run cb (map (\<lambda>t. (t, EvFailure)) ts)) = Closed (n + of_nat (length ts))"
  using assms
proof (induction ts arbitrary: cb n)
  case Nil
  then show ?case by simp
next
  case (Cons t ts)
  have n: "n < failure_threshold (breaker_conf cb)"
    using Cons.prems(2) by (simp add: word_less_nat_alt)
  have suc: "unat (n + 1) = Suc (unat n)"
    by (rule counter_ok_no_wrap [of "failure_threshold (breaker_conf cb)"]) (simp add: counter_ok_def n)
  have lt: "\<not> failure_threshold (breaker_conf cb) \<le> n + 1"
    using Cons.prems(2) by (simp add: word_le_nat_alt suc)
  let ?cb = "breaker_step cb (t, EvFailure)"
  have st: "breaker_state ?cb = Closed (n + 1)"
    using Cons.prems(1) lt by (simp add: on_failure_def)
  have "unat (n + 1) + length ts < unat (failure_threshold (breaker_conf ?cb))"
    using Cons.prems(2) by (simp add: suc)
  from Cons.IH [OF st this] show ?case by (simp add: add.assoc)
qed



subsection \<open>Backoff\<close>

text \<open>One failed probe: \<open>allow\<close> (which may let the call through) and the failure it ends in.\<close>

definition failed_probe :: "breaker \<Rightarrow> instant \<Rightarrow> breaker" where
  "failed_probe cb t = on_failure t (snd (allow t cb))"

lemma failed_probe_conf [simp]: "breaker_conf (failed_probe cb t) = breaker_conf cb"
  by (simp add: failed_probe_def)

lemma failed_probe_open:
  "breaker_state cb = Open u b \<Longrightarrow>
     breaker_state (failed_probe cb t) = Open (t + doubled_backoff cb b) (doubled_backoff cb b)"
  by (simp add: failed_probe_def allow_def on_failure_def doubled_backoff_def Let_def)

text \<open>Exponential backoff with a cap: from an open breaker with backoff \<open>b\<close> at most the maximum,
  after \<open>n\<close> failed probes in a row the backoff is \<open>min (b * 2 ^ n) max_backoff\<close>, and the breaker is
  open from the last probe for that long.\<close>

theorem breaker_backoff_doubles:
  assumes "breaker_state cb = Open u b" "b \<le> max_backoff (breaker_conf cb)"
  shows "\<exists>v. breaker_state (foldl failed_probe cb ts)
      = Open v (min (b * 2 ^ length ts) (max_backoff (breaker_conf cb)))
      \<and> (ts \<noteq> [] \<longrightarrow> v = last ts + min (b * 2 ^ length ts) (max_backoff (breaker_conf cb)))"
  using assms
proof (induction ts rule: rev_induct)
  case Nil
  then show ?case by simp
next
  case (snoc t ts)
  let ?M = "max_backoff (breaker_conf cb)"
  have conf: "breaker_conf (foldl failed_probe cb ts) = breaker_conf cb"
    by (induction ts arbitrary: cb) simp_all
  from snoc obtain v where "breaker_state (foldl failed_probe cb ts) = Open v (min (b * 2 ^ length ts) ?M)"
    by blast
  from failed_probe_open [OF this, of t] conf
  show ?case by (simp add: doubled_backoff_def min_def mult.commute mult.left_commute)
qed

theorem breaker_backoff_doubles_witness:
  "breaker_state (foldl failed_probe
      (new_breaker ''nats'' default_breaker_config \<lparr>breaker_state := Open 0 (10 * 10 ^ 9)\<rparr>)
      [1, 2, 3, 4]) = Open (4 + 120 * 10 ^ 9) (120 * 10 ^ 9)"
  using breaker_backoff_doubles [of "new_breaker ''nats'' default_breaker_config
      \<lparr>breaker_state := Open 0 (10 * 10 ^ 9)\<rparr>" 0 "10 * 10 ^ 9" "[1, 2, 3, 4]"]
  by (simp add: new_breaker_def default_breaker_config_def)

subsection \<open>Admission and recovery\<close>

definition blocked_until :: "breaker \<Rightarrow> instant option" where
  "blocked_until cb = (case breaker_state cb of Open u _ \<Rightarrow> Some u | _ \<Rightarrow> None)"

text \<open>
  The contract a client of a breaker relies on: whether a call is admitted depends only on the
  instant until which the breaker is blocked, an admitted call unblocks it, a refused one changes
  nothing, success never blocks, and \<open>trip\<close> blocks for at least a pause fixed by the
  configuration.
\<close>

locale call_guard =
  fixes admit :: "instant \<Rightarrow> 'g \<Rightarrow> bool \<times> 'g"
    and succeed :: "'g \<Rightarrow> 'g"
    and block :: "instant \<Rightarrow> 'g \<Rightarrow> 'g"
    and unblock :: "'g \<Rightarrow> 'g"
    and blocked :: "'g \<Rightarrow> instant option"
    and pause :: "'g \<Rightarrow> duration"
    and ginv :: "'g \<Rightarrow> bool"
  assumes admit_iff: "fst (admit t g) \<longleftrightarrow> (case blocked g of None \<Rightarrow> True | Some u \<Rightarrow> u \<le> t)"
    and admit_unblocks: "fst (admit t g) \<Longrightarrow> blocked (snd (admit t g)) = None"
    and admit_refused: "\<not> fst (admit t g) \<Longrightarrow> snd (admit t g) = g"
    and succeed_blocked: "blocked (succeed g) = blocked g"
    and block_blocked: "ginv g \<Longrightarrow> \<exists>u. blocked (block t g) = Some u \<and> t + pause g \<le> u"
    and unblock_blocked: "blocked (unblock g) = None"
    and pause_fixed: "pause (snd (admit t g)) = pause g" "pause (succeed g) = pause g"
      "pause (block t g) = pause g" "pause (unblock g) = pause g"
    and ginv_kept: "ginv g \<Longrightarrow> ginv (snd (admit t g))" "ginv g \<Longrightarrow> ginv (succeed g)"
      "ginv g \<Longrightarrow> ginv (block t g)" "ginv g \<Longrightarrow> ginv (unblock g)"
begin

lemma blocked_for_pause:
  assumes "ginv g" "t' < t + pause g"
  shows "admit t' (block t g) = (False, block t g)"
proof -
  obtain u where "blocked (block t g) = Some u" "t + pause g \<le> u"
    using block_blocked [OF assms(1)] by blast
  with assms(2) have "\<not> fst (admit t' (block t g))" by (simp add: admit_iff)
  with admit_refused show ?thesis by (metis prod.collapse)
qed

lemma unblocked_admits: "fst (admit t (unblock g))"
  by (simp add: admit_iff unblock_blocked)

lemma succeed_after_admit_admits: "fst (admit t g) \<Longrightarrow> fst (admit t' (succeed (snd (admit t g))))"
  by (simp add: admit_iff [of t'] succeed_blocked admit_unblocks)

end

definition breaker_pause :: "breaker \<Rightarrow> duration" where
  "breaker_pause cb = min (initial_backoff (breaker_conf cb)) (max_backoff (breaker_conf cb))"

lemma trip_blocked:
  "breaker_inv cb \<Longrightarrow> \<exists>u. blocked_until (trip t cb) = Some u \<and> t + breaker_pause cb \<le> u"
  using backoff_ok_doubled [of cb]
  by (auto simp: blocked_until_def trip_def breaker_pause_def breaker_inv_def backoff_ok_def Let_def
      split: breaker_state.splits)

lemma success_blocked: "blocked_until (on_success cb) = blocked_until cb"
  by (auto simp: blocked_until_def on_success_def Let_def split: breaker_state.splits)

lemma breaker_pause_op [simp]:
  "breaker_pause (snd (allow t cb)) = breaker_pause cb"
  "breaker_pause (on_success cb) = breaker_pause cb"
  "breaker_pause (trip t cb) = breaker_pause cb"
  "breaker_pause (reset cb) = breaker_pause cb"
  by (simp_all add: breaker_pause_def)

lemma allow_iff: "fst (allow t cb) \<longleftrightarrow> (case blocked_until cb of None \<Rightarrow> True | Some u \<Rightarrow> u \<le> t)"
  by (auto simp: blocked_until_def allow_def split: breaker_state.splits)

lemma allow_unblocks: "fst (allow t cb) \<Longrightarrow> blocked_until (snd (allow t cb)) = None"
  by (auto simp: blocked_until_def allow_def split: breaker_state.splits if_splits)

lemma allow_refused: "\<not> fst (allow t cb) \<Longrightarrow> snd (allow t cb) = cb"
  by (auto simp: allow_def split: breaker_state.splits if_splits)

lemma reset_unblocks: "blocked_until (reset cb) = None"
  by (simp add: blocked_until_def reset_def)

interpretation guard: call_guard allow on_success trip reset blocked_until breaker_pause breaker_inv
  by unfold_locales
    (auto simp: allow_iff allow_unblocks allow_refused success_blocked reset_unblocks
      intro: inv_rules trip_blocked)

lemma breaker_successes_half_open:
  assumes "breaker_state cb = HalfOpen n b"
    and "unat n + length ts < unat (success_threshold (breaker_conf cb)) \<or> ts = []"
  shows "breaker_state (breaker_run cb (map (\<lambda>t. (t, EvSuccess)) ts)) = HalfOpen (n + of_nat (length ts)) b"
  using assms
proof (induction ts arbitrary: cb n)
  case Nil
  then show ?case by simp
next
  case (Cons t ts)
  let ?k = "success_threshold (breaker_conf cb)"
  have less: "unat n + length (t # ts) < unat ?k" using Cons.prems(2) by simp
  then have "counter_ok ?k n" by (simp add: counter_ok_def word_less_nat_alt)
  then have suc: "unat (n + 1) = Suc (unat n)" by (rule counter_ok_no_wrap)
  with less have lt: "\<not> ?k \<le> n + 1" by (simp add: word_le_nat_alt)
  let ?cb = "breaker_step cb (t, EvSuccess)"
  have st: "breaker_state ?cb = HalfOpen (n + 1) b"
    using Cons.prems(1) lt by (simp add: on_success_def)
  have "unat (n + 1) + length ts < unat (success_threshold (breaker_conf ?cb)) \<or> ts = []"
    using less by (simp add: suc)
  from Cons.IH [OF st this] show ?case by (simp add: add.assoc)
qed

text \<open>While the breaker is open, calls before the deadline are refused and change nothing; the
  first call at or after the deadline is admitted as a probe, and from there as many successes as
  the success threshold asks for (at least one) close the breaker with a clean counter.\<close>

theorem breaker_probe_recovers:
  assumes op: "breaker_state cb = Open u b"
    and len: "length ts = max 1 (unat (success_threshold (breaker_conf cb)))"
  shows "(t < u \<longrightarrow> allow t cb = (False, cb)) \<and>
    (u \<le> t \<longrightarrow> fst (allow t cb) \<and>
       breaker_state (breaker_run (snd (allow t cb)) (map (\<lambda>t. (t, EvSuccess)) ts)) = Closed 0)"
proof (intro conjI impI)
  assume "t < u"
  then show "allow t cb = (False, cb)" using op by (simp add: allow_def)
next
  let ?k = "success_threshold (breaker_conf cb)" and ?h = "snd (allow t cb)"
  assume ge: "u \<le> t"
  then show "fst (allow t cb)" using op by (simp add: allow_def)
  have half: "breaker_state ?h = HalfOpen 0 b" using op ge by (simp add: allow_def)
  obtain ss s where ts: "ts = ss @ [s]" using len by (cases ts rule: rev_cases) auto
  with len have k: "Suc (length ss) = max 1 (unat ?k)" by simp
  then have "unat (0 :: u32) + length ss < unat (success_threshold (breaker_conf ?h)) \<or> ss = []"
    by (auto simp: max_def split: if_splits)
  from breaker_successes_half_open [OF half this]
  have st: "breaker_state (breaker_run ?h (map (\<lambda>t. (t, EvSuccess)) ss)) = HalfOpen (of_nat (length ss)) b"
    by simp
  have "?k \<le> of_nat (Suc (length ss))"
    unfolding k by (simp add: max_def word_le_nat_alt)
  then have "?k \<le> of_nat (length ss) + 1" by (simp add: add.commute)
  with st show "breaker_state (breaker_run ?h (map (\<lambda>t. (t, EvSuccess)) ts)) = Closed 0"
    by (simp add: ts breaker_run_append on_success_def)
qed

theorem breaker_probe_recovers_witness:
  "allow 9 (new_breaker ''nats'' default_breaker_config \<lparr>breaker_state := Open 10 5\<rparr>)
     = (False, new_breaker ''nats'' default_breaker_config \<lparr>breaker_state := Open 10 5\<rparr>)"
  using breaker_probe_recovers [of "new_breaker ''nats'' default_breaker_config
      \<lparr>breaker_state := Open 10 5\<rparr>" 10 5 "[11, 12]" 9]
  by (simp add: new_breaker_def default_breaker_config_def)

text \<open>C12. In every state reached from a fresh breaker by any sequence of calls at any clock readings,
  both counters are below their thresholds (so the 32-bit increments never wrap) and the backoff
  lies between the smaller and the larger of the initial and the maximal backoff.\<close>

theorem breaker_counters_and_backoff_bounded:
  "case breaker_state (breaker_run (new_breaker name c) es) of
     Closed n \<Rightarrow> (n < failure_threshold c \<or> n = 0) \<and> unat (n + 1) = Suc (unat n)
   | Open _ b \<Rightarrow> b \<in> {min (initial_backoff c) (max_backoff c) .. max (initial_backoff c) (max_backoff c)}
   | HalfOpen n b \<Rightarrow> (n < success_threshold c \<or> n = 0) \<and> unat (n + 1) = Suc (unat n) \<and>
       b \<in> {min (initial_backoff c) (max_backoff c) .. max (initial_backoff c) (max_backoff c)}"
proof -
  let ?cb = "breaker_run (new_breaker name c) es"
  have "breaker_inv ?cb" by (rule breaker_run_inv [OF new_breaker_inv])
  moreover have "breaker_conf ?cb = c" by (simp add: new_breaker_def)
  moreover have "unat (n + 1) = Suc (unat n)" if "n < t" for n t :: u32
    using that by (auto intro: counter_ok_no_wrap [of t] simp: counter_ok_def)
  ultimately show ?thesis
    by (auto simp: breaker_inv_def backoff_ok_def counter_ok_def split: breaker_state.splits)
qed

text \<open>\<open>call\<close> runs the closure exactly when the breaker admits the call: a refused call leaves
  the breaker and the outer world as they were and reports the breaker's name; an admitted call
  returns what the closure returned and records it, so a failing probe leaves the breaker blocked.\<close>

theorem breaker_call_spec:
  "call now later f cb w =
     (if fst (allow now cb)
      then (case f w of
              (Inr v, w') \<Rightarrow> (Inr v, on_success (snd (allow now cb)), w')
            | (Inl e, w') \<Rightarrow> (Inl (Inner e), on_failure later (snd (allow now cb)), w'))
      else (Inl (CircuitOpen (breaker_name cb)), cb, w))
   \<and> (blocked_until cb \<noteq> None \<longrightarrow> fst (allow now cb) \<longrightarrow> isl (fst (f w)) \<longrightarrow>
        blocked_until (fst (snd (call now later f cb w))) \<noteq> None)"
  by (auto simp: call_def allow_refused blocked_until_def allow_def on_failure_def Let_def
      split: prod.splits sum.splits breaker_state.splits if_splits)

theorem breaker_call_spec_witness:
  "fst (call 1 2 (\<lambda>w. (Inl (), w)) (new_breaker ''x'' default_breaker_config
      \<lparr>breaker_state := Open 5 5\<rparr>) (0 :: nat)) = (Inl (CircuitOpen ''x'') :: unit circuit_error + nat)"
  using breaker_call_spec [of 1 2 "\<lambda>w. (Inl () :: unit + nat, w)" "new_breaker ''x'' default_breaker_config
      \<lparr>breaker_state := Open 5 5\<rparr>" "0 :: nat"]
  by (simp add: new_breaker_def allow_def)

end
