(* ===== verification/Topics.thy ===== *)
theory Topics
  imports Prelude
begin

section \<open>Topic patterns (\<open>crates/broker/src/topic.rs\<close>)\<close>

text \<open>
  NATS-style subject matching: \<open>*\<close> stands for one segment, \<open>>\<close> for one or more remaining ones.
  The text is a list of bytes; the separator is an ASCII byte, so splitting bytes and splitting
  UTF-8 text agree.
\<close>

subsection \<open>\<open>str::split\<close> on a separator\<close>

fun split_on :: "char \<Rightarrow> string \<Rightarrow> string list" where
  "split_on c [] = [[]]"
| "split_on c (x # xs) =
     (if x = c then [] # split_on c xs
      else (case split_on c xs of [] \<Rightarrow> [[x]] | p # ps \<Rightarrow> (x # p) # ps))"

fun join_with :: "char \<Rightarrow> string list \<Rightarrow> string" where
  "join_with c [] = []"
| "join_with c [p] = p"
| "join_with c (p # q # ps) = p @ c # join_with c (q # ps)"

lemma split_on_nonempty [simp]: "split_on c s \<noteq> []"
  by (induction s) (auto split: list.splits)

lemma join_with_Cons: "ps \<noteq> [] \<Longrightarrow> join_with c (p # ps) = p @ c # join_with c ps"
  by (cases ps) simp_all

lemma join_split [simp]: "join_with c (split_on c s) = s"
proof (induction s)
  case Nil
  then show ?case by simp
next
  case (Cons x s)
  then obtain p ps where ps: "split_on c s = p # ps" by (cases "split_on c s") auto
  with Cons.IH have "join_with c (p # ps) = s" by simp
  then show ?case using ps by (cases ps) (auto simp: join_with_Cons)
qed

lemma split_on_no_sep: "seg \<in> set (split_on c s) \<Longrightarrow> c \<notin> set seg"
proof (induction s arbitrary: seg)
  case Nil
  then show ?case by simp
next
  case (Cons x s)
  then obtain p ps where ps: "split_on c s = p # ps" by (cases "split_on c s") auto
  with Cons show ?case by (auto split: if_splits)
qed

lemma split_on_single: "c \<notin> set s \<Longrightarrow> split_on c s = [s]"
  by (induction s) auto

lemma split_on_append: "c \<notin> set p \<Longrightarrow> split_on c (p @ c # s) = p # split_on c s"
  by (induction p) auto

lemma split_join: "ps \<noteq> [] \<Longrightarrow> \<forall>p \<in> set ps. c \<notin> set p \<Longrightarrow> split_on c (join_with c ps) = ps"
  by (induction ps rule: join_with.induct) (auto simp: split_on_single split_on_append)

subsection \<open>The matcher\<close>

definition is_valid_topic :: "string \<Rightarrow> bool" where
  "is_valid_topic s = (if s = [] then False else \<not> list_ex (\<lambda>seg. seg = []) (split_on (CHR ''.'') s))"

fun match_parts :: "string list \<Rightarrow> string list \<Rightarrow> bool" where
  "match_parts [] [] = True"
| "match_parts [] (s # ss) = False"
| "match_parts (p # ps) ss =
     (if p = ''>'' then ss \<noteq> []
      else (case ss of
              [] \<Rightarrow> False
            | s # ss' \<Rightarrow> if p = ''*'' then match_parts ps ss'
                        else if p = s then match_parts ps ss'
                        else False))"

definition topic_matches :: "string \<Rightarrow> string \<Rightarrow> bool" where
  "topic_matches pattern subject =
     (if \<not> is_valid_topic pattern \<or> \<not> is_valid_topic subject then False
      else match_parts (split_on (CHR ''.'') pattern) (split_on (CHR ''.'') subject))"

subsection \<open>A declarative specification\<close>

definition token_ok :: "string \<Rightarrow> string \<Rightarrow> bool" where
  "token_ok p s \<longleftrightarrow> p = ''*'' \<or> p = s"

text \<open>
  The tokens before the first \<open>>\<close> match the subject's segments one for one; if there is a \<open>>\<close>, at
  least one more segment follows, otherwise none does.
\<close>

definition match_spec :: "string list \<Rightarrow> string list \<Rightarrow> bool" where
  "match_spec pat sub \<longleftrightarrow>
     (let pre = takeWhile (\<lambda>p. p \<noteq> ''>'') pat in
      if ''>'' \<in> set pat
      then length pre < length sub \<and> list_all2 token_ok pre (take (length pre) sub)
      else list_all2 token_ok pat sub)"

lemma match_parts_spec: "match_parts pat sub \<longleftrightarrow> match_spec pat sub"
proof (induction pat sub rule: match_parts.induct)
  case (3 p ps ss)
  show ?case
  proof (cases "p = ''>''")
    case True
    then show ?thesis by (simp add: match_spec_def)
  next
    case gt: False
    show ?thesis
    proof (cases ss)
      case Nil
      with gt show ?thesis by (simp add: match_spec_def Let_def)
    next
      case (Cons s ss')
      have "match_spec (p # ps) (s # ss') \<longleftrightarrow> token_ok p s \<and> match_spec ps ss'"
        using gt by (auto simp: match_spec_def Let_def)
      moreover have "token_ok p s \<Longrightarrow> match_parts ps ss' \<longleftrightarrow> match_spec ps ss'"
        using 3 gt Cons by (cases "p = ''*''") (auto simp: token_ok_def)
      ultimately show ?thesis using gt Cons by (auto simp: token_ok_def)
    qed
  qed
qed (simp_all add: match_spec_def)

lemma match_parts_refl: "match_parts ss ss"
  by (induction ss) auto


lemma topic_matches_self: "is_valid_topic s \<Longrightarrow> topic_matches s s"
  by (simp add: topic_matches_def match_parts_refl)

text \<open>
  The documentation of the matcher says \<open>>\<close> is only valid as the last token; the code accepts it
  anywhere and ignores the tokens behind it.
\<close>

lemma match_parts_ignores_after_gt: "match_parts (pre @ ''>'' # rest) sub \<longleftrightarrow> match_parts (pre @ [''>'']) sub"
  by (induction pre sub rule: match_parts.induct) (auto split: list.splits)

text \<open>Tokens behind a \<open>>\<close> are never looked at: a pattern whose segments are \<open>pre\<close>, \<open>>\<close>, \<open>rest\<close>
  matches exactly the subjects that \<open>pre\<close>, \<open>>\<close> matches, so \<open>>\<close> is accepted in any position.\<close>

theorem topic_gt_accepted_anywhere:
  assumes "\<forall>p \<in> set (pre @ rest). p \<noteq> [] \<and> CHR ''.'' \<notin> set p"
  shows "topic_matches (join_with (CHR ''.'') (pre @ ''>'' # rest)) subject
    \<longleftrightarrow> topic_matches (join_with (CHR ''.'') (pre @ [''>''])) subject"
proof -
  have split: "split_on (CHR ''.'') (join_with (CHR ''.'') (pre @ ''>'' # q)) = pre @ ''>'' # q"
    if "set q \<subseteq> set rest" for q
    using assms that by (intro split_join) auto
  have ne: "join_with (CHR ''.'') (pre @ ''>'' # q) \<noteq> []" if "set q \<subseteq> set rest" for q
  proof
    assume "join_with (CHR ''.'') (pre @ ''>'' # q) = []"
    with split [OF that] show False by (cases pre) auto
  qed
  have "is_valid_topic (join_with (CHR ''.'') (pre @ ''>'' # q))" if "set q \<subseteq> set rest" for q
    using ne [OF that] split [OF that] assms that by (auto simp: is_valid_topic_def list_ex_iff)
  from this [of rest] this [of "[]"] show ?thesis
    using split [of rest] split [of "[]"] match_parts_ignores_after_gt [of pre rest]
    by (simp add: topic_matches_def)
qed

theorem topic_gt_accepted_anywhere_witness: "topic_matches ''a.>.b'' ''a.x'' = topic_matches ''a.>'' ''a.x''"
  using topic_gt_accepted_anywhere [of "[''a'']" "[''b'']" "''a.x''"] by simp

end
