(* ===== verification/Json.thy ===== *)
theory Json
  imports Prelude
begin

section \<open>JSON values\<close>

text \<open>
  The values that components store and exchange.  An object is an association list; the code
  reads it by key only.  A number is kept as the text it is written with, since no component
  modelled here computes with one.
\<close>

datatype json =
    JNull
  | JBool bool
  | JNumber string
  | JString string
  | JArray "json list"
  | JObject "(string \<times> json) list"

text \<open>\<open>Map::insert\<close>: replace the value of a key, or add the key.\<close>

definition json_insert :: "string \<Rightarrow> json \<Rightarrow> (string \<times> json) list \<Rightarrow> (string \<times> json) list" where
  "json_insert k v m = AList.update k v m"

lemma map_of_json_insert [simp, table_simps]: "map_of (json_insert k v m) = (map_of m)(k \<mapsto> v)"
  by (simp add: json_insert_def map_of_update)

text \<open>\<open>value[key]\<close>: the member of an object, \<open>None\<close> for anything else.\<close>

fun json_get :: "string \<Rightarrow> json \<Rightarrow> json option" where
  "json_get k (JObject m) = map_of m k"
| "json_get k _ = None"

text \<open>\<open>as_bool\<close>, false when it is not one, and \<open>as_str\<close>.\<close>

definition json_true :: "json option \<Rightarrow> bool" where
  "json_true v = (case v of Some (JBool b) \<Rightarrow> b | _ \<Rightarrow> False)"

definition json_str :: "json option \<Rightarrow> string option" where
  "json_str v = (case v of Some (JString s) \<Rightarrow> Some s | _ \<Rightarrow> None)"

end
