(* ===== verification/Local_Broker.thy ===== *)
theory Local_Broker
  imports Topics Json
begin

section \<open>Broker types and the in-process broker (\<open>crates/broker/src/{types,local}.rs\<close>)\<close>

text \<open>
  The in-process broker keeps a table of subscriptions, each a pattern and the sending half of a
  bounded channel.  The channel is tokio's: its \<open>try_send\<close> is an argument of the definitions, and
  what the code relies on is the predicate \<open>channel_law\<close>, stated over the channel's contents.
\<close>

record event =
  ev_id :: uuid
  ev_timestamp :: timestamp
  ev_topic :: string
  ev_source :: string
  ev_session :: "uuid option"
  ev_payload :: json

definition new_event :: "uuid \<Rightarrow> timestamp \<Rightarrow> string \<Rightarrow> string \<Rightarrow> json \<Rightarrow> event" where
  "new_event fresh now topic source payload =
     \<lparr>ev_id = fresh, ev_timestamp = now, ev_topic = topic, ev_source = source,
      ev_session = None, ev_payload = payload\<rparr>"

record message =
  msg_id :: uuid
  msg_topic :: string
  msg_reply_to :: "string option"
  msg_payload :: json

datatype broker_error = RequestTimeout string | SendError string | SubscribeError string

datatype send_outcome = SendOk | SendFull | SendClosed

type_synonym 'c try_send = "'c \<Rightarrow> event \<Rightarrow> send_outcome \<times> 'c"

record 'c local_broker =
  subs :: "(uuid, string \<times> 'c) table"
  dropped_slow :: "64 word"

definition new_local_broker :: "'c local_broker" where
  "new_local_broker = \<lparr>subs = [], dropped_slow = 0\<rparr>"

subsection \<open>Publishing\<close>

text \<open>
  The loop over the subscriptions: what becomes of the entries, the ids found dead, and the number
  of events shed to slow consumers.
\<close>

fun publish_loop ::
  "'c try_send \<Rightarrow> string \<Rightarrow> event \<Rightarrow> (uuid, string \<times> 'c) table
     \<Rightarrow> (uuid, string \<times> 'c) table \<times> uuid list \<times> 64 word" where
  "publish_loop ts topic e [] = ([], [], 0)"
| "publish_loop ts topic e ((i, pattern, tx) # rest) =
     (let (rest', dead, shed) = publish_loop ts topic e rest in
      if \<not> topic_matches pattern topic then ((i, pattern, tx) # rest', dead, shed)
      else (case ts tx e of
              (SendOk, tx') \<Rightarrow> ((i, pattern, tx') # rest', dead, shed)
            | (SendFull, tx') \<Rightarrow> ((i, pattern, tx') # rest', dead, shed + 1)
            | (SendClosed, tx') \<Rightarrow> ((i, pattern, tx') # rest', i # dead, shed)))"

definition local_publish ::
  "'c try_send \<Rightarrow> string \<Rightarrow> event \<Rightarrow> 'c local_broker \<Rightarrow> (broker_error + unit) \<times> 'c local_broker" where
  "local_publish ts topic e b =
     (let (entries, dead, shed) = publish_loop ts topic e (subs b)
      in (Inr (), b\<lparr>subs := foldl (\<lambda>m i. AList.delete i m) entries dead,
                    dropped_slow := dropped_slow b + shed\<rparr>))"

text \<open>\<open>subscribe\<close>: the fresh id and the sending half of the new channel come from the caller.\<close>

definition local_subscribe :: "uuid \<Rightarrow> 'c \<Rightarrow> string \<Rightarrow> 'c local_broker \<Rightarrow> 'c local_broker" where
  "local_subscribe fresh tx topic b = b\<lparr>subs := AList.update fresh (topic, tx) (subs b)\<rparr>"

text \<open>
  \<open>request\<close>: subscribe to a fresh inbox, publish the wrapped message and wait for the first event
  of the inbox.  \<open>to_value\<close> and \<open>from_value\<close> are serde's; \<open>next_event\<close> is what the subscription
  yields before the deadline, \<open>None\<close> for a timeout or a closed channel.
\<close>

definition local_request ::
  "'c try_send \<Rightarrow> (message \<Rightarrow> string + json) \<Rightarrow> (json \<Rightarrow> string + message)
     \<Rightarrow> string \<Rightarrow> uuid \<Rightarrow> 'c \<Rightarrow> uuid \<Rightarrow> timestamp \<Rightarrow> ('c local_broker \<Rightarrow> event option)
     \<Rightarrow> string \<Rightarrow> message \<Rightarrow> 'c local_broker \<Rightarrow> (broker_error + message) \<times> 'c local_broker" where
  "local_request ts to_value from_value inbox sub_id tx ev_fresh now next_event topic msg b =
     (let msg' = msg\<lparr>msg_reply_to := Some inbox\<rparr>;
          b1 = local_subscribe sub_id tx inbox b
      in case to_value msg' of
           Inl err \<Rightarrow> (Inl (SendError err), b1)
         | Inr payload \<Rightarrow>
             (case local_publish ts topic (new_event ev_fresh now topic ''local'' payload) b1 of
                (Inl err, b2) \<Rightarrow> (Inl err, b2)
              | (Inr (), b2) \<Rightarrow>
                  (case next_event b2 of
                     Some reply \<Rightarrow>
                       (case from_value (ev_payload reply) of
                          Inr m \<Rightarrow> (Inr m, b2)
                        | Inl err \<Rightarrow> (Inl (SendError (''failed to deserialize reply: '' @ err)), b2))
                   | None \<Rightarrow> (Inl (RequestTimeout topic), b2))))"

subsection \<open>What a publish does to one subscription\<close>

definition deliver :: "'c try_send \<Rightarrow> string \<Rightarrow> event \<Rightarrow> string \<times> 'c \<Rightarrow> (string \<times> 'c) option" where
  "deliver ts topic e p =
     (case p of (pattern, tx) \<Rightarrow>
        if \<not> topic_matches pattern topic then Some (pattern, tx)
        else (case ts tx e of (SendClosed, _) \<Rightarrow> None | (_, tx') \<Rightarrow> Some (pattern, tx')))"

definition slow_match :: "'c try_send \<Rightarrow> string \<Rightarrow> event \<Rightarrow> string \<times> 'c \<Rightarrow> bool" where
  "slow_match ts topic e p \<longleftrightarrow>
     topic_matches (fst p) topic \<and> fst (ts (snd p) e) = SendFull"

lemma foldl_delete: "map_of (foldl (\<lambda>m i. AList.delete i m) m is) k = (if k \<in> set is then None else map_of m k)"
  by (induction "is" arbitrary: m) (auto simp: map_of_delete)

lemma foldl_delete_wf: "wf_table m \<Longrightarrow> wf_table (foldl (\<lambda>m i. AList.delete i m) m is)"
  by (induction "is" arbitrary: m) auto

lemma publish_loop_keys: "keys_of (fst (publish_loop ts topic e m)) = keys_of m"
  by (induction ts topic e m rule: publish_loop.induct)
    (auto split: prod.splits send_outcome.splits)

lemma publish_loop_dead_sub: "set (fst (snd (publish_loop ts topic e m))) \<subseteq> set (keys_of m)"
  by (induction ts topic e m rule: publish_loop.induct)
    (auto split: prod.splits send_outcome.splits if_splits)

lemma publish_loop_lookup:
  assumes "wf_table m"
  shows "(if k \<in> set (fst (snd (publish_loop ts topic e m))) then None
          else map_of (fst (publish_loop ts topic e m)) k)
    = Option.bind (map_of m k) (deliver ts topic e)"
  using assms
proof (induction ts topic e m rule: publish_loop.induct)
  case (1 ts topic e)
  then show ?case by simp
next
  case (2 ts topic e i pattern tx rest)
  obtain rest' dead shed where loop: "publish_loop ts topic e rest = (rest', dead, shed)"
    by (metis prod_cases3)
  have "set dead \<subseteq> set (keys_of rest)"
    using publish_loop_dead_sub [of ts topic e rest] loop by simp
  then have "i \<notin> set dead" using 2(2) by (auto simp: wf_table_def)
  moreover have "(if k \<in> set dead then None else map_of rest' k) = Option.bind (map_of rest k) (deliver ts topic e)"
    using 2(1) 2(2) by (auto simp: wf_table_def loop split: if_splits)
  ultimately show ?case
  proof (cases "k = i")
    case True
    with \<open>i \<notin> set dead\<close> show ?thesis
      by (auto simp: loop deliver_def split: prod.splits send_outcome.splits)
  next
    case False
    moreover assume "(if k \<in> set dead then None else map_of rest' k) = Option.bind (map_of rest k) (deliver ts topic e)"
    ultimately show ?thesis
      by (auto simp: loop split: prod.splits send_outcome.splits if_splits)
  qed
qed

lemma publish_loop_shed:
  "snd (snd (publish_loop ts topic e m)) = of_nat (length (filter (\<lambda>p. slow_match ts topic e (snd p)) m))"
  by (induction ts topic e m rule: publish_loop.induct)
    (auto simp: slow_match_def split: prod.splits send_outcome.splits)

lemma local_publish_wf: "wf_table (subs b) \<Longrightarrow> wf_table (subs (snd (local_publish ts topic e b)))"
  using publish_loop_keys [of ts topic e "subs b"]
  by (auto simp: local_publish_def wf_table_def split: prod.splits
      intro!: foldl_delete_wf [unfolded wf_table_def])

lemma local_publish_lookup:
  "wf_table (subs b) \<Longrightarrow>
     map_of (subs (snd (local_publish ts topic e b))) k = Option.bind (map_of (subs b) k) (deliver ts topic e)"
  using publish_loop_lookup [of "subs b" k ts topic e]
  by (auto simp: local_publish_def foldl_delete split: prod.splits)

lemma local_publish_shed:
  "dropped_slow (snd (local_publish ts topic e b))
     = dropped_slow b + of_nat (length (filter (\<lambda>p. slow_match ts topic e (snd p)) (subs b)))"
  using publish_loop_shed [of ts topic e "subs b"]
  by (auto simp: local_publish_def split: prod.splits)

subsection \<open>The channel contract\<close>

text \<open>
  What the code relies on of a bounded channel: \<open>try_send\<close> appends when there is room, reports a
  full channel without changing it, and reports a channel whose receiver is gone.
\<close>

definition channel_law ::
  "'c try_send \<Rightarrow> ('c \<Rightarrow> event list) \<Rightarrow> ('c \<Rightarrow> bool) \<Rightarrow> nat \<Rightarrow> bool" where
  "channel_law ts queued closed capacity \<longleftrightarrow>
     (\<forall>c e. (fst (ts c e) = SendClosed \<longleftrightarrow> closed c)
      \<and> (fst (ts c e) = SendFull \<longleftrightarrow> \<not> closed c \<and> capacity \<le> length (queued c))
      \<and> (fst (ts c e) = SendFull \<longrightarrow> snd (ts c e) = c)
      \<and> (fst (ts c e) = SendOk \<longrightarrow>
           queued (snd (ts c e)) = queued c @ [e] \<and> \<not> closed (snd (ts c e))))"

text \<open>The capacity every subscription of the in-process broker has.\<close>

definition channel_capacity :: nat where
  "channel_capacity = 256"

text \<open>A channel as a value, to instantiate the contract.\<close>

record list_channel =
  lc_queue :: "event list"
  lc_closed :: bool

definition list_try_send :: "nat \<Rightarrow> list_channel try_send" where
  "list_try_send capacity c e =
     (if lc_closed c then (SendClosed, c)
      else if capacity \<le> length (lc_queue c) then (SendFull, c)
      else (SendOk, c\<lparr>lc_queue := lc_queue c @ [e]\<rparr>))"

lemma list_channel_law: "channel_law (list_try_send n) lc_queue lc_closed n"
  by (simp add: channel_law_def list_try_send_def)

text \<open>\<open>publish\<close> always succeeds and acts on each subscription by itself: one whose pattern does
  not match is untouched; a matching one with room gets exactly this event at the end of its queue;
  a matching full one stays subscribed with its queue unchanged; a matching one whose receiver is
  gone is removed.  The counter of shed events grows by the number of matching full ones.\<close>

theorem local_publish_delivers:
  assumes law: "channel_law ts queued closed channel_capacity"
    and wf: "wf_table (subs b)"
  shows "fst (local_publish ts topic e b) = Inr () \<and>
    (\<forall>i. case map_of (subs b) i of
       None \<Rightarrow> map_of (subs (snd (local_publish ts topic e b))) i = None
     | Some (pattern, c) \<Rightarrow>
         (case map_of (subs (snd (local_publish ts topic e b))) i of
            None \<Rightarrow> topic_matches pattern topic \<and> closed c
          | Some (pattern', c') \<Rightarrow> pattern' = pattern \<and>
              (if \<not> topic_matches pattern topic then c' = c
               else \<not> closed c \<and>
                 (if channel_capacity \<le> length (queued c) then c' = c
                  else queued c' = queued c @ [e] \<and> \<not> closed c')))) \<and>
    dropped_slow (snd (local_publish ts topic e b)) = dropped_slow b +
      of_nat (length (filter (\<lambda>(i, pattern, c). topic_matches pattern topic \<and> \<not> closed c
                                \<and> channel_capacity \<le> length (queued c)) (subs b)))"
proof -
  have ts: "(fst (ts c e) = SendClosed \<longleftrightarrow> closed c)"
      "(fst (ts c e) = SendFull \<longleftrightarrow> \<not> closed c \<and> channel_capacity \<le> length (queued c))"
      "fst (ts c e) = SendFull \<Longrightarrow> snd (ts c e) = c"
      "fst (ts c e) = SendOk \<Longrightarrow> queued (snd (ts c e)) = queued c @ [e] \<and> \<not> closed (snd (ts c e))"
    for c using law by (auto simp: channel_law_def)
  have slow: "slow_match ts topic e p \<longleftrightarrow> topic_matches (fst p) topic \<and> \<not> closed (snd p)
      \<and> channel_capacity \<le> length (queued (snd p))" for p
    using ts [of "snd p"] by (auto simp: slow_match_def)
  have one: "case Option.bind (Some (pattern, c)) (deliver ts topic e) of
        None \<Rightarrow> topic_matches pattern topic \<and> closed c
      | Some (pattern', c') \<Rightarrow> pattern' = pattern \<and>
          (if \<not> topic_matches pattern topic then c' = c
           else \<not> closed c \<and> (if channel_capacity \<le> length (queued c) then c' = c
                else queued c' = queued c @ [e] \<and> \<not> closed c'))" for pattern c
    using ts [of c] by (cases "ts c e", cases "fst (ts c e)") (auto simp: deliver_def)
  have "fst (local_publish ts topic e b) = Inr ()"
    by (simp add: local_publish_def split: prod.splits)
  moreover have "case map_of (subs b) i of
       None \<Rightarrow> map_of (subs (snd (local_publish ts topic e b))) i = None
     | Some (pattern, c) \<Rightarrow>
         (case map_of (subs (snd (local_publish ts topic e b))) i of
            None \<Rightarrow> topic_matches pattern topic \<and> closed c
          | Some (pattern', c') \<Rightarrow> pattern' = pattern \<and>
              (if \<not> topic_matches pattern topic then c' = c
               else \<not> closed c \<and> (if channel_capacity \<le> length (queued c) then c' = c
                    else queued c' = queued c @ [e] \<and> \<not> closed c')))" for i
  proof (cases "map_of (subs b) i")
    case None
    then show ?thesis by (simp add: local_publish_lookup [OF wf])
  next
    case (Some p)
    moreover obtain pattern c where "p = (pattern, c)" by (cases p)
    ultimately show ?thesis
      using one [of pattern c] by (simp add: local_publish_lookup [OF wf])
  qed
  ultimately show ?thesis
    by (simp add: local_publish_shed slow case_prod_unfold)
qed

theorem local_publish_delivers_witness:
  "let e = new_event (Uuid 9) 0 ''a.b'' ''test'' JNull in
   map_of (subs (snd (local_publish (list_try_send channel_capacity) ''a.b'' e
      (local_subscribe (Uuid 1) \<lparr>lc_queue = [], lc_closed = False\<rparr> ''a.*'' new_local_broker)))) (Uuid 1)
    = Some (''a.*'', \<lparr>lc_queue = [e], lc_closed = False\<rparr>)"
proof -
  let ?e = "new_event (Uuid 9) 0 ''a.b'' ''test'' JNull"
  let ?b = "local_subscribe (Uuid 1) \<lparr>lc_queue = [], lc_closed = False\<rparr> ''a.*'' new_local_broker"
  have wf: "wf_table (subs ?b)" by (simp add: local_subscribe_def new_local_broker_def wf_table_def)
  have m: "topic_matches ''a.*'' ''a.b''" by (simp add: topic_matches_def is_valid_topic_def)
  have s: "subs ?b = [(Uuid 1, ''a.*'', \<lparr>lc_queue = [], lc_closed = False\<rparr>)]"
    by (simp add: local_subscribe_def new_local_broker_def)
  from local_publish_delivers [OF list_channel_law wf, of "''a.b''" ?e, THEN conjunct2, THEN conjunct1,
      rule_format, of "Uuid 1"] m s
  show ?thesis
    by (auto simp: Let_def channel_capacity_def split: option.splits)
qed

end
