(* ===== verification/Disk_Queue.thy ===== *)
theory Disk_Queue
  imports Local_Broker
begin

section \<open>Durable event queue (\<open>crates/broker/src/disk_queue.rs\<close>)\<close>

text \<open>
  Events that could not be published wait in the SQL table \<open>pending_events\<close> and end in
  \<open>dead_letters\<close> after three failed attempts.  Each SQL statement of the source is one definition
  over the rows; the primary key is the event id.  Any statement may fail: an argument says for each
  one whether the database executes it, and a failing statement leaves the tables as they were and
  ends the operation where the code has \<open>?\<close>.  \<open>ORDER BY\<close> breaks ties by row order.
  Serialisation is serde's and an argument as well.
\<close>

record pending_row =
  pe_id :: uuid
  pe_topic :: string
  pe_payload :: string
  pe_enqueued_at :: int
  pe_attempts :: int

record dead_letter =
  dl_id :: uuid
  dl_topic :: string
  dl_payload :: string
  dl_failed_at :: int
  dl_reason :: string

record disk_queue =
  pending :: "pending_row list"
  dead_letters :: "dead_letter list"
  max_pending :: nat
  drain_running :: bool

datatype queue_error = DbError | SerializeError string

definition MAX_BACKPRESSURE_MS :: nat where "MAX_BACKPRESSURE_MS = 500"

definition DEFAULT_MAX_ATTEMPTS :: int where "DEFAULT_MAX_ATTEMPTS = 3"

definition new_disk_queue :: "nat \<Rightarrow> disk_queue" where
  "new_disk_queue cap = \<lparr>pending = [], dead_letters = [], max_pending = cap, drain_running = False\<rparr>"

subsection \<open>The SQL statements\<close>

definition pending_count :: "disk_queue \<Rightarrow> nat" where
  "pending_count q = length (pending q)"

definition dead_letter_count :: "disk_queue \<Rightarrow> nat" where
  "dead_letter_count q = length (dead_letters q)"

text \<open>\<open>DELETE FROM pending_events WHERE id = ?\<close>\<close>

definition delete_pending :: "uuid \<Rightarrow> disk_queue \<Rightarrow> disk_queue" where
  "delete_pending i q = q\<lparr>pending := filter (\<lambda>r. pe_id r \<noteq> i) (pending q)\<rparr>"

text \<open>\<open>DELETE ... WHERE id = (SELECT id ... ORDER BY enqueued_at ASC LIMIT 1)\<close>\<close>

definition delete_oldest :: "disk_queue \<Rightarrow> disk_queue" where
  "delete_oldest q =
     (case min_by_key pe_enqueued_at (pending q) of
        None \<Rightarrow> q
      | Some r \<Rightarrow> delete_pending (pe_id r) q)"

text \<open>\<open>INSERT OR IGNORE INTO pending_events\<close>\<close>

definition insert_or_ignore_pending :: "pending_row \<Rightarrow> disk_queue \<Rightarrow> disk_queue" where
  "insert_or_ignore_pending r q =
     (if pe_id r \<in> pe_id ` set (pending q) then q else q\<lparr>pending := pending q @ [r]\<rparr>)"

text \<open>\<open>INSERT OR REPLACE INTO pending_events\<close>\<close>

definition insert_or_replace_pending :: "pending_row \<Rightarrow> disk_queue \<Rightarrow> disk_queue" where
  "insert_or_replace_pending r q =
     (let q' = delete_pending (pe_id r) q in q'\<lparr>pending := pending q' @ [r]\<rparr>)"

text \<open>\<open>UPDATE pending_events SET attempts = ? WHERE id = ?\<close>\<close>

definition set_attempts :: "uuid \<Rightarrow> int \<Rightarrow> disk_queue \<Rightarrow> disk_queue" where
  "set_attempts i n q =
     q\<lparr>pending := map (\<lambda>r. if pe_id r = i then r\<lparr>pe_attempts := n\<rparr> else r) (pending q)\<rparr>"

text \<open>The first rows by age, as both drains fetch them.\<close>

definition drain_batch :: "disk_queue \<Rightarrow> pending_row list" where
  "drain_batch q = take 100 (sort_key pe_enqueued_at (pending q))"

text \<open>
  \<open>move_to_dlq\<close>: insert-or-ignore into the dead letters and delete from the pending rows, in one
  transaction.
\<close>

definition move_to_dlq :: "int \<Rightarrow> uuid \<Rightarrow> string \<Rightarrow> string \<Rightarrow> string \<Rightarrow> disk_queue \<Rightarrow> disk_queue" where
  "move_to_dlq now i topic payload reason q =
     (let dead = (if i \<in> dl_id ` set (dead_letters q) then dead_letters q
                  else dead_letters q @ [\<lparr>dl_id = i, dl_topic = topic, dl_payload = payload,
                                          dl_failed_at = now, dl_reason = reason\<rparr>])
      in delete_pending i (q\<lparr>dead_letters := dead\<rparr>))"

subsection \<open>Enqueue\<close>

datatype enqueue_stmt = SelectCount | SelectRecount | DeleteOldest | InsertPending

text \<open>The delay a producer pays between half capacity and the cap, for a count below the cap.\<close>

definition backpressure_ms :: "nat \<Rightarrow> nat \<Rightarrow> nat" where
  "backpressure_ms cap count =
     (let half = cap div 2 in
      if half < count
      then (let range = max (cap - half) 1; over = count - half
            in (over * MAX_BACKPRESSURE_MS) div range)
      else 0)"

text \<open>
  The first half of \<open>enqueue\<close>, for the count it has read: at the cap it takes the lock, counts again
  and may drop the oldest row; below the cap it only sleeps.  The result carries the milliseconds
  slept.
\<close>

definition enqueue_gate ::
  "(enqueue_stmt \<Rightarrow> bool) \<Rightarrow> nat \<Rightarrow> disk_queue \<Rightarrow> (queue_error + nat) \<times> disk_queue" where
  "enqueue_gate db count q =
     (if max_pending q \<le> count then
        (if \<not> db SelectRecount then (Inl DbError, q)
         else if max_pending q \<le> pending_count q then
           (if \<not> db DeleteOldest then (Inl DbError, q)
            else (Inr MAX_BACKPRESSURE_MS, delete_oldest q))
         else (Inr 0, q))
      else (Inr (backpressure_ms (max_pending q) count), q))"

definition enqueue_insert ::
  "(enqueue_stmt \<Rightarrow> bool) \<Rightarrow> (event \<Rightarrow> string + string) \<Rightarrow> int \<Rightarrow> string \<Rightarrow> event \<Rightarrow> disk_queue
     \<Rightarrow> (queue_error + unit) \<times> disk_queue" where
  "enqueue_insert db to_str now topic e q =
     (case to_str e of
        Inl err \<Rightarrow> (Inl (SerializeError err), q)
      | Inr payload \<Rightarrow>
          if \<not> db InsertPending then (Inl DbError, q)
          else (Inr (), insert_or_ignore_pending
                  \<lparr>pe_id = ev_id e, pe_topic = topic, pe_payload = payload,
                   pe_enqueued_at = now, pe_attempts = 0\<rparr> q))"

definition enqueue ::
  "(enqueue_stmt \<Rightarrow> bool) \<Rightarrow> (event \<Rightarrow> string + string) \<Rightarrow> int \<Rightarrow> string \<Rightarrow> event \<Rightarrow> disk_queue
     \<Rightarrow> (queue_error + unit) \<times> disk_queue" where
  "enqueue db to_str now topic e q =
     (if \<not> db SelectCount then (Inl DbError, q)
      else (case enqueue_gate db (pending_count q) q of
              (Inl err, q') \<Rightarrow> (Inl err, q')
            | (Inr slept, q') \<Rightarrow> enqueue_insert db to_str now topic e q'))"

subsection \<open>Drain\<close>

text \<open>
  Both drains fetch a batch and treat its rows one after the other.  The faults of a drain say, for
  each row, whether its statement succeeds.
\<close>

record drain_faults =
  fetch_ok :: bool
  delete_ok :: "uuid \<Rightarrow> bool"
  update_ok :: "uuid \<Rightarrow> bool"
  dlq_ok :: "uuid \<Rightarrow> bool"

definition no_faults :: drain_faults where
  "no_faults = \<lparr>fetch_ok = True, delete_ok = (\<lambda>_. True), update_ok = (\<lambda>_. True), dlq_ok = (\<lambda>_. True)\<rparr>"

text \<open>The branch of a failed publish: count the attempt, or move the row to the dead letters.\<close>

definition record_failed_attempt ::
  "drain_faults \<Rightarrow> int \<Rightarrow> string \<Rightarrow> pending_row \<Rightarrow> disk_queue \<Rightarrow> (queue_error + nat) \<times> disk_queue" where
  "record_failed_attempt db now err row q =
     (let new_attempts = pe_attempts row + 1 in
      if DEFAULT_MAX_ATTEMPTS \<le> new_attempts then
        (if dlq_ok db (pe_id row)
         then (Inr 0, move_to_dlq now (pe_id row) (pe_topic row) (pe_payload row) err q)
         else (Inl DbError, q))
      else if update_ok db (pe_id row) then (Inr 0, set_attempts (pe_id row) new_attempts q)
      else (Inl DbError, q))"

text \<open>The branch of a row whose payload does not parse.\<close>

definition reject_unparsable ::
  "drain_faults \<Rightarrow> int \<Rightarrow> pending_row \<Rightarrow> disk_queue \<Rightarrow> (queue_error + nat) \<times> disk_queue" where
  "reject_unparsable db now row q =
     (if dlq_ok db (pe_id row)
      then (Inr 0, move_to_dlq now (pe_id row) (pe_topic row) (pe_payload row) ''deserialize_error'' q)
      else (Inl DbError, q))"

text \<open>
  One row of \<open>drain\<close>, which publishes through a broker: the row counts as published even when its
  deletion fails, and stays for the next drain.
\<close>

definition drain_row ::
  "(string \<Rightarrow> event option) \<Rightarrow> (string \<Rightarrow> event \<Rightarrow> 'b \<Rightarrow> (broker_error + unit) \<times> 'b)
     \<Rightarrow> (broker_error \<Rightarrow> string) \<Rightarrow> drain_faults \<Rightarrow> int \<Rightarrow> pending_row \<Rightarrow> disk_queue \<times> 'b
     \<Rightarrow> (queue_error + nat) \<times> disk_queue \<times> 'b" where
  "drain_row from_str publish show_error db now row s =
     (case s of (q, b) \<Rightarrow>
        (case from_str (pe_payload row) of
           None \<Rightarrow> (let (r, q') = reject_unparsable db now row q in (r, q', b))
         | Some e \<Rightarrow>
             (case publish (pe_topic row) e b of
                (Inr _, b') \<Rightarrow>
                  (Inr 1, if delete_ok db (pe_id row) then delete_pending (pe_id row) q else q, b')
              | (Inl err, b') \<Rightarrow>
                  (let (r, q') = record_failed_attempt db now (show_error err) row q in (r, q', b')))))"

text \<open>
  One row of \<open>drain_nats\<close>, which publishes bytes through a NATS client: here a failed deletion ends
  the drain with an error.
\<close>

definition drain_nats_row ::
  "(string \<Rightarrow> event option) \<Rightarrow> (event \<Rightarrow> string + string)
     \<Rightarrow> (string \<Rightarrow> string \<Rightarrow> 'n \<Rightarrow> (string + unit) \<times> 'n)
     \<Rightarrow> drain_faults \<Rightarrow> int \<Rightarrow> pending_row \<Rightarrow> disk_queue \<times> 'n
     \<Rightarrow> (queue_error + nat) \<times> disk_queue \<times> 'n" where
  "drain_nats_row from_str to_vec client_publish db now row s =
     (case s of (q, c) \<Rightarrow>
        (case from_str (pe_payload row) of
           None \<Rightarrow> (let (r, q') = reject_unparsable db now row q in (r, q', c))
         | Some e \<Rightarrow>
             (case to_vec e of
                Inl err \<Rightarrow> (Inl (SerializeError err), q, c)
              | Inr bytes \<Rightarrow>
                  (case client_publish (pe_topic row) bytes c of
                     (Inr _, c') \<Rightarrow>
                       (if delete_ok db (pe_id row) then (Inr 1, delete_pending (pe_id row) q, c')
                        else (Inl DbError, q, c'))
                   | (Inl err, c') \<Rightarrow>
                       (let (r, q') = record_failed_attempt db now err row q in (r, q', c'))))))"

text \<open>The loop over the batch: stop at the first error, add up the published rows.\<close>

fun drain_loop ::
  "(pending_row \<Rightarrow> 's \<Rightarrow> (queue_error + nat) \<times> 's) \<Rightarrow> pending_row list \<Rightarrow> nat \<Rightarrow> 's
     \<Rightarrow> (queue_error + nat) \<times> 's" where
  "drain_loop step [] published s = (Inr published, s)"
| "drain_loop step (row # rows) published s =
     (case step row s of
        (Inl err, s') \<Rightarrow> (Inl err, s')
      | (Inr n, s') \<Rightarrow> drain_loop step rows (published + n) s')"

definition drain ::
  "(string \<Rightarrow> event option) \<Rightarrow> (string \<Rightarrow> event \<Rightarrow> 'b \<Rightarrow> (broker_error + unit) \<times> 'b)
     \<Rightarrow> (broker_error \<Rightarrow> string) \<Rightarrow> drain_faults \<Rightarrow> int \<Rightarrow> disk_queue \<times> 'b
     \<Rightarrow> (queue_error + nat) \<times> disk_queue \<times> 'b" where
  "drain from_str publish show_error db now s =
     (if \<not> fetch_ok db then (Inl DbError, s)
      else drain_loop (drain_row from_str publish show_error db now) (drain_batch (fst s)) 0 s)"

text \<open>
  \<open>drain_nats\<close> is guarded by the flag \<open>drain_running\<close>: it is taken before the fetch, and the scope
  guard releases it on every exit.
\<close>

definition drain_nats_body ::
  "(string \<Rightarrow> event option) \<Rightarrow> (event \<Rightarrow> string + string)
     \<Rightarrow> (string \<Rightarrow> string \<Rightarrow> 'n \<Rightarrow> (string + unit) \<times> 'n) \<Rightarrow> drain_faults \<Rightarrow> int \<Rightarrow> disk_queue \<times> 'n
     \<Rightarrow> (queue_error + nat) \<times> disk_queue \<times> 'n" where
  "drain_nats_body from_str to_vec client_publish db now s =
     (if \<not> fetch_ok db then (Inl DbError, s)
      else drain_loop (drain_nats_row from_str to_vec client_publish db now) (drain_batch (fst s)) 0 s)"

definition drain_nats ::
  "(string \<Rightarrow> event option) \<Rightarrow> (event \<Rightarrow> string + string)
     \<Rightarrow> (string \<Rightarrow> string \<Rightarrow> 'n \<Rightarrow> (string + unit) \<times> 'n) \<Rightarrow> drain_faults \<Rightarrow> int \<Rightarrow> disk_queue \<times> 'n
     \<Rightarrow> (queue_error + nat) \<times> disk_queue \<times> 'n" where
  "drain_nats from_str to_vec client_publish db now s =
     (case s of (q, c) \<Rightarrow>
        if drain_running q then (Inr 0, q, c)
        else (case drain_nats_body from_str to_vec client_publish db now (q\<lparr>drain_running := True\<rparr>, c) of
                (r, q', c') \<Rightarrow> (r, q'\<lparr>drain_running := False\<rparr>, c')))"

subsection \<open>Dead letters\<close>

text \<open>\<open>ORDER BY failed_at DESC LIMIT ?\<close>: a stable sort on the negated key.\<close>

definition list_dead_letters :: "nat \<Rightarrow> disk_queue \<Rightarrow> dead_letter list" where
  "list_dead_letters limit q = take limit (sort_key (\<lambda>d. - dl_failed_at d) (dead_letters q))"

datatype replay_stmt = SelectDead | InsertReplayed | DeleteDead

definition replay_dead_letter ::
  "(replay_stmt \<Rightarrow> bool) \<Rightarrow> int \<Rightarrow> uuid \<Rightarrow> disk_queue \<Rightarrow> (queue_error + bool) \<times> disk_queue" where
  "replay_dead_letter db now i q =
     (if \<not> db SelectDead then (Inl DbError, q)
      else (case find (\<lambda>d. dl_id d = i) (dead_letters q) of
              None \<Rightarrow> (Inr False, q)
            | Some d \<Rightarrow>
                if \<not> db InsertReplayed then (Inl DbError, q)
                else (let q' = insert_or_replace_pending
                            \<lparr>pe_id = dl_id d, pe_topic = dl_topic d, pe_payload = dl_payload d,
                             pe_enqueued_at = now, pe_attempts = 0\<rparr> q
                      in if \<not> db DeleteDead then (Inl DbError, q')
                         else (Inr True, q'\<lparr>dead_letters := filter (\<lambda>x. dl_id x \<noteq> dl_id d) (dead_letters q')\<rparr>))))"

definition purge_dead_letters :: "disk_queue \<Rightarrow> nat \<times> disk_queue" where
  "purge_dead_letters q = (length (dead_letters q), q\<lparr>dead_letters := []\<rparr>)"

subsection \<open>Well-formed queues\<close>

text \<open>Ids are unique and a pending row has had fewer attempts than the limit.\<close>

definition queue_wf :: "disk_queue \<Rightarrow> bool" where
  "queue_wf q \<longleftrightarrow> distinct (map pe_id (pending q)) \<and> distinct (map dl_id (dead_letters q)) \<and>
     (\<forall>r \<in> set (pending q). 0 \<le> pe_attempts r \<and> pe_attempts r < DEFAULT_MAX_ATTEMPTS)"

lemma new_disk_queue_wf [inv_rules]: "queue_wf (new_disk_queue n)"
  by (simp add: queue_wf_def new_disk_queue_def)

lemma delete_pending_wf [inv_rules]: "queue_wf q \<Longrightarrow> queue_wf (delete_pending i q)"
  by (auto simp: queue_wf_def delete_pending_def distinct_map_filter)

lemma delete_oldest_wf [inv_rules]: "queue_wf q \<Longrightarrow> queue_wf (delete_oldest q)"
  by (auto simp: delete_oldest_def delete_pending_wf split: option.splits)

lemma insert_or_ignore_wf [inv_rules]:
  "queue_wf q \<Longrightarrow> pe_attempts r = 0 \<Longrightarrow> queue_wf (insert_or_ignore_pending r q)"
  by (auto simp: queue_wf_def insert_or_ignore_pending_def DEFAULT_MAX_ATTEMPTS_def)

lemma insert_or_replace_wf [inv_rules]:
  "queue_wf q \<Longrightarrow> pe_attempts r = 0 \<Longrightarrow> queue_wf (insert_or_replace_pending r q)"
  by (auto simp: queue_wf_def insert_or_replace_pending_def delete_pending_def Let_def
      DEFAULT_MAX_ATTEMPTS_def distinct_map_filter)

lemma map_id_attempts:
  "map pe_id (map (\<lambda>r. if pe_id r = i then r\<lparr>pe_attempts := n\<rparr> else r) rs) = map pe_id rs"
  by (induction rs) auto

lemma set_attempts_wf [inv_rules]:
  "queue_wf q \<Longrightarrow> 0 \<le> n \<Longrightarrow> n < DEFAULT_MAX_ATTEMPTS \<Longrightarrow> queue_wf (set_attempts i n q)"
  unfolding queue_wf_def set_attempts_def by (simp add: map_id_attempts del: map_map) auto

lemma move_to_dlq_wf [inv_rules]: "queue_wf q \<Longrightarrow> queue_wf (move_to_dlq now i t p reason q)"
  by (auto simp: queue_wf_def move_to_dlq_def delete_pending_def Let_def distinct_map_filter)

lemma enqueue_gate_wf [inv_rules]: "queue_wf q \<Longrightarrow> queue_wf (snd (enqueue_gate db n q))"
  by (auto simp: enqueue_gate_def intro: inv_rules)

lemma enqueue_insert_wf [inv_rules]: "queue_wf q \<Longrightarrow> queue_wf (snd (enqueue_insert db f now t e q))"
  by (auto simp: enqueue_insert_def split: sum.splits intro: inv_rules)

lemma enqueue_wf [inv_rules]: "queue_wf q \<Longrightarrow> queue_wf (snd (enqueue db f now t e q))"
  using enqueue_gate_wf [of q db "pending_count q"]
  by (auto simp: enqueue_def split: prod.splits sum.splits intro: enqueue_insert_wf)

lemma forget_dead_wf: "queue_wf q \<Longrightarrow> queue_wf (q\<lparr>dead_letters := filter P (dead_letters q)\<rparr>)"
  by (auto simp: queue_wf_def distinct_map_filter)

lemma replay_wf [inv_rules]: "queue_wf q \<Longrightarrow> queue_wf (snd (replay_dead_letter db now i q))"
  by (auto simp: replay_dead_letter_def Let_def split: option.splits
      intro!: insert_or_replace_wf forget_dead_wf)

text \<open>
  What one row of either drain may do to the queue: nothing, delete the row, count an attempt below
  the limit, or move the row to the dead letters.
\<close>

definition row_effect :: "pending_row \<Rightarrow> disk_queue \<Rightarrow> disk_queue \<Rightarrow> bool" where
  "row_effect row q q' \<longleftrightarrow>
     q' = q \<or> q' = delete_pending (pe_id row) q
     \<or> (pe_attempts row + 1 < DEFAULT_MAX_ATTEMPTS \<and> q' = set_attempts (pe_id row) (pe_attempts row + 1) q)
     \<or> (\<exists>now reason. q' = move_to_dlq now (pe_id row) (pe_topic row) (pe_payload row) reason q)"

lemma row_effect_wf:
  "row_effect row q q' \<Longrightarrow> queue_wf q \<Longrightarrow> 0 \<le> pe_attempts row \<Longrightarrow> queue_wf q'"
  by (auto simp: row_effect_def intro: inv_rules)

lemma record_failed_attempt_effect: "row_effect r q (snd (record_failed_attempt db now err r q))"
  unfolding record_failed_attempt_def row_effect_def Let_def not_le by (simp add: not_le) blast

lemma reject_unparsable_effect: "row_effect r q (snd (reject_unparsable db now r q))"
  unfolding reject_unparsable_def row_effect_def by auto

lemma row_effect_same [simp]: "row_effect r q q"
  by (simp add: row_effect_def)

lemma row_effect_delete [simp]: "row_effect r q (delete_pending (pe_id r) q)"
  by (simp add: row_effect_def)

lemma drain_row_effect: "row_effect r (fst s) (fst (snd (drain_row fs pub sh db now r s)))"
  using record_failed_attempt_effect [of r "fst s" db now] reject_unparsable_effect [of r "fst s" db now]
  by (cases s) (simp add: drain_row_def case_prod_unfold Let_def split: option.split sum.split)

lemma drain_nats_row_effect: "row_effect r (fst s) (fst (snd (drain_nats_row fs tv cp db now r s)))"
  using record_failed_attempt_effect [of r "fst s" db now] reject_unparsable_effect [of r "fst s" db now]
  by (cases s) (simp add: drain_nats_row_def case_prod_unfold Let_def split: option.split sum.split)

lemmas drain_row_wf = row_effect_wf [OF drain_row_effect]
lemmas drain_nats_row_wf = row_effect_wf [OF drain_nats_row_effect]

subsection \<open>Rules for the loop\<close>

lemma drain_loop_inv:
  assumes "\<And>row s. row \<in> set rows \<Longrightarrow> I s \<Longrightarrow> I (snd (step row s))" "I s"
  shows "I (snd (drain_loop step rows n s))"
  using assms
proof (induction rows arbitrary: n s)
  case (Cons row rows)
  have I: "I (snd (step row s))" using Cons.prems by simp
  obtain r s' where step: "step row s = (r, s')" by fastforce
  show ?case
  proof (cases r)
    case (Inr k)
    have "I (snd (drain_loop step rows (n + k) s'))"
      using Cons.prems(1) I step by (intro Cons.IH) auto
    with Inr step show ?thesis by simp
  qed (use I step in simp)
qed simp

lemma set_drain_batch: "set (drain_batch q) \<subseteq> set (pending q)"
  using set_take_subset [of 100 "sort_key pe_enqueued_at (pending q)"] by (auto simp: drain_batch_def)

lemma drain_batch_flag [simp]: "drain_batch (q\<lparr>drain_running := b\<rparr>) = drain_batch q"
  by (simp add: drain_batch_def)

lemma batch_attempts: "queue_wf q \<Longrightarrow> r \<in> set (drain_batch q) \<Longrightarrow> 0 \<le> pe_attempts r"
  using set_drain_batch [of q] by (auto simp: queue_wf_def)

lemma drain_wf [inv_rules]: "queue_wf (fst s) \<Longrightarrow> queue_wf (fst (snd (drain fs pub sh db now s)))"
  by (auto simp: drain_def batch_attempts intro!: drain_row_wf
      drain_loop_inv [where I = "\<lambda>s. queue_wf (fst s)"])

lemma drain_nats_body_wf:
  "queue_wf (fst s) \<Longrightarrow> queue_wf (fst (snd (drain_nats_body fs tv cp db now s)))"
  by (auto simp: drain_nats_body_def batch_attempts intro!: drain_nats_row_wf
      drain_loop_inv [where I = "\<lambda>s. queue_wf (fst s)"])

lemma queue_wf_flag [simp]: "queue_wf (q\<lparr>drain_running := b\<rparr>) = queue_wf q"
  by (simp add: queue_wf_def)

lemma drain_nats_wf [inv_rules]: "queue_wf (fst s) \<Longrightarrow> queue_wf (fst (snd (drain_nats fs tv cp db now s)))"
  using drain_nats_body_wf [of "((fst s)\<lparr>drain_running := True\<rparr>, snd s)" fs tv cp db now]
  by (auto simp: drain_nats_def split: prod.splits)

subsection \<open>Enqueue: the contract of the fallback queue\<close>

definition queue_holds :: "disk_queue \<Rightarrow> uuid \<Rightarrow> bool" where
  "queue_holds q i \<longleftrightarrow> i \<in> pe_id ` set (pending q)"

definition dead_holds :: "disk_queue \<Rightarrow> uuid \<Rightarrow> bool" where
  "dead_holds q i \<longleftrightarrow> i \<in> dl_id ` set (dead_letters q)"

lemma set_attempts_ids: "pe_id ` set (pending (set_attempts i n q)) = pe_id ` set (pending q)"
  unfolding set_attempts_def by (simp add: map_id_attempts flip: set_map del: map_map)

lemma set_attempts_dead [simp]: "dead_letters (set_attempts i n q) = dead_letters q"
  by (simp add: set_attempts_def)

lemma holds_simps [table_simps]:
  "queue_holds (delete_pending i q) j \<longleftrightarrow> queue_holds q j \<and> j \<noteq> i"
  "dead_holds (delete_pending i q) j \<longleftrightarrow> dead_holds q j"
  "queue_holds (set_attempts i n q) j \<longleftrightarrow> queue_holds q j"
  "dead_holds (set_attempts i n q) j \<longleftrightarrow> dead_holds q j"
  "queue_holds (move_to_dlq now i t p reason q) j \<longleftrightarrow> queue_holds q j \<and> j \<noteq> i"
  "dead_holds (move_to_dlq now i t p reason q) j \<longleftrightarrow> dead_holds q j \<or> j = i"
  "queue_holds (insert_or_ignore_pending r q) j \<longleftrightarrow> queue_holds q j \<or> j = pe_id r"
  "dead_holds (insert_or_ignore_pending r q) j \<longleftrightarrow> dead_holds q j"
  "queue_holds (q\<lparr>drain_running := f\<rparr>) j \<longleftrightarrow> queue_holds q j"
  "dead_holds (q\<lparr>drain_running := f\<rparr>) j \<longleftrightarrow> dead_holds q j"
  by (auto simp: queue_holds_def dead_holds_def delete_pending_def move_to_dlq_def
      insert_or_ignore_pending_def Let_def set_attempts_ids)

lemma length_delete_pending:
  "queue_wf q \<Longrightarrow> queue_holds q i \<Longrightarrow> Suc (length (pending (delete_pending i q))) = length (pending q)"
proof -
  assume wf: "queue_wf q" and i: "queue_holds q i"
  have one: "length (filter (\<lambda>r. pe_id r = i) rs) = 1"
    if "distinct (map pe_id rs)" "i \<in> pe_id ` set rs" for rs
    using that by (induction rs) (auto simp: filter_empty_conv image_iff)
  have "length (filter (\<lambda>r. pe_id r = i) (pending q)) = 1"
    using wf i one [of "pending q"] by (simp add: queue_wf_def queue_holds_def)
  then show ?thesis
    using sum_length_filter_compl [of "\<lambda>r. pe_id r = i" "pending q"] by (simp add: delete_pending_def)
qed

lemma length_delete_oldest:
  assumes "queue_wf q" "pending q \<noteq> []"
  shows "Suc (length (pending (delete_oldest q))) = length (pending q)"
proof -
  obtain r where r: "min_by_key pe_enqueued_at (pending q) = Some r"
    using assms(2) by (cases "min_by_key pe_enqueued_at (pending q)") auto
  then have "queue_holds q (pe_id r)" by (auto simp: queue_holds_def dest: min_by_key_in)
  with r assms(1) show ?thesis by (simp add: delete_oldest_def length_delete_pending)
qed

lemma max_pending_ops [simp]:
  "max_pending (delete_pending i q) = max_pending q"
  "max_pending (delete_oldest q) = max_pending q"
  "max_pending (insert_or_ignore_pending r q) = max_pending q"
  "max_pending (set_attempts i n q) = max_pending q"
  "max_pending (move_to_dlq now i t p reason q) = max_pending q"
  by (auto simp: delete_pending_def delete_oldest_def insert_or_ignore_pending_def set_attempts_def
      move_to_dlq_def Let_def split: option.splits)

text \<open>What survives an enqueue: every row but, at the cap, the oldest one.\<close>

definition evicted_by_enqueue :: "disk_queue \<Rightarrow> uuid \<Rightarrow> bool" where
  "evicted_by_enqueue q i \<longleftrightarrow> max_pending q \<le> length (pending q) \<and>
     (\<exists>r. min_by_key pe_enqueued_at (pending q) = Some r \<and> pe_id r = i)"

lemma enqueue_gate_holds:
  "queue_holds q i \<Longrightarrow> \<not> evicted_by_enqueue q i \<Longrightarrow> queue_holds (snd (enqueue_gate db n q)) i"
  by (auto simp: enqueue_gate_def delete_oldest_def evicted_by_enqueue_def pending_count_def table_simps
      split: option.splits)

lemma enqueue_holds:
  assumes "queue_holds q i" "\<not> evicted_by_enqueue q i"
  shows "queue_holds (snd (enqueue db f now t e q)) i"
  using enqueue_gate_holds [OF assms, of db "pending_count q"] assms
  by (auto simp: enqueue_def enqueue_insert_def table_simps split: prod.splits sum.splits)

lemma enqueue_ok_holds: "fst (enqueue db f now t e q) = Inr () \<Longrightarrow> queue_holds (snd (enqueue db f now t e q)) (ev_id e)"
  by (auto simp: enqueue_def enqueue_insert_def table_simps split: prod.splits sum.splits if_splits)

lemma length_insert_or_ignore: "length (pending (insert_or_ignore_pending r q)) \<le> Suc (length (pending q))"
  by (simp add: insert_or_ignore_pending_def)

lemma length_enqueue_insert: "length (pending (snd (enqueue_insert db f now t e q))) \<le> Suc (length (pending q))"
  using length_insert_or_ignore by (simp add: enqueue_insert_def split: sum.split)

lemma length_enqueue:
  assumes wf: "queue_wf q"
  shows "length (pending (snd (enqueue db f now t e q))) \<le> max (length (pending q)) (max 1 (max_pending q))"
proof (cases "max_pending q \<le> length (pending q)")
  case True
  have "Suc (length (pending (delete_oldest q))) \<le> max (length (pending q)) 1"
    using length_delete_oldest [OF wf] by (cases "pending q") (auto simp: delete_oldest_def)
  with length_enqueue_insert [of db f now t e "delete_oldest q"]
  have "length (pending (snd (enqueue_insert db f now t e (delete_oldest q)))) \<le> max (length (pending q)) 1"
    by linarith
  with True show ?thesis
    by (auto simp: enqueue_def enqueue_gate_def pending_count_def le_max_iff_disj)
next
  case False
  with length_enqueue_insert [of db f now t e q] show ?thesis
    by (simp add: enqueue_def enqueue_gate_def pending_count_def)
qed

subsection \<open>Draining loses nothing\<close>

text \<open>What the drains rely on of the NATS client: it accepts a message exactly when it says so.\<close>

definition client_law ::
  "(string \<Rightarrow> string \<Rightarrow> 'n \<Rightarrow> (string + unit) \<times> 'n) \<Rightarrow> ('n \<Rightarrow> (string \<times> string) list) \<Rightarrow> bool" where
  "client_law client_publish accepted \<longleftrightarrow>
     (\<forall>t p c. accepted (snd (client_publish t p c)) =
        (if isl (fst (client_publish t p c)) then accepted c else accepted c @ [(t, p)]))"

text \<open>A row is kept when a pending row carries its id, topic and payload.\<close>

definition row_kept :: "disk_queue \<Rightarrow> pending_row \<Rightarrow> bool" where
  "row_kept q r \<longleftrightarrow>
     (\<exists>x \<in> set (pending q). pe_id x = pe_id r \<and> pe_topic x = pe_topic r \<and> pe_payload x = pe_payload r)"

lemma row_kept_delete: "row_kept (delete_pending i q) r \<longleftrightarrow> row_kept q r \<and> pe_id r \<noteq> i"
  by (auto simp: row_kept_def delete_pending_def)

lemma row_kept_attempts: "row_kept q r \<Longrightarrow> row_kept (set_attempts i n q) r"
proof -
  assume "row_kept q r"
  then obtain x where x: "x \<in> set (pending q)"
    "pe_id x = pe_id r" "pe_topic x = pe_topic r" "pe_payload x = pe_payload r"
    by (auto simp: row_kept_def)
  then show ?thesis unfolding row_kept_def set_attempts_def
    by (intro bexI [where x = "if pe_id x = i then x\<lparr>pe_attempts := n\<rparr> else x"]) auto
qed

lemma row_kept_dlq: "row_kept (move_to_dlq now i t p reason q) r \<longleftrightarrow> row_kept q r \<and> pe_id r \<noteq> i"
  by (auto simp: move_to_dlq_def Let_def row_kept_delete) (simp_all add: row_kept_def)

definition row_safe :: "disk_queue \<Rightarrow> pending_row \<Rightarrow> bool" where
  "row_safe q r \<longleftrightarrow> row_kept q r \<or> dead_holds q (pe_id r)"

lemma row_safe_effect:
  "row_effect x q q' \<Longrightarrow> row_safe q r \<Longrightarrow> pe_id r \<noteq> pe_id x \<Longrightarrow> row_safe q' r"
  by (auto simp: row_effect_def row_safe_def row_kept_delete row_kept_attempts row_kept_dlq table_simps)

lemma record_failed_attempt_safe: "row_safe q r \<Longrightarrow> row_safe (snd (record_failed_attempt db now err x q)) r"
  by (auto simp: record_failed_attempt_def Let_def row_safe_def row_kept_attempts row_kept_dlq table_simps)

lemma reject_unparsable_safe: "row_safe q r \<Longrightarrow> row_safe (snd (reject_unparsable db now x q)) r"
  by (auto simp: reject_unparsable_def row_safe_def row_kept_dlq table_simps)

definition row_delivered ::
  "(string \<Rightarrow> event option) \<Rightarrow> (event \<Rightarrow> string + string) \<Rightarrow> (string \<times> string) list \<Rightarrow> pending_row \<Rightarrow> bool" where
  "row_delivered from_str to_vec log r \<longleftrightarrow>
     (\<exists>e bytes. from_str (pe_payload r) = Some e \<and> to_vec e = Inr bytes \<and> (pe_topic r, bytes) \<in> set log)"

lemma drain_nats_row_safe:
  assumes law: "client_law cp acc"
    and safe: "row_safe (fst s) r \<or> row_delivered fs tv (acc (snd s)) r"
    and same: "pe_id r = pe_id x \<Longrightarrow> r = x"
  shows "row_safe (fst (snd (drain_nats_row fs tv cp db now x s))) r
    \<or> row_delivered fs tv (acc (snd (snd (drain_nats_row fs tv cp db now x s)))) r"
proof (cases s)
  case (Pair q c)
  have mono: "set (acc c) \<subseteq> set (acc (snd (cp t p c)))" for t p
    using law by (auto simp: client_law_def)
  then have del: "row_delivered fs tv (acc c) r \<Longrightarrow> row_delivered fs tv (acc (snd (cp t p c))) r" for t p
    unfolding row_delivered_def by blast
  have del_row: "row_safe (delete_pending (pe_id x) q) r \<or> row_delivered fs tv (acc (snd (cp (pe_topic x) bytes c))) r"
    if "fs (pe_payload x) = Some e" "tv e = Inr bytes" "fst (cp (pe_topic x) bytes c) = Inr u" for e bytes u
  proof (cases "pe_id r = pe_id x")
    case True
    have "(pe_topic x, bytes) \<in> set (acc (snd (cp (pe_topic x) bytes c)))"
      using law that(3) by (auto simp: client_law_def)
    with same [OF True] that show ?thesis by (auto simp: row_delivered_def)
  next
    case False
    with safe del Pair show ?thesis by (auto simp: row_safe_def row_kept_delete table_simps)
  qed
  have "row_safe q r \<or> row_delivered fs tv (acc c) r" using safe Pair by simp
  then show ?thesis
    using Pair del del_row
    by (auto simp: drain_nats_row_def case_prod_unfold Let_def split: option.split sum.split
        intro: record_failed_attempt_safe reject_unparsable_safe)
qed

text \<open>C6. A drain loses nothing, whatever fails: with a client that accepts exactly what it reports as
  sent, every row pending before \<open>drain_nats\<close> is afterwards still pending with its topic and payload,
  or in the dead letters, or accepted by the client.  This holds for every pattern of failing
  statements and refused messages, and also when the drain ends with an error.\<close>

theorem drain_nats_loses_nothing:
  assumes law: "client_law cp accepted" and wf: "queue_wf q" and r: "r \<in> set (pending q)"
    and run: "drain_nats from_str to_vec cp db now (q, c) = (res, q', c')"
  shows "row_kept q' r \<or> dead_holds q' (pe_id r) \<or> row_delivered from_str to_vec (accepted c') r"
proof (cases "drain_running q")
  case True
  with run r show ?thesis by (auto simp: drain_nats_def row_kept_def)
next
  case False
  let ?q = "q\<lparr>drain_running := True\<rparr>"
  let ?I = "\<lambda>s. row_safe (fst s) r \<or> row_delivered from_str to_vec (accepted (snd s)) r"
  obtain q1 where body: "drain_nats_body from_str to_vec cp db now (?q, c) = (res, q1, c')"
    and q': "q' = q1\<lparr>drain_running := False\<rparr>"
    using run False by (auto simp: drain_nats_def split: prod.splits)
  have same: "x = r" if "x \<in> set (drain_batch q)" "pe_id r = pe_id x" for x
    using that set_drain_batch [of q] wf r by (auto simp: queue_wf_def distinct_map dest: inj_onD)
  have start: "?I (?q, c)" using r by (auto simp: row_safe_def row_kept_def)
  have "?I (snd (drain_loop (drain_nats_row from_str to_vec cp db now) (drain_batch q) 0 (?q, c)))"
  proof (rule drain_loop_inv [where I = ?I, OF _ start])
    fix x s assume "x \<in> set (drain_batch q)" "?I s"
    with same [of x] show "?I (snd (drain_nats_row from_str to_vec cp db now x s))"
      by (intro drain_nats_row_safe [OF law]) auto
  qed
  with start have "?I (snd (drain_nats_body from_str to_vec cp db now (?q, c)))"
    by (simp add: drain_nats_body_def)
  with body q' show ?thesis by (auto simp: row_safe_def row_kept_def dead_holds_def)
qed


text \<open>A client that refuses the topic \<open>down\<close>, as a value to instantiate the contract.\<close>

definition log_client ::
  "string \<Rightarrow> string \<Rightarrow> (string \<times> string) list \<Rightarrow> (string + unit) \<times> (string \<times> string) list" where
  "log_client t p log = (if t = ''down'' then (Inl ''refused'', log) else (Inr (), log @ [(t, p)]))"

lemma log_client_law: "client_law log_client (\<lambda>log. log)"
  by (simp add: client_law_def log_client_def)

definition plain_row :: "uuid \<Rightarrow> string \<Rightarrow> int \<Rightarrow> pending_row" where
  "plain_row i topic t =
     \<lparr>pe_id = i, pe_topic = topic, pe_payload = ''p'', pe_enqueued_at = t, pe_attempts = 0\<rparr>"

definition plain_event :: event where
  "plain_event = \<lparr>ev_id = Uuid 7, ev_timestamp = 0, ev_topic = ''t'', ev_source = ''s'',
     ev_session = None, ev_payload = JNull\<rparr>"

definition plain_queue :: disk_queue where
  "plain_queue = (new_disk_queue 10)\<lparr>pending := [plain_row (Uuid 2) ''down'' 5, plain_row (Uuid 1) ''up'' 3]\<rparr>"

theorem drain_nats_loses_nothing_witness:
  "case drain_nats (\<lambda>_. Some plain_event) (\<lambda>_. Inr ''bytes'') log_client no_faults 0 (plain_queue, []) of
     (_, q', log) \<Rightarrow> row_kept q' (plain_row (Uuid 2) ''down'' 5) \<or> dead_holds q' (Uuid 2)
       \<or> (''down'', ''bytes'') \<in> set log"
proof -
  let ?d = "drain_nats (\<lambda>_. Some plain_event) (\<lambda>_. Inr ''bytes'') log_client no_faults 0 (plain_queue, [])"
  have wf: "queue_wf plain_queue"
    by (simp add: queue_wf_def plain_queue_def plain_row_def new_disk_queue_def DEFAULT_MAX_ATTEMPTS_def)
  have r: "plain_row (Uuid 2) ''down'' 5 \<in> set (pending plain_queue)"
    by (simp add: plain_queue_def)
  obtain res q' log where run: "?d = (res, q', log)" by (cases ?d) auto
  from drain_nats_loses_nothing [OF log_client_law wf r run]
  show ?thesis unfolding run by (simp add: row_delivered_def plain_row_def)
qed

subsection \<open>What a drain does to every row\<close>

definition find_row :: "disk_queue \<Rightarrow> uuid \<Rightarrow> pending_row option" where
  "find_row q i = find (\<lambda>r. pe_id r = i) (pending q)"

lemma find_filter_neq: "find (\<lambda>r. pe_id r = j) (filter (\<lambda>r. pe_id r \<noteq> i) rs)
    = (if i = j then None else find (\<lambda>r. pe_id r = j) rs)"
  by (induction rs) auto

lemma find_row_delete: "find_row (delete_pending i q) j = (if i = j then None else find_row q j)"
  by (simp add: find_row_def delete_pending_def find_filter_neq)

lemma find_row_dlq: "find_row (move_to_dlq now i t p reason q) j = (if i = j then None else find_row q j)"
  by (simp add: move_to_dlq_def Let_def find_row_delete) (simp add: find_row_def)

lemma find_row_set_attempts:
  "find_row (set_attempts i n q) j
     = (if i = j then map_option (\<lambda>r. r\<lparr>pe_attempts := n\<rparr>) (find_row q j) else find_row q j)"
proof -
  have "find (\<lambda>r. pe_id r = j) (map (\<lambda>r. if pe_id r = i then r\<lparr>pe_attempts := n\<rparr> else r) rs)
     = (if i = j then map_option (\<lambda>r. r\<lparr>pe_attempts := n\<rparr>) (find (\<lambda>r. pe_id r = j) rs)
        else find (\<lambda>r. pe_id r = j) rs)" for rs
    by (induction rs) auto
  from this [of "pending q"] show ?thesis
    by (cases "i = j") (simp_all add: find_row_def set_attempts_def)
qed

lemma find_row_pending:
  assumes "queue_wf q"
  shows "find_row q i = Some r \<longleftrightarrow> r \<in> set (pending q) \<and> pe_id r = i"
proof -
  have "find (\<lambda>r. pe_id r = i) rs = Some r \<longleftrightarrow> r \<in> set rs \<and> pe_id r = i" if "distinct (map pe_id rs)" for rs
    using that by (induction rs) auto
  then show ?thesis using assms by (simp add: find_row_def queue_wf_def)
qed

lemma find_row_flag [simp]: "find_row (q\<lparr>drain_running := b\<rparr>) i = find_row q i"
  by (simp add: find_row_def)

text \<open>A row after a refused publish: one attempt more, or gone at the limit.\<close>

definition aged :: "pending_row \<Rightarrow> pending_row option" where
  "aged r = (if DEFAULT_MAX_ATTEMPTS \<le> pe_attempts r + 1 then None
             else Some (r\<lparr>pe_attempts := pe_attempts r + 1\<rparr>))"

definition refuses :: "(string \<Rightarrow> string \<Rightarrow> 'n \<Rightarrow> (string + unit) \<times> 'n) \<Rightarrow> bool" where
  "refuses client_publish \<longleftrightarrow> (\<forall>t p c. isl (fst (client_publish t p c)))"

lemma refused_row:
  assumes "refuses cp" "fs (pe_payload x) = Some e" "tv e = Inr bytes" "find_row q (pe_id x) = Some x"
  shows "\<exists>q' c'. drain_nats_row fs tv cp no_faults now x (q, c) = (Inr 0, q', c') \<and>
     (\<forall>i. find_row q' i = (if i = pe_id x then aged x else find_row q i)) \<and>
     (\<forall>i. dead_holds q' i \<longleftrightarrow> dead_holds q i \<or> (i = pe_id x \<and> aged x = None)) \<and>
     drain_running q' = drain_running q"
proof -
  obtain err c' where cp: "cp (pe_topic x) bytes c = (Inl err, c')"
    using assms(1) by (metis refuses_def isl_def prod.collapse)
  show ?thesis
    using assms
    by (auto simp: drain_nats_row_def cp record_failed_attempt_def no_faults_def aged_def Let_def
        find_row_dlq find_row_set_attempts table_simps)
      (auto simp: move_to_dlq_def delete_pending_def set_attempts_def)
qed

lemma refused_rows:
  assumes "refuses cp" "distinct (map pe_id rows)"
    and "\<forall>x \<in> set rows. (\<exists>e bytes. fs (pe_payload x) = Some e \<and> tv e = Inr bytes) \<and> find_row q (pe_id x) = Some x"
  shows "\<exists>q' c'. drain_loop (drain_nats_row fs tv cp no_faults now) rows n (q, c) = (Inr n, q', c') \<and>
     (\<forall>x \<in> set rows. find_row q' (pe_id x) = aged x) \<and>
     (\<forall>i. i \<notin> pe_id ` set rows \<longrightarrow> find_row q' i = find_row q i) \<and>
     (\<forall>i. dead_holds q' i \<longleftrightarrow> dead_holds q i \<or> (\<exists>x \<in> set rows. pe_id x = i \<and> aged x = None)) \<and>
     drain_running q' = drain_running q"
  using assms(2,3)
proof (induction rows arbitrary: q c)
  case Nil
  then show ?case by simp
next
  case (Cons x rows)
  then obtain e bytes where x: "fs (pe_payload x) = Some e" "tv e = Inr bytes" "find_row q (pe_id x) = Some x"
    by auto
  from refused_row [of cp fs x e tv bytes q now c, OF assms(1) x] obtain q1 c1
    where step: "drain_nats_row fs tv cp no_faults now x (q, c) = (Inr 0, q1, c1)"
      and rows: "\<forall>i. find_row q1 i = (if i = pe_id x then aged x else find_row q i)"
      and dead: "\<forall>i. dead_holds q1 i \<longleftrightarrow> dead_holds q i \<or> (i = pe_id x \<and> aged x = None)"
      and run: "drain_running q1 = drain_running q" by blast
  have fresh: "pe_id x \<notin> pe_id ` set rows" and "distinct (map pe_id rows)"
    using Cons.prems(1) by auto
  moreover have "\<forall>y \<in> set rows. (\<exists>e bytes. fs (pe_payload y) = Some e \<and> tv e = Inr bytes)
      \<and> find_row q1 (pe_id y) = Some y"
  proof
    fix y assume y: "y \<in> set rows"
    with fresh have "pe_id y \<noteq> pe_id x" by (metis imageI)
    with rows have "find_row q1 (pe_id y) = find_row q (pe_id y)" by simp
    with y Cons.prems(2) show "(\<exists>e bytes. fs (pe_payload y) = Some e \<and> tv e = Inr bytes)
      \<and> find_row q1 (pe_id y) = Some y" by simp
  qed
  ultimately obtain q' c' where IH:
      "drain_loop (drain_nats_row fs tv cp no_faults now) rows n (q1, c1) = (Inr n, q', c')"
      "\<forall>y \<in> set rows. find_row q' (pe_id y) = aged y"
      "\<forall>i. i \<notin> pe_id ` set rows \<longrightarrow> find_row q' i = find_row q1 i"
      "\<forall>i. dead_holds q' i \<longleftrightarrow> dead_holds q1 i \<or> (\<exists>y \<in> set rows. pe_id y = i \<and> aged y = None)"
      "drain_running q' = drain_running q1"
    using Cons.IH [of q1 c1] by blast
  have "drain_loop (drain_nats_row fs tv cp no_faults now) (x # rows) n (q, c) = (Inr n, q', c')"
    by (simp add: step IH(1))
  moreover have "\<forall>y \<in> set (x # rows). find_row q' (pe_id y) = aged y"
    using IH(2,3) rows fresh by simp
  moreover have "\<forall>i. i \<notin> pe_id ` set (x # rows) \<longrightarrow> find_row q' i = find_row q i"
    using IH(3) rows by simp
  moreover have "\<forall>i. dead_holds q' i \<longleftrightarrow> dead_holds q i \<or> (\<exists>y \<in> set (x # rows). pe_id y = i \<and> aged y = None)"
    using IH(4) dead by (metis list.set_intros set_ConsD)
  moreover have "drain_running q' = drain_running q" using IH(5) run by simp
  ultimately show ?case by blast
qed

text \<open>A queue whose rows can all be sent and that one batch covers.\<close>

definition drainable :: "(string \<Rightarrow> event option) \<Rightarrow> (event \<Rightarrow> string + string) \<Rightarrow> disk_queue \<Rightarrow> bool" where
  "drainable from_str to_vec q \<longleftrightarrow>
     queue_wf q \<and> length (pending q) \<le> 100 \<and> \<not> drain_running q \<and>
     (\<forall>x \<in> set (pending q). \<exists>e bytes. from_str (pe_payload x) = Some e \<and> to_vec e = Inr bytes)"

lemma drain_batch_all: "length (pending q) \<le> 100 \<Longrightarrow> drain_batch q = sort_key pe_enqueued_at (pending q)"
  by (simp add: drain_batch_def)

lemma distinct_sorted_ids: "queue_wf q \<Longrightarrow> distinct (map pe_id (sort_key pe_enqueued_at (pending q)))"
  by (simp add: queue_wf_def distinct_map)

lemma refused_drain:
  assumes ref: "refuses cp" and d: "drainable fs tv q"
  shows "\<exists>q' c'. drain_nats fs tv cp no_faults now (q, c) = (Inr 0, q', c') \<and> drainable fs tv q' \<and>
     (\<forall>i. find_row q' i = Option.bind (find_row q i) aged) \<and>
     (\<forall>i. dead_holds q' i \<longleftrightarrow> dead_holds q i \<or> (\<exists>x. find_row q i = Some x \<and> aged x = None))"
proof -
  let ?rows = "sort_key pe_enqueued_at (pending q)" and ?q = "q\<lparr>drain_running := True\<rparr>"
  have wf: "queue_wf q" and len: "length (pending q) \<le> 100" and idle: "\<not> drain_running q"
    and sendable: "\<forall>x \<in> set (pending q). \<exists>e bytes. fs (pe_payload x) = Some e \<and> tv e = Inr bytes"
    using d by (auto simp: drainable_def)
  have rows: "find_row q i = Some x \<longleftrightarrow> x \<in> set (pending q) \<and> pe_id x = i" for i x
    by (rule find_row_pending [OF wf])
  have "\<forall>x \<in> set ?rows. (\<exists>e bytes. fs (pe_payload x) = Some e \<and> tv e = Inr bytes)
      \<and> find_row ?q (pe_id x) = Some x"
    using sendable by (simp add: rows)
  from refused_rows [OF ref distinct_sorted_ids [OF wf] this, of now 0 c]
  obtain q1 c1 where loop: "drain_loop (drain_nats_row fs tv cp no_faults now) ?rows 0 (?q, c) = (Inr 0, q1, c1)"
    and aged: "\<forall>x \<in> set (pending q). find_row q1 (pe_id x) = aged x"
    and rest: "\<forall>i. i \<notin> pe_id ` set (pending q) \<longrightarrow> find_row q1 i = find_row q i"
    and dead: "\<forall>i. dead_holds q1 i \<longleftrightarrow> dead_holds q i \<or> (\<exists>x \<in> set (pending q). pe_id x = i \<and> aged x = None)"
    by (auto simp: table_simps)
  let ?q' = "q1\<lparr>drain_running := False\<rparr>"
  have run: "drain_nats fs tv cp no_faults now (q, c) = (Inr 0, ?q', c1)"
    using idle loop by (simp add: drain_nats_def drain_nats_body_def drain_batch_all [OF len] no_faults_def)
  have find: "find_row ?q' i = Option.bind (find_row q i) aged" for i
  proof (cases "find_row q i")
    case None
    have "i \<notin> pe_id ` set (pending q)"
    proof
      assume "i \<in> pe_id ` set (pending q)"
      then obtain x where "x \<in> set (pending q)" "pe_id x = i" by auto
      with rows [of i x] None show False by simp
    qed
    with None rest show ?thesis by simp
  next
    case (Some x)
    with aged rows [of i x] show ?thesis by simp blast
  qed
  have wf': "queue_wf ?q'" using drain_nats_wf [of "(q, c)" fs tv cp no_faults now] wf run by simp
  have from_q: "\<exists>x \<in> set (pending q). pe_id x = pe_id y \<and> pe_payload y = pe_payload x"
    if "y \<in> set (pending ?q')" for y
  proof -
    have "find_row ?q' (pe_id y) = Some y" unfolding find_row_pending [OF wf'] using that by simp
    then obtain x where "find_row q (pe_id y) = Some x" "aged x = Some y"
      unfolding find by (auto simp: bind_eq_Some_conv)
    then show ?thesis by (auto simp: rows aged_def split: if_splits intro!: bexI [of _ x])
  qed
  have "length (pending ?q') = card (pe_id ` set (pending ?q'))"
    using wf' by (metis queue_wf_def distinct_card length_map set_map)
  also have "\<dots> \<le> card (pe_id ` set (pending q))"
    using from_q by (intro card_mono) (auto, metis imageI)
  also have "\<dots> \<le> 100" using len card_length [of "map pe_id (pending q)"] by simp
  finally have "drainable fs tv ?q'"
    using wf' sendable from_q by (auto simp: drainable_def) metis
  moreover have "dead_holds ?q' i \<longleftrightarrow> dead_holds q i \<or> (\<exists>x. find_row q i = Some x \<and> aged x = None)" for i
    using dead rows by (auto simp: table_simps)
  ultimately show ?thesis using run find by blast
qed

text \<open>An event the client keeps refusing does not block the queue: if every row can be sent, one
  batch covers the queue and the statements succeed, three drains against a refusing client publish
  nothing, empty the queue, and leave every row that was pending in the dead letters.\<close>

theorem refused_events_die_in_three_drains:
  assumes ref: "refuses cp" and d: "drainable from_str to_vec q"
  shows "let run = (\<lambda>t s. snd (drain_nats from_str to_vec cp no_faults t s));
             q3 = fst (run t3 (run t2 (run t1 (q, c))))
         in pending q3 = [] \<and> (\<forall>i. dead_holds q3 i \<longleftrightarrow> dead_holds q i \<or> queue_holds q i)"
proof -
  from refused_drain [OF ref d, of t1 c] obtain q1 c1
    where 1: "drain_nats from_str to_vec cp no_faults t1 (q, c) = (Inr 0, q1, c1)" "drainable from_str to_vec q1"
      "\<forall>i. find_row q1 i = Option.bind (find_row q i) aged"
      "\<forall>i. dead_holds q1 i \<longleftrightarrow> dead_holds q i \<or> (\<exists>x. find_row q i = Some x \<and> aged x = None)" by blast
  from refused_drain [OF ref 1(2), of t2 c1] obtain q2 c2
    where 2: "drain_nats from_str to_vec cp no_faults t2 (q1, c1) = (Inr 0, q2, c2)" "drainable from_str to_vec q2"
      "\<forall>i. find_row q2 i = Option.bind (find_row q1 i) aged"
      "\<forall>i. dead_holds q2 i \<longleftrightarrow> dead_holds q1 i \<or> (\<exists>x. find_row q1 i = Some x \<and> aged x = None)" by blast
  from refused_drain [OF ref 2(2), of t3 c2] obtain q3 c3
    where 3: "drain_nats from_str to_vec cp no_faults t3 (q2, c2) = (Inr 0, q3, c3)" "drainable from_str to_vec q3"
      "\<forall>i. find_row q3 i = Option.bind (find_row q2 i) aged"
      "\<forall>i. dead_holds q3 i \<longleftrightarrow> dead_holds q2 i \<or> (\<exists>x. find_row q2 i = Some x \<and> aged x = None)" by blast
  have wf: "queue_wf q" "queue_wf q3" using d 3(2) by (auto simp: drainable_def)
  have held: "(\<exists>x. find_row q i = Some x) \<longleftrightarrow> queue_holds q i" for i
    by (auto simp: find_row_pending [OF wf(1)] queue_holds_def)
  have att: "0 \<le> pe_attempts x" if "find_row q i = Some x" for i x
    using that wf(1) by (auto simp: find_row_pending queue_wf_def)
  have "find_row q3 i = None" for i
    using att [of i] by (cases "find_row q i")
      (auto simp: 1(3) 2(3) 3(3) aged_def DEFAULT_MAX_ATTEMPTS_def)
  then have "pending q3 = []"
    by (metis find_row_pending [OF wf(2)] list.set_intros(1) neq_Nil_conv option.distinct(1))
  moreover have "dead_holds q3 i \<longleftrightarrow> dead_holds q i \<or> queue_holds q i" for i
    using att [of i] by (cases "find_row q i")
      (auto simp: 1(3,4) 2(3,4) 3(3,4) held [symmetric] aged_def DEFAULT_MAX_ATTEMPTS_def)
  ultimately show ?thesis by (simp add: 1(1) 2(1) 3(1))
qed

theorem refused_events_die_in_three_drains_witness:
  "let run = (\<lambda>t s. snd (drain_nats (\<lambda>_. Some plain_event) (\<lambda>_. Inr ''b'') (\<lambda>_ _ n. (Inl ''down'', n + 1))
                          no_faults t s))
   in dead_holds (fst (run 3 (run 2 (run 1 (plain_queue, 0 :: nat))))) (Uuid 2)"
proof -
  have r: "refuses (\<lambda>_ _ n :: nat. (Inl ''down'', n + 1))" by (simp add: refuses_def)
  have d: "drainable (\<lambda>_. Some plain_event) (\<lambda>_. Inr ''b'') plain_queue"
    by (simp add: drainable_def queue_wf_def plain_queue_def plain_row_def new_disk_queue_def
        DEFAULT_MAX_ATTEMPTS_def)
  from refused_events_die_in_three_drains [OF r d, of 3 2 1 0]
  show ?thesis by (simp add: Let_def queue_holds_def plain_queue_def plain_row_def)
qed

subsection \<open>Order of a drain\<close>

definition wire :: "(string \<Rightarrow> event option) \<Rightarrow> (event \<Rightarrow> string + string) \<Rightarrow> pending_row \<Rightarrow> string \<times> string" where
  "wire from_str to_vec r =
     (pe_topic r,
      case from_str (pe_payload r) of
        None \<Rightarrow> []
      | Some e \<Rightarrow> (case to_vec e of Inl _ \<Rightarrow> [] | Inr bytes \<Rightarrow> bytes))"

lemma accepted_rows:
  assumes law: "client_law cp acc" and up: "\<forall>t p c. \<not> isl (fst (cp t p c))"
    and "\<forall>x \<in> set rows. \<exists>e bytes. fs (pe_payload x) = Some e \<and> tv e = Inr bytes"
  shows "\<exists>q' c'. drain_loop (drain_nats_row fs tv cp no_faults now) rows n (q, c) = (Inr (n + length rows), q', c') \<and>
     q' = q\<lparr>pending := filter (\<lambda>r. pe_id r \<notin> pe_id ` set rows) (pending q)\<rparr> \<and>
     acc c' = acc c @ map (wire fs tv) rows"
  using assms(3)
proof (induction rows arbitrary: q c n)
  case Nil
  then show ?case by simp
next
  case (Cons x rows)
  then obtain e bytes where x: "fs (pe_payload x) = Some e" "tv e = Inr bytes" by auto
  obtain u c1 where cp: "cp (pe_topic x) bytes c = (Inr u, c1)"
    using up by (metis isl_def prod.collapse sum.exhaust_sel)
  have acc: "acc c1 = acc c @ [wire fs tv x]"
    using law [unfolded client_law_def, rule_format, of "pe_topic x" bytes c]
    by (simp add: cp wire_def x)
  let ?q1 = "delete_pending (pe_id x) q"
  have step: "drain_nats_row fs tv cp no_faults now x (q, c) = (Inr 1, ?q1, c1)"
    by (simp add: drain_nats_row_def x cp no_faults_def)
  have "\<forall>y \<in> set rows. \<exists>e bytes. fs (pe_payload y) = Some e \<and> tv e = Inr bytes"
    using Cons.prems by simp
  from Cons.IH [OF this, of "Suc n" ?q1 c1] show ?case
    by (auto simp: step acc delete_pending_def intro: filter_cong)
qed

text \<open>With a client that accepts everything, one drain publishes every row of a queue that one
  batch covers, each exactly once and from the oldest to the newest, reports their number, and
  leaves the queue empty and the dead letters as they were.\<close>

theorem drain_nats_publishes_in_order:
  assumes law: "client_law cp accepted" and up: "\<forall>t p c. \<not> isl (fst (cp t p c))"
    and d: "drainable from_str to_vec q"
  shows "\<exists>c'. drain_nats from_str to_vec cp no_faults now (q, c)
       = (Inr (length (pending q)), q\<lparr>pending := []\<rparr>, c') \<and>
     accepted c' = accepted c @ map (wire from_str to_vec) (sort_key pe_enqueued_at (pending q))"
proof -
  let ?rows = "sort_key pe_enqueued_at (pending q)" and ?q = "q\<lparr>drain_running := True\<rparr>"
  have len: "length (pending q) \<le> 100" and idle: "\<not> drain_running q"
    using d by (auto simp: drainable_def)
  have "\<forall>x \<in> set ?rows. \<exists>e bytes. from_str (pe_payload x) = Some e \<and> to_vec e = Inr bytes"
    using d by (simp add: drainable_def)
  from accepted_rows [OF law up this, of now 0 ?q c] obtain c'
    where loop: "drain_loop (drain_nats_row from_str to_vec cp no_faults now) ?rows 0 (?q, c)
        = (Inr (length (pending q)), ?q\<lparr>pending := filter (\<lambda>r. pe_id r \<notin> pe_id ` set ?rows) (pending ?q)\<rparr>, c')"
      and acc: "accepted c' = accepted c @ map (wire from_str to_vec) ?rows"
    by auto
  have "filter (\<lambda>r. pe_id r \<notin> pe_id ` set ?rows) (pending q) = []"
    by (auto simp: filter_empty_conv)
  then have "drain_nats from_str to_vec cp no_faults now (q, c)
      = (Inr (length (pending q)), q\<lparr>pending := []\<rparr>, c')"
    using idle loop by (simp add: drain_nats_def drain_nats_body_def drain_batch_all [OF len] no_faults_def)
  with acc show ?thesis by blast
qed

theorem drain_nats_publishes_in_order_witness:
  "\<exists>log. drain_nats (\<lambda>_. Some plain_event) (\<lambda>_. Inr ''b'') (\<lambda>t p log. (Inr (), log @ [(t, p)])) no_faults 9
       (plain_queue, []) = (Inr 2, plain_queue\<lparr>pending := []\<rparr>, log)
     \<and> log = [(''up'', ''b''), (''down'', ''b'')]"
proof -
  let ?cp = "\<lambda>t p log. (Inr () :: string + unit, log @ [(t, p :: string)])"
  have d: "drainable (\<lambda>_. Some plain_event) (\<lambda>_. Inr ''b'') plain_queue"
    by (simp add: drainable_def queue_wf_def plain_queue_def plain_row_def new_disk_queue_def
        DEFAULT_MAX_ATTEMPTS_def)
  have law: "client_law ?cp (\<lambda>log :: (string \<times> string) list. log)" by (simp add: client_law_def)
  have up: "\<forall>t p c. \<not> isl (fst (?cp t p c))" by simp
  from drain_nats_publishes_in_order [OF law up d, of 9 "[]"]
  show ?thesis by (simp add: plain_queue_def plain_row_def wire_def new_disk_queue_def)
qed

subsection \<open>The contract of an enqueue\<close>

text \<open>An enqueue that reports success holds the event afterwards.  Whatever it reports, it loses
  no other row but, when the queue is at its cap, the oldest one; it leaves the dead letters alone;
  and it never takes the queue above its cap (or above one row, or above the size it already had).\<close>

theorem enqueue_contract:
  assumes wf: "queue_wf q"
  shows "let (r, q') = enqueue db to_str now topic e q in
    (r = Inr () \<longrightarrow> queue_holds q' (ev_id e)) \<and>
    (\<forall>i. queue_holds q i \<and> \<not> queue_holds q' i \<longrightarrow>
       max_pending q \<le> pending_count q \<and>
       (\<exists>x \<in> set (pending q). pe_id x = i \<and> (\<forall>y \<in> set (pending q). pe_enqueued_at x \<le> pe_enqueued_at y))) \<and>
    dead_letters q' = dead_letters q \<and>
    pending_count q' \<le> max (pending_count q) (max 1 (max_pending q))"
proof -
  have dead: "dead_letters (delete_oldest q) = dead_letters q"
    "\<And>r q. dead_letters (insert_or_ignore_pending r q) = dead_letters q"
    by (auto simp: delete_oldest_def delete_pending_def insert_or_ignore_pending_def split: option.split)
  have "dead_letters (snd (enqueue db to_str now topic e q)) = dead_letters q"
    by (simp add: enqueue_def enqueue_gate_def enqueue_insert_def dead split: sum.split)
  moreover have "max_pending q \<le> pending_count q \<and>
       (\<exists>x \<in> set (pending q). pe_id x = i \<and> (\<forall>y \<in> set (pending q). pe_enqueued_at x \<le> pe_enqueued_at y))"
    if "queue_holds q i" "\<not> queue_holds (snd (enqueue db to_str now topic e q)) i" for i
    using that enqueue_holds [of q i db to_str now topic e]
    by (auto simp: evicted_by_enqueue_def pending_count_def dest: min_by_key_in min_by_key_least)
  ultimately show ?thesis
    using enqueue_ok_holds [of db to_str now topic e q] length_enqueue [OF wf, of db to_str now topic e]
    by (auto simp: case_prod_unfold pending_count_def)
qed

theorem enqueue_contract_witness:
  "fst (enqueue (\<lambda>_. True) (\<lambda>_. Inr ''p'') 9 ''t'' plain_event (plain_queue\<lparr>max_pending := 2\<rparr>)) = Inr ()
   \<and> queue_holds (snd (enqueue (\<lambda>_. True) (\<lambda>_. Inr ''p'') 9 ''t'' plain_event (plain_queue\<lparr>max_pending := 2\<rparr>))) (Uuid 7)"
proof -
  have wf: "queue_wf (plain_queue\<lparr>max_pending := 2\<rparr>)"
    by (simp add: queue_wf_def plain_queue_def plain_row_def new_disk_queue_def DEFAULT_MAX_ATTEMPTS_def)
  have "fst (enqueue (\<lambda>_. True) (\<lambda>_. Inr ''p'') 9 ''t'' plain_event (plain_queue\<lparr>max_pending := 2\<rparr>)) = Inr ()"
    by (simp add: enqueue_def enqueue_gate_def enqueue_insert_def plain_queue_def new_disk_queue_def
        pending_count_def)
  with enqueue_contract [OF wf, of "\<lambda>_. True" "\<lambda>_. Inr ''p''" 9 "''t''" plain_event]
  show ?thesis by (auto simp: case_prod_unfold Let_def plain_event_def)
qed

subsection \<open>Concurrent producers\<close>

text \<open>
  Producers that share a queue interleave between the statements of \<open>enqueue\<close>: the count is read
  before the lock is taken, and the row is inserted after it is released.  A producer is idle, has
  read a count, holds the lock after a second count that reached the cap, or is past the gate.  A
  failing statement returns it to idle.  The drain runs beside them, one row at a time.
\<close>

datatype producer = Idle | Counted nat | Evicting | Ready

inductive queue_step :: "disk_queue \<times> producer list \<Rightarrow> disk_queue \<times> producer list \<Rightarrow> bool" where
  step_count: "i < length ps \<Longrightarrow> ps ! i = Idle \<Longrightarrow>
     queue_step (q, ps) (q, ps[i := Counted (pending_count q)])"
| step_pass: "i < length ps \<Longrightarrow> ps ! i = Counted n \<Longrightarrow> n < max_pending q \<Longrightarrow>
     queue_step (q, ps) (q, ps[i := Ready])"
| step_lock: "i < length ps \<Longrightarrow> ps ! i = Counted n \<Longrightarrow> max_pending q \<le> n \<Longrightarrow> Evicting \<notin> set ps \<Longrightarrow>
     queue_step (q, ps) (q, ps[i := if max_pending q \<le> pending_count q then Evicting else Ready])"
| step_evict: "i < length ps \<Longrightarrow> ps ! i = Evicting \<Longrightarrow>
     queue_step (q, ps) (delete_oldest q, ps[i := Ready])"
| step_insert: "i < length ps \<Longrightarrow> ps ! i = Ready \<Longrightarrow>
     queue_step (q, ps) (snd (enqueue_insert db to_str now topic e q), ps[i := Idle])"
| step_fail: "i < length ps \<Longrightarrow> queue_step (q, ps) (q, ps[i := Idle])"
| step_drain: "row_effect row q q' \<Longrightarrow> 0 \<le> pe_attempts row \<Longrightarrow> queue_step (q, ps) (q', ps)"

definition holds_slot :: "nat \<Rightarrow> producer \<Rightarrow> bool" where
  "holds_slot cap p = (case p of Counted n \<Rightarrow> n < cap | Ready \<Rightarrow> True | _ \<Rightarrow> False)"

definition slots :: "disk_queue \<Rightarrow> producer list \<Rightarrow> nat" where
  "slots q ps = length (filter (holds_slot (max_pending q)) ps)"

definition queue_bound :: "nat \<Rightarrow> nat \<Rightarrow> nat" where
  "queue_bound cap producers = max cap 1 + (producers - 1)"

definition shared_inv :: "nat \<Rightarrow> nat \<Rightarrow> disk_queue \<times> producer list \<Rightarrow> bool" where
  "shared_inv cap n s \<longleftrightarrow>
     (case s of (q, ps) \<Rightarrow> queue_wf q \<and> max_pending q = cap \<and> length ps = n \<and>
        pending_count q + slots q ps \<le> queue_bound cap n)"

lemma slots_le: "slots q ps \<le> length ps"
  by (simp add: slots_def)

lemma slots_update:
  "i < length ps \<Longrightarrow>
     slots q (ps[i := p]) + of_bool (holds_slot (max_pending q) (ps ! i))
       = slots q ps + of_bool (holds_slot (max_pending q) p)"
  unfolding slots_def by (rule length_filter_list_update)

lemma row_effect_length: "row_effect r q q' \<Longrightarrow> length (pending q') \<le> length (pending q) \<and> max_pending q' = max_pending q"
  by (auto simp: row_effect_def) (auto simp: delete_pending_def set_attempts_def move_to_dlq_def Let_def)

lemma max_pending_insert [simp]: "max_pending (snd (enqueue_insert db f now t e q)) = max_pending q"
  by (simp add: enqueue_insert_def split: sum.split)

lemma shared_inv_below:
  assumes "pending_count q < cap" "queue_wf q" "max_pending q = cap" "length ps = n"
  shows "shared_inv cap n (q, ps)"
  using assms slots_le [of q ps] by (auto simp: shared_inv_def queue_bound_def)

lemma queue_step_inv:
  assumes "queue_step s s'" "shared_inv cap n s"
  shows "shared_inv cap n s'"
  using assms
proof (induction rule: queue_step.induct)
  case (step_count i ps q)
  then show ?case
    using slots_update [of i ps q "Counted (pending_count q)"]
      shared_inv_below [of q cap "ps[i := Counted (pending_count q)]" n]
    by (cases "pending_count q < cap") (auto simp: shared_inv_def holds_slot_def)
next
  case (step_pass i ps m q)
  then show ?case
    using slots_update [of i ps q Ready] by (auto simp: shared_inv_def holds_slot_def)
next
  case (step_lock i ps m q)
  then show ?case
    using slots_update [of i ps q Evicting] shared_inv_below [of q cap "ps[i := Ready]" n]
    by (auto simp: shared_inv_def holds_slot_def)
next
  case (step_evict i ps q)
  have slot: "slots (delete_oldest q) (ps[i := Ready]) = Suc (slots q ps)"
    using slots_update [of i ps q Ready] step_evict by (simp add: slots_def holds_slot_def)
  show ?case
  proof (cases "pending q")
    case Nil
    with step_evict slot slots_le [of "delete_oldest q" "ps[i := Ready]"] show ?thesis
      by (auto simp: shared_inv_def delete_oldest_def pending_count_def queue_bound_def)
  next
    case (Cons r rs)
    with step_evict slot length_delete_oldest [of q] show ?thesis
      by (auto simp: shared_inv_def pending_count_def intro: inv_rules)
  qed
next
  case (step_insert i ps q db to_str now topic e)
  let ?q' = "snd (enqueue_insert db to_str now topic e q)"
  have "Suc (slots ?q' (ps[i := Idle])) = slots q ps"
    using slots_update [of i ps q Idle] step_insert by (simp add: slots_def holds_slot_def)
  with step_insert length_enqueue_insert [of db to_str now topic e q] show ?case
    by (auto simp: shared_inv_def pending_count_def intro: inv_rules)
next
  case (step_fail i ps q)
  then show ?case
    using slots_update [of i ps q Idle] by (auto simp: shared_inv_def holds_slot_def)
next
  case (step_drain row q q' ps)
  with row_effect_length [of row q q'] show ?case
    by (auto simp: shared_inv_def pending_count_def slots_def intro: row_effect_wf)
qed

lemma queue_step_then: "queue_step s t \<Longrightarrow> queue_step\<^sup>*\<^sup>* t u \<Longrightarrow> queue_step\<^sup>*\<^sup>* s u"
  by (rule converse_rtranclp_into_rtranclp)

lemma queue_step_one: "queue_step s t \<Longrightarrow> queue_step\<^sup>*\<^sup>* s t"
  by (rule r_into_rtranclp)

lemma queue_steps_inv: "queue_step\<^sup>*\<^sup>* s s' \<Longrightarrow> shared_inv cap n s \<Longrightarrow> shared_inv cap n s'"
  by (induction rule: rtranclp_induct) (auto intro: queue_step_inv)

text \<open>C7. Concurrent producers overshoot the cap by fewer rows than there are producers: in every
  interleaving of their statements with each other, with failures and with a drain, a queue that
  starts within its cap holds at most the cap plus the number of producers less one.\<close>

theorem concurrent_enqueues_bounded:
  assumes run: "queue_step\<^sup>*\<^sup>* (q, replicate n Idle) (q', ps)"
    and wf: "queue_wf q" and start: "pending_count q \<le> max (max_pending q) 1"
  shows "queue_wf q' \<and> pending_count q' \<le> max (max_pending q) 1 + (n - 1)"
proof -
  have "shared_inv (max_pending q) n (q, replicate n Idle)"
    using wf start by (auto simp: shared_inv_def slots_def holds_slot_def queue_bound_def)
  from queue_steps_inv [OF run this] show ?thesis by (auto simp: shared_inv_def queue_bound_def)
qed

text \<open>The bound is reached: two producers that both count before either inserts fill a cap of one.\<close>

theorem concurrent_enqueues_bounded_witness:
  "\<exists>q' ps. queue_step\<^sup>*\<^sup>* (new_disk_queue 1, replicate 2 Idle) (q', ps) \<and> pending_count q' = 2
     \<and> queue_wf q'"
proof -
  define q where "q = new_disk_queue 1"
  let ?ins = "\<lambda>e q. snd (enqueue_insert (\<lambda>_. True) (\<lambda>_. Inr ''p'') 0 ''t'' e q)"
  let ?e = "plain_event\<lparr>ev_id := Uuid 8\<rparr>"
  have c: "pending_count q = 0" by (simp add: pending_count_def new_disk_queue_def q_def)
  have m: "0 < max_pending q" by (simp add: new_disk_queue_def q_def)
  have s1: "queue_step (q, [Idle, Idle]) (q, [Counted 0, Idle])"
    using step_count [of 0 "[Idle, Idle]" q] by (simp add: c)
  have s2: "queue_step (q, [Counted 0, Idle]) (q, [Counted 0, Counted 0])"
    using step_count [of 1 "[Counted 0, Idle]" q] by (simp add: c)
  have s3: "queue_step (q, [Counted 0, Counted 0]) (q, [Ready, Counted 0])"
    using step_pass [of 0 "[Counted 0, Counted 0]" 0 q] m by simp
  have s4: "queue_step (q, [Ready, Counted 0]) (q, [Ready, Ready])"
    using step_pass [of 1 "[Ready, Counted 0]" 0 q] m by simp
  have s5: "queue_step (q, [Ready, Ready]) (?ins plain_event q, [Idle, Ready])"
    using step_insert [of 0 "[Ready, Ready]" q] by simp
  have s6: "queue_step (?ins plain_event q, [Idle, Ready]) (?ins ?e (?ins plain_event q), [Idle, Idle])"
    using step_insert [of 1 "[Idle, Ready]" "?ins plain_event q"] by simp
  have two: "replicate 2 Idle = [Idle, Idle]" by (simp add: numeral_2_eq_2)
  have run: "queue_step\<^sup>*\<^sup>* (q, replicate 2 Idle) (?ins ?e (?ins plain_event q), [Idle, Idle])"
    unfolding two
    by (rule queue_step_then [OF s1] queue_step_then [OF s2]
        queue_step_then [OF s3] queue_step_then [OF s4]
        queue_step_then [OF s5] queue_step_one [OF s6])+
  have "pending_count (?ins ?e (?ins plain_event q)) = 2"
    by (simp add: enqueue_insert_def insert_or_ignore_pending_def new_disk_queue_def plain_event_def
        pending_count_def q_def)
  moreover have "queue_wf (?ins ?e (?ins plain_event q))"
    using concurrent_enqueues_bounded [OF run new_disk_queue_wf [of 1, folded q_def]] by (simp add: c)
  ultimately show ?thesis using run by (auto simp: q_def)
qed

end
