(* ===== verification/Task_Types.thy ===== *)
theory Task_Types
  imports Json
begin

section \<open>Flows and their lifecycle (\<open>crates/taskflow/src/types.rs\<close>)\<close>

text \<open>
  The records the task-flow runtime stores, the texts their enumerations are stored as, and the
  lifecycle of a flow.  A mutation of a flow reads the clock, so it takes the reading \<open>now\<close>.
\<close>

datatype flow_status = Created | Running | Waiting | Cancelled | Finished | Failed

definition is_terminal :: "flow_status \<Rightarrow> bool" where
  "is_terminal s \<longleftrightarrow> s = Cancelled \<or> s = Finished \<or> s = Failed"

fun legal_edge :: "flow_status \<Rightarrow> flow_status \<Rightarrow> bool" where
  "legal_edge Created Running = True"
| "legal_edge Running Waiting = True"
| "legal_edge Running Finished = True"
| "legal_edge Running Failed = True"
| "legal_edge Waiting Running = True"
| "legal_edge Waiting Failed = True"
| "legal_edge _ _ = False"

definition can_transition_to :: "flow_status \<Rightarrow> flow_status \<Rightarrow> bool" where
  "can_transition_to s next_status =
     (if is_terminal s then False
      else if next_status = Cancelled then True
      else legal_edge s next_status)"

primrec flow_status_str :: "flow_status \<Rightarrow> string" where
  "flow_status_str Created = ''created''"
| "flow_status_str Running = ''running''"
| "flow_status_str Waiting = ''waiting''"
| "flow_status_str Cancelled = ''cancelled''"
| "flow_status_str Finished = ''finished''"
| "flow_status_str Failed = ''failed''"

definition flow_status_of_str :: "string \<Rightarrow> flow_status option" where
  "flow_status_of_str s =
     (if s = ''created'' then Some Created
      else if s = ''running'' then Some Running
      else if s = ''waiting'' then Some Waiting
      else if s = ''cancelled'' then Some Cancelled
      else if s = ''finished'' then Some Finished
      else if s = ''failed'' then Some Failed
      else None)"

record flow =
  fl_id :: uuid
  fl_controller_id :: string
  fl_goal :: string
  fl_owner_session_key :: string
  fl_requester_origin :: string
  fl_current_step :: string
  fl_state_json :: json
  fl_wait_json :: "json option"
  fl_status :: flow_status
  fl_cancel_requested :: bool
  fl_revision :: int
  fl_created_at :: timestamp
  fl_updated_at :: timestamp

datatype flow_error =
    NotFound uuid
  | RevisionMismatch int int
  | IllegalTransition flow_status flow_status
  | AlreadyTerminal uuid flow_status
  | CancelPending uuid
  | Storage
  | InvalidData string

text \<open>The checks run in this order: terminal status, sticky cancel, the graph.\<close>

definition transition_to :: "timestamp \<Rightarrow> flow_status \<Rightarrow> flow \<Rightarrow> flow_error + flow" where
  "transition_to now next_status f =
     (if is_terminal (fl_status f) then Inl (AlreadyTerminal (fl_id f) (fl_status f))
      else if fl_cancel_requested f \<and> next_status \<noteq> Cancelled then Inl (CancelPending (fl_id f))
      else if \<not> can_transition_to (fl_status f) next_status
        then Inl (IllegalTransition (fl_status f) next_status)
      else Inr (f\<lparr>fl_status := next_status, fl_updated_at := now\<rparr>))"

definition flow_request_cancel :: "timestamp \<Rightarrow> flow \<Rightarrow> flow" where
  "flow_request_cancel now f =
     (if \<not> is_terminal (fl_status f) then f\<lparr>fl_cancel_requested := True, fl_updated_at := now\<rparr> else f)"

datatype step_runtime = Managed | Mirrored

primrec step_runtime_str :: "step_runtime \<Rightarrow> string" where
  "step_runtime_str Managed = ''managed''"
| "step_runtime_str Mirrored = ''mirrored''"

definition step_runtime_of_str :: "string \<Rightarrow> step_runtime option" where
  "step_runtime_of_str s =
     (if s = ''managed'' then Some Managed else if s = ''mirrored'' then Some Mirrored else None)"

datatype flow_step_status = StepPending | StepRunning | StepSucceeded | StepFailed | StepCancelled

primrec step_status_str :: "flow_step_status \<Rightarrow> string" where
  "step_status_str StepPending = ''pending''"
| "step_status_str StepRunning = ''running''"
| "step_status_str StepSucceeded = ''succeeded''"
| "step_status_str StepFailed = ''failed''"
| "step_status_str StepCancelled = ''cancelled''"

definition step_status_of_str :: "string \<Rightarrow> flow_step_status option" where
  "step_status_of_str s =
     (if s = ''pending'' then Some StepPending
      else if s = ''running'' then Some StepRunning
      else if s = ''succeeded'' then Some StepSucceeded
      else if s = ''failed'' then Some StepFailed
      else if s = ''cancelled'' then Some StepCancelled
      else None)"

record flow_step =
  st_id :: uuid
  st_flow_id :: uuid
  st_runtime :: step_runtime
  st_child_session_key :: "string option"
  st_run_id :: string
  st_task :: string
  st_status :: flow_step_status
  st_result_json :: "json option"
  st_created_at :: timestamp
  st_updated_at :: timestamp

record flow_event =
  fe_id :: int
  fe_flow_id :: uuid
  fe_kind :: string
  fe_payload_json :: json
  fe_at :: timestamp

subsection \<open>Stored texts\<close>

lemma flow_status_str_roundtrip [simp]: "flow_status_of_str (flow_status_str s) = Some s"
  by (cases s) (simp_all add: flow_status_of_str_def)

lemma flow_status_of_str_Some: "flow_status_of_str t = Some s \<longleftrightarrow> t = flow_status_str s"
  by (cases s) (auto simp: flow_status_of_str_def split: if_splits)

lemma step_runtime_str_roundtrip [simp]: "step_runtime_of_str (step_runtime_str r) = Some r"
  by (cases r) (simp_all add: step_runtime_of_str_def)

lemma step_runtime_of_str_Some: "step_runtime_of_str t = Some r \<longleftrightarrow> t = step_runtime_str r"
  by (cases r) (auto simp: step_runtime_of_str_def split: if_splits)

lemma step_status_str_roundtrip [simp]: "step_status_of_str (step_status_str s) = Some s"
  by (cases s) (simp_all add: step_status_of_str_def)

lemma step_status_of_str_Some: "step_status_of_str t = Some s \<longleftrightarrow> t = step_status_str s"
  by (cases s) (auto simp: step_status_of_str_def split: if_splits)

lemma flow_status_str_inject [simp]: "flow_status_str a = flow_status_str b \<longleftrightarrow> a = b"
  by (metis flow_status_str_roundtrip option.inject)

subsection \<open>The lifecycle as a step relation\<close>

text \<open>What the two mutations of a flow's status may do, at any clock reading.\<close>

inductive lifecycle :: "flow \<Rightarrow> flow \<Rightarrow> bool" where
  life_move: "transition_to now s f = Inr f' \<Longrightarrow> lifecycle f f'"
| life_cancel: "lifecycle f (flow_request_cancel now f)"

lemma can_transition_cases:
  "can_transition_to s t \<longleftrightarrow> \<not> is_terminal s \<and>
     (t = Cancelled \<or> (s, t) \<in> {(Created, Running), (Running, Waiting), (Running, Finished),
        (Running, Failed), (Waiting, Running), (Waiting, Failed)})"
  by (cases s; cases t) (simp_all add: can_transition_to_def is_terminal_def)

lemma transition_to_Inr:
  "transition_to now s f = Inr f' \<longleftrightarrow>
     can_transition_to (fl_status f) s \<and> (fl_cancel_requested f \<longrightarrow> s = Cancelled) \<and>
     f' = f\<lparr>fl_status := s, fl_updated_at := now\<rparr>"
  by (auto simp: transition_to_def can_transition_to_def)

lemma lifecycle_terminal: "lifecycle f f' \<Longrightarrow> is_terminal (fl_status f) \<Longrightarrow> f' = f"
  by (induction rule: lifecycle.induct) (auto simp: transition_to_def flow_request_cancel_def)

lemma lifecycle_cancel:
  "lifecycle f f' \<Longrightarrow> fl_cancel_requested f \<Longrightarrow>
     fl_cancel_requested f' \<and> fl_status f' \<in> {fl_status f, Cancelled}"
  by (induction rule: lifecycle.induct) (auto simp: transition_to_Inr flow_request_cancel_def)

lemma lifecycle_created: "lifecycle f f' \<Longrightarrow> fl_status f' = Created \<Longrightarrow> fl_status f = Created"
  by (induction rule: lifecycle.induct)
    (auto simp: transition_to_Inr flow_request_cancel_def can_transition_cases split: if_splits)

lemma lifecycles_terminal: "lifecycle\<^sup>*\<^sup>* f f' \<Longrightarrow> is_terminal (fl_status f) \<Longrightarrow> f' = f"
  by (induction rule: rtranclp_induct) (auto dest: lifecycle_terminal)

lemma lifecycles_cancel:
  "lifecycle\<^sup>*\<^sup>* f f' \<Longrightarrow> fl_cancel_requested f \<Longrightarrow>
     fl_cancel_requested f' \<and> fl_status f' \<in> {fl_status f, Cancelled}"
  by (induction rule: rtranclp_induct) (auto dest: lifecycle_cancel)

lemma lifecycles_created: "lifecycle\<^sup>*\<^sup>* f f' \<Longrightarrow> fl_status f' = Created \<Longrightarrow> fl_status f = Created"
  by (induction rule: rtranclp_induct) (auto dest: lifecycle_created)

text \<open>C14. A flow's lifecycle is one-way.  Along any sequence of transitions and cancel requests: a
  terminal flow never changes again; a requested cancel stays requested, and from then on the flow
  keeps its status or becomes cancelled; and no flow returns to the created status.\<close>

theorem lifecycle_is_one_way:
  assumes "lifecycle\<^sup>*\<^sup>* f f'"
  shows "(is_terminal (fl_status f) \<longrightarrow> f' = f) \<and>
    (fl_cancel_requested f \<longrightarrow> fl_cancel_requested f' \<and> fl_status f' \<in> {fl_status f, Cancelled}) \<and>
    (fl_status f' = Created \<longrightarrow> fl_status f = Created)"
  using lifecycles_terminal [OF assms] lifecycles_cancel [OF assms] lifecycles_created [OF assms]
  by blast

definition sample_flow :: flow where
  "sample_flow = \<lparr>fl_id = Uuid 1, fl_controller_id = ''c'', fl_goal = ''g'', fl_owner_session_key = ''o'',
     fl_requester_origin = ''r'', fl_current_step = ''s'', fl_state_json = JObject [], fl_wait_json = None,
     fl_status = Created, fl_cancel_requested = False, fl_revision = 0, fl_created_at = 0,
     fl_updated_at = 0\<rparr>"

theorem lifecycle_is_one_way_witness:
  "\<exists>f'. lifecycle\<^sup>*\<^sup>* (sample_flow\<lparr>fl_status := Waiting, fl_cancel_requested := True\<rparr>) f' \<and>
     fl_cancel_requested f' \<and> fl_status f' = Cancelled"
proof -
  let ?f = "sample_flow\<lparr>fl_status := Waiting, fl_cancel_requested := True\<rparr>"
  have "transition_to 5 Cancelled ?f = Inr (?f\<lparr>fl_status := Cancelled, fl_updated_at := 5\<rparr>)"
    by (simp add: transition_to_Inr can_transition_cases is_terminal_def)
  then have run: "lifecycle\<^sup>*\<^sup>* ?f (?f\<lparr>fl_status := Cancelled, fl_updated_at := 5\<rparr>)"
    by (auto intro: lifecycle.intros)
  from lifecycle_is_one_way [OF this] run show ?thesis
    by (intro exI [of _ "?f\<lparr>fl_status := Cancelled, fl_updated_at := 5\<rparr>"]) simp
qed

text \<open>Every status and runtime is read back from the text it is stored as, and every other text is
  rejected.\<close>

theorem stored_texts_roundtrip:
  "(flow_status_of_str t = Some s \<longleftrightarrow> t = flow_status_str s) \<and>
   (step_status_of_str t = Some ss \<longleftrightarrow> t = step_status_str ss) \<and>
   (step_runtime_of_str t = Some r \<longleftrightarrow> t = step_runtime_str r)"
  by (simp add: flow_status_of_str_Some step_status_of_str_Some step_runtime_of_str_Some)

end
