(* ===== verification/Flow_Store.thy ===== *)
theory Flow_Store
  imports Task_Types
begin

section \<open>The flow store (\<open>crates/taskflow/src/store.rs\<close>)\<close>

text \<open>
  \<open>flow_store_ops\<close> is the trait \<open>FlowStore\<close>: what a manager calls, over an unknown store.
  The locale \<open>revisioned_store\<close> states what a store promises: reads show the contents, an update
  goes through exactly when the revision it was read at is still current, and it commits together with its audit
  event or not at all.  The SQLite store is modelled by its tables; every SQL statement may fail, and an argument says
  which ones do.  JSON columns hold text, and serde's two directions are an argument too; ids and
  timestamps are kept as values.
\<close>

record 's flow_store_ops =
  op_insert :: "flow \<Rightarrow> 's \<Rightarrow> (flow_error + unit) \<times> 's"
  op_get :: "uuid \<Rightarrow> 's \<Rightarrow> flow_error + flow option"
  op_list_by_owner :: "string \<Rightarrow> 's \<Rightarrow> flow_error + flow list"
  op_list_by_status :: "flow_status \<Rightarrow> 's \<Rightarrow> flow_error + flow list"
  op_append_event :: "uuid \<Rightarrow> string \<Rightarrow> json \<Rightarrow> 's \<Rightarrow> (flow_error + flow_event) \<times> 's"
  op_insert_step :: "flow_step \<Rightarrow> 's \<Rightarrow> (flow_error + unit) \<times> 's"
  op_update_step :: "flow_step \<Rightarrow> 's \<Rightarrow> (flow_error + flow_step) \<times> 's"
  op_find_step :: "uuid \<Rightarrow> string \<Rightarrow> 's \<Rightarrow> flow_error + flow_step option"
  op_update_and_append :: "flow \<Rightarrow> string \<Rightarrow> json \<Rightarrow> 's \<Rightarrow> (flow_error + flow \<times> flow_event) \<times> 's"

subsection \<open>Tables\<close>

record json_codec =
  to_text :: "json \<Rightarrow> string + string"
  of_text :: "string \<Rightarrow> string + json"

record flow_row =
  fr_id :: uuid
  fr_controller_id :: string
  fr_goal :: string
  fr_owner_session_key :: string
  fr_requester_origin :: string
  fr_current_step :: string
  fr_state_json :: string
  fr_wait_json :: "string option"
  fr_status :: string
  fr_cancel_requested :: int
  fr_revision :: int
  fr_created_at :: timestamp
  fr_updated_at :: timestamp

record step_row =
  sr_id :: uuid
  sr_flow_id :: uuid
  sr_runtime :: string
  sr_child_session_key :: "string option"
  sr_run_id :: string
  sr_task :: string
  sr_status :: string
  sr_result_json :: "string option"
  sr_created_at :: timestamp
  sr_updated_at :: timestamp

record event_row =
  er_id :: int
  er_flow_id :: uuid
  er_kind :: string
  er_payload_json :: string
  er_at :: timestamp

record flow_db =
  db_flows :: "flow_row list"
  db_steps :: "step_row list"
  db_events :: "event_row list"
  db_next_event :: int

definition empty_flow_db :: flow_db where
  "empty_flow_db = \<lparr>db_flows = [], db_steps = [], db_events = [], db_next_event = 1\<rparr>"

datatype flow_stmt =
    InsertFlow | SelectFlow | SelectFlows | UpdateFlow
  | InsertEvent | SelectEvents | InsertStep | UpdateStep | SelectStep | SelectSteps
  | DeleteFlows | BeginTx | RollbackTx | SelectUpdated | CommitTx

subsection \<open>Rows and records\<close>

definition json_column :: "json_codec \<Rightarrow> json \<Rightarrow> flow_error + string" where
  "json_column js v = (case to_text js v of Inl e \<Rightarrow> Inl (InvalidData e) | Inr t \<Rightarrow> Inr t)"

definition opt_json_column :: "json_codec \<Rightarrow> json option \<Rightarrow> flow_error + string option" where
  "opt_json_column js v =
     (case v of None \<Rightarrow> Inr None | Some j \<Rightarrow> and_then (json_column js j) (\<lambda>t. Inr (Some t)))"

definition parse_column :: "json_codec \<Rightarrow> string \<Rightarrow> string \<Rightarrow> flow_error + json" where
  "parse_column js what t = (case of_text js t of Inl e \<Rightarrow> Inl (InvalidData (what @ e)) | Inr v \<Rightarrow> Inr v)"

definition parse_opt_column :: "json_codec \<Rightarrow> string \<Rightarrow> string option \<Rightarrow> flow_error + json option" where
  "parse_opt_column js what t =
     (case t of None \<Rightarrow> Inr None | Some x \<Rightarrow> and_then (parse_column js what x) (\<lambda>v. Inr (Some v)))"

definition parse_text :: "(string \<Rightarrow> 'a option) \<Rightarrow> string \<Rightarrow> string \<Rightarrow> flow_error + 'a" where
  "parse_text of_str what t = (case of_str t of None \<Rightarrow> Inl (InvalidData (what @ t)) | Some v \<Rightarrow> Inr v)"

definition row_to_flow :: "json_codec \<Rightarrow> flow_row \<Rightarrow> flow_error + flow" where
  "row_to_flow js r =
     and_then (parse_column js ''bad state_json: '' (fr_state_json r)) (\<lambda>state.
     and_then (parse_opt_column js ''bad wait_json: '' (fr_wait_json r)) (\<lambda>wait.
     and_then (parse_text flow_status_of_str ''unknown status: '' (fr_status r)) (\<lambda>status.
       Inr \<lparr>fl_id = fr_id r, fl_controller_id = fr_controller_id r, fl_goal = fr_goal r,
            fl_owner_session_key = fr_owner_session_key r,
            fl_requester_origin = fr_requester_origin r, fl_current_step = fr_current_step r,
            fl_state_json = state, fl_wait_json = wait, fl_status = status,
            fl_cancel_requested = (fr_cancel_requested r \<noteq> 0), fl_revision = fr_revision r,
            fl_created_at = fr_created_at r, fl_updated_at = fr_updated_at r\<rparr>)))"

definition row_to_step :: "json_codec \<Rightarrow> step_row \<Rightarrow> flow_error + flow_step" where
  "row_to_step js r =
     and_then (parse_text step_runtime_of_str ''unknown runtime: '' (sr_runtime r)) (\<lambda>runtime.
     and_then (parse_text step_status_of_str ''unknown step status: '' (sr_status r)) (\<lambda>status.
     and_then (parse_opt_column js ''bad result_json: '' (sr_result_json r)) (\<lambda>result.
       Inr \<lparr>st_id = sr_id r, st_flow_id = sr_flow_id r, st_runtime = runtime,
            st_child_session_key = sr_child_session_key r, st_run_id = sr_run_id r,
            st_task = sr_task r, st_status = status, st_result_json = result,
            st_created_at = sr_created_at r, st_updated_at = sr_updated_at r\<rparr>)))"

definition row_to_event :: "json_codec \<Rightarrow> event_row \<Rightarrow> flow_error + flow_event" where
  "row_to_event js r =
     and_then (parse_column js ''bad event payload: '' (er_payload_json r)) (\<lambda>payload.
       Inr \<lparr>fe_id = er_id r, fe_flow_id = er_flow_id r, fe_kind = er_kind r,
            fe_payload_json = payload, fe_at = er_at r\<rparr>)"

text \<open>The two JSON columns of a flow, serialised before any statement runs.\<close>

definition flow_columns :: "json_codec \<Rightarrow> flow \<Rightarrow> flow_error + string \<times> string option" where
  "flow_columns js f =
     and_then (json_column js (fl_state_json f)) (\<lambda>state.
     and_then (opt_json_column js (fl_wait_json f)) (\<lambda>wait. Inr (state, wait)))"

definition flow_to_row :: "flow \<Rightarrow> string \<times> string option \<Rightarrow> flow_row" where
  "flow_to_row f cols =
     \<lparr>fr_id = fl_id f, fr_controller_id = fl_controller_id f, fr_goal = fl_goal f,
      fr_owner_session_key = fl_owner_session_key f, fr_requester_origin = fl_requester_origin f,
      fr_current_step = fl_current_step f, fr_state_json = fst cols, fr_wait_json = snd cols,
      fr_status = flow_status_str (fl_status f),
      fr_cancel_requested = (if fl_cancel_requested f then 1 else 0), fr_revision = fl_revision f,
      fr_created_at = fl_created_at f, fr_updated_at = fl_updated_at f\<rparr>"

subsection \<open>Flows\<close>

definition find_flow :: "uuid \<Rightarrow> flow_db \<Rightarrow> flow_row option" where
  "find_flow i s = find (\<lambda>r. fr_id r = i) (db_flows s)"

definition sqlite_insert ::
  "json_codec \<Rightarrow> (flow_stmt \<Rightarrow> bool) \<Rightarrow> flow \<Rightarrow> flow_db \<Rightarrow> (flow_error + unit) \<times> flow_db" where
  "sqlite_insert js db f s =
     (case flow_columns js f of
        Inl e \<Rightarrow> (Inl e, s)
      | Inr cols \<Rightarrow>
          if \<not> db InsertFlow \<or> find_flow (fl_id f) s \<noteq> None then (Inl Storage, s)
          else (Inr (), s\<lparr>db_flows := db_flows s @ [flow_to_row f cols]\<rparr>))"

definition sqlite_get ::
  "json_codec \<Rightarrow> (flow_stmt \<Rightarrow> bool) \<Rightarrow> uuid \<Rightarrow> flow_db \<Rightarrow> flow_error + flow option" where
  "sqlite_get js db i s =
     (if \<not> db SelectFlow then Inl Storage
      else (case find_flow i s of
              None \<Rightarrow> Inr None
            | Some r \<Rightarrow> and_then (row_to_flow js r) (\<lambda>f. Inr (Some f))))"

definition sqlite_list_by_owner ::
  "json_codec \<Rightarrow> (flow_stmt \<Rightarrow> bool) \<Rightarrow> string \<Rightarrow> flow_db \<Rightarrow> flow_error + flow list" where
  "sqlite_list_by_owner js db owner s =
     (if \<not> db SelectFlows then Inl Storage
      else collect_results (map (row_to_flow js)
             (sort_key (\<lambda>r. - fr_created_at r)
                (filter (\<lambda>r. fr_owner_session_key r = owner) (db_flows s)))))"

definition sqlite_list_by_status ::
  "json_codec \<Rightarrow> (flow_stmt \<Rightarrow> bool) \<Rightarrow> flow_status \<Rightarrow> flow_db \<Rightarrow> flow_error + flow list" where
  "sqlite_list_by_status js db status s =
     (if \<not> db SelectFlows then Inl Storage
      else collect_results (map (row_to_flow js)
             (sort_key fr_updated_at
                (filter (\<lambda>r. fr_status r = flow_status_str status) (db_flows s)))))"

text \<open>\<open>UPDATE flows SET ... WHERE id = ? AND revision = ?\<close>: the rows it hits, and the new row.\<close>

definition update_hits :: "flow \<Rightarrow> flow_row \<Rightarrow> bool" where
  "update_hits f r \<longleftrightarrow> fr_id r = fl_id f \<and> fr_revision r = fl_revision f"

definition updated_row :: "timestamp \<Rightarrow> flow \<Rightarrow> string \<times> string option \<Rightarrow> flow_row \<Rightarrow> flow_row" where
  "updated_row now f cols r =
     r\<lparr>fr_controller_id := fl_controller_id f, fr_goal := fl_goal f,
       fr_owner_session_key := fl_owner_session_key f, fr_requester_origin := fl_requester_origin f,
       fr_current_step := fl_current_step f, fr_state_json := fst cols, fr_wait_json := snd cols,
       fr_status := flow_status_str (fl_status f),
       fr_cancel_requested := (if fl_cancel_requested f then 1 else 0),
       fr_revision := fl_revision f + 1, fr_updated_at := now\<rparr>"

definition update_flow_rows :: "timestamp \<Rightarrow> flow \<Rightarrow> string \<times> string option \<Rightarrow> flow_db \<Rightarrow> flow_db" where
  "update_flow_rows now f cols s =
     s\<lparr>db_flows := map (\<lambda>r. if update_hits f r then updated_row now f cols r else r) (db_flows s)\<rparr>"

text \<open>No row hit: the flow is gone, or its revision moved on.\<close>

definition explain_miss ::
  "json_codec \<Rightarrow> (flow_stmt \<Rightarrow> bool) \<Rightarrow> flow \<Rightarrow> flow_db \<Rightarrow> flow_error" where
  "explain_miss js db f s =
     (case sqlite_get js db (fl_id f) s of
        Inl e \<Rightarrow> e
      | Inr None \<Rightarrow> NotFound (fl_id f)
      | Inr (Some found) \<Rightarrow> RevisionMismatch (fl_revision f) (fl_revision found))"

definition sqlite_update_with_revision ::
  "json_codec \<Rightarrow> (flow_stmt \<Rightarrow> bool) \<Rightarrow> timestamp \<Rightarrow> flow \<Rightarrow> flow_db \<Rightarrow> (flow_error + flow) \<times> flow_db" where
  "sqlite_update_with_revision js db now f s =
     (case flow_columns js f of
        Inl e \<Rightarrow> (Inl e, s)
      | Inr cols \<Rightarrow>
          if \<not> db UpdateFlow then (Inl Storage, s)
          else if filter (update_hits f) (db_flows s) = [] then (Inl (explain_miss js db f s), s)
          else (let s' = update_flow_rows now f cols s in
                (case sqlite_get js db (fl_id f) s' of
                   Inl e \<Rightarrow> Inl e
                 | Inr None \<Rightarrow> Inl (NotFound (fl_id f))
                 | Inr (Some f') \<Rightarrow> Inr f', s')))"

subsection \<open>The audit log\<close>

definition insert_event_row :: "timestamp \<Rightarrow> uuid \<Rightarrow> string \<Rightarrow> string \<Rightarrow> flow_db \<Rightarrow> flow_db" where
  "insert_event_row now i kind payload s =
     s\<lparr>db_events := db_events s @ [\<lparr>er_id = db_next_event s, er_flow_id = i, er_kind = kind,
                                    er_payload_json = payload, er_at = now\<rparr>],
       db_next_event := db_next_event s + 1\<rparr>"

definition sqlite_append_event ::
  "json_codec \<Rightarrow> (flow_stmt \<Rightarrow> bool) \<Rightarrow> timestamp \<Rightarrow> uuid \<Rightarrow> string \<Rightarrow> json \<Rightarrow> flow_db
     \<Rightarrow> (flow_error + flow_event) \<times> flow_db" where
  "sqlite_append_event js db now i kind payload s =
     (case json_column js payload of
        Inl e \<Rightarrow> (Inl e, s)
      | Inr t \<Rightarrow>
          if \<not> db InsertEvent \<or> find_flow i s = None then (Inl Storage, s)
          else (Inr \<lparr>fe_id = db_next_event s, fe_flow_id = i, fe_kind = kind,
                      fe_payload_json = payload, fe_at = now\<rparr>,
                insert_event_row now i kind t s))"

definition sqlite_list_events ::
  "json_codec \<Rightarrow> (flow_stmt \<Rightarrow> bool) \<Rightarrow> uuid \<Rightarrow> int \<Rightarrow> flow_db \<Rightarrow> flow_error + flow_event list" where
  "sqlite_list_events js db i limit s =
     (if \<not> db SelectEvents then Inl Storage
      else collect_results (map (row_to_event js)
             (take (nat (max limit 0))
                (sort_key (\<lambda>r. - er_id r) (filter (\<lambda>r. er_flow_id r = i) (db_events s))))))"

text \<open>
  The atomic override: a transaction around the revision check, the update, the event and the final
  read.  An error on the way drops the transaction, so the tables stay as they were.
\<close>

definition run_stmt :: "(flow_stmt \<Rightarrow> bool) \<Rightarrow> flow_stmt \<Rightarrow> flow_error + unit" where
  "run_stmt db q = (if db q then Inr () else Inl Storage)"

definition update_and_append_tx ::
  "json_codec \<Rightarrow> (flow_stmt \<Rightarrow> bool) \<Rightarrow> timestamp \<Rightarrow> flow \<Rightarrow> string \<Rightarrow> json \<Rightarrow> flow_db
     \<Rightarrow> flow_error + flow \<times> flow_event \<times> flow_db" where
  "update_and_append_tx js db now f kind payload s =
     and_then (flow_columns js f) (\<lambda>cols.
     and_then (json_column js payload) (\<lambda>t.
     and_then (run_stmt db BeginTx) (\<lambda>_.
     and_then (run_stmt db UpdateFlow) (\<lambda>_.
       if filter (update_hits f) (db_flows s) = []
       then and_then (run_stmt db RollbackTx) (\<lambda>_. Inl (explain_miss js db f s))
       else
     and_then (run_stmt db InsertEvent) (\<lambda>_.
       let s' = insert_event_row now (fl_id f) kind t (update_flow_rows now f cols s);
           event = \<lparr>fe_id = db_next_event s, fe_flow_id = fl_id f, fe_kind = kind,
                    fe_payload_json = payload, fe_at = now\<rparr>
       in
     and_then (run_stmt db SelectUpdated) (\<lambda>_.
     and_then (case find_flow (fl_id f) s' of None \<Rightarrow> Inl Storage | Some r \<Rightarrow> row_to_flow js r) (\<lambda>f'.
     and_then (run_stmt db CommitTx) (\<lambda>_. Inr (f', event, s')))))))))"

definition sqlite_update_and_append ::
  "json_codec \<Rightarrow> (flow_stmt \<Rightarrow> bool) \<Rightarrow> timestamp \<Rightarrow> flow \<Rightarrow> string \<Rightarrow> json \<Rightarrow> flow_db
     \<Rightarrow> (flow_error + flow \<times> flow_event) \<times> flow_db" where
  "sqlite_update_and_append js db now f kind payload s =
     (case update_and_append_tx js db now f kind payload s of
        Inl e \<Rightarrow> (Inl e, s)
      | Inr (f', event, s') \<Rightarrow> (Inr (f', event), s'))"

subsection \<open>Steps\<close>

definition step_columns :: "json_codec \<Rightarrow> flow_step \<Rightarrow> flow_error + string option" where
  "step_columns js st = opt_json_column js (st_result_json st)"

definition step_to_row :: "flow_step \<Rightarrow> string option \<Rightarrow> step_row" where
  "step_to_row st res =
     \<lparr>sr_id = st_id st, sr_flow_id = st_flow_id st, sr_runtime = step_runtime_str (st_runtime st),
      sr_child_session_key = st_child_session_key st, sr_run_id = st_run_id st, sr_task = st_task st,
      sr_status = step_status_str (st_status st), sr_result_json = res,
      sr_created_at = st_created_at st, sr_updated_at = st_updated_at st\<rparr>"

text \<open>Two steps of one flow may not share a run id: the unique index.\<close>

definition same_run :: "uuid \<Rightarrow> string \<Rightarrow> step_row \<Rightarrow> bool" where
  "same_run i run r \<longleftrightarrow> sr_flow_id r = i \<and> sr_run_id r = run"

text \<open>The insert fails on a taken id, on a taken run id of the flow, and for a flow that is not there.\<close>

definition sqlite_insert_step ::
  "json_codec \<Rightarrow> (flow_stmt \<Rightarrow> bool) \<Rightarrow> flow_step \<Rightarrow> flow_db \<Rightarrow> (flow_error + unit) \<times> flow_db" where
  "sqlite_insert_step js db st s =
     (case step_columns js st of
        Inl e \<Rightarrow> (Inl e, s)
      | Inr res \<Rightarrow>
          if \<not> db InsertStep \<or> find_flow (st_flow_id st) s = None
             \<or> st_id st \<in> sr_id ` set (db_steps s)
             \<or> (\<exists>r \<in> set (db_steps s). same_run (st_flow_id st) (st_run_id st) r)
          then (Inl Storage, s)
          else (Inr (), s\<lparr>db_steps := db_steps s @ [step_to_row st res]\<rparr>))"

definition sqlite_get_step ::
  "json_codec \<Rightarrow> (flow_stmt \<Rightarrow> bool) \<Rightarrow> uuid \<Rightarrow> flow_db \<Rightarrow> flow_error + flow_step option" where
  "sqlite_get_step js db i s =
     (if \<not> db SelectStep then Inl Storage
      else (case find (\<lambda>r. sr_id r = i) (db_steps s) of
              None \<Rightarrow> Inr None
            | Some r \<Rightarrow> and_then (row_to_step js r) (\<lambda>st. Inr (Some st))))"

definition updated_step_row :: "timestamp \<Rightarrow> flow_step \<Rightarrow> string option \<Rightarrow> step_row \<Rightarrow> step_row" where
  "updated_step_row now st res r =
     r\<lparr>sr_runtime := step_runtime_str (st_runtime st), sr_child_session_key := st_child_session_key st,
       sr_run_id := st_run_id st, sr_task := st_task st, sr_status := step_status_str (st_status st),
       sr_result_json := res, sr_updated_at := now\<rparr>"

definition run_taken :: "uuid \<Rightarrow> uuid \<Rightarrow> string \<Rightarrow> flow_db \<Rightarrow> bool" where
  "run_taken step i run s \<longleftrightarrow> (\<exists>r \<in> set (db_steps s). sr_id r \<noteq> step \<and> same_run i run r)"

text \<open>The update fails when it would give the row a run id another step of its flow has.\<close>

definition sqlite_update_step ::
  "json_codec \<Rightarrow> (flow_stmt \<Rightarrow> bool) \<Rightarrow> timestamp \<Rightarrow> flow_step \<Rightarrow> flow_db
     \<Rightarrow> (flow_error + flow_step) \<times> flow_db" where
  "sqlite_update_step js db now st s =
     (case step_columns js st of
        Inl e \<Rightarrow> (Inl e, s)
      | Inr res \<Rightarrow>
          if \<not> db UpdateStep then (Inl Storage, s)
          else (case find (\<lambda>r. sr_id r = st_id st) (db_steps s) of
                  None \<Rightarrow> (Inl (NotFound (st_id st)), s)
                | Some old \<Rightarrow>
                    if run_taken (st_id st) (sr_flow_id old) (st_run_id st) s
                    then (Inl Storage, s)
                    else (let s' = s\<lparr>db_steps := map (\<lambda>r. if sr_id r = st_id st
                                        then updated_step_row now st res r else r) (db_steps s)\<rparr>
                          in (case sqlite_get_step js db (st_id st) s' of
                                Inl e \<Rightarrow> Inl e
                              | Inr None \<Rightarrow> Inl (NotFound (st_id st))
                              | Inr (Some st') \<Rightarrow> Inr st', s'))))"

definition sqlite_list_steps ::
  "json_codec \<Rightarrow> (flow_stmt \<Rightarrow> bool) \<Rightarrow> uuid \<Rightarrow> flow_db \<Rightarrow> flow_error + flow_step list" where
  "sqlite_list_steps js db i s =
     (if \<not> db SelectSteps then Inl Storage
      else collect_results (map (row_to_step js)
             (sort_key sr_created_at (filter (\<lambda>r. sr_flow_id r = i) (db_steps s)))))"

definition sqlite_find_step ::
  "json_codec \<Rightarrow> (flow_stmt \<Rightarrow> bool) \<Rightarrow> uuid \<Rightarrow> string \<Rightarrow> flow_db \<Rightarrow> flow_error + flow_step option" where
  "sqlite_find_step js db i run s =
     (if \<not> db SelectSteps then Inl Storage
      else (case find (same_run i run) (db_steps s) of
              None \<Rightarrow> Inr None
            | Some r \<Rightarrow> and_then (row_to_step js r) (\<lambda>st. Inr (Some st))))"

subsection \<open>Retention\<close>

definition day :: int where "day = 86400000000000"

definition prunable :: "timestamp \<Rightarrow> flow_row \<Rightarrow> bool" where
  "prunable cutoff r \<longleftrightarrow>
     fr_status r \<in> set [''finished'', ''failed'', ''cancelled''] \<and> fr_updated_at r < cutoff"

text \<open>Deleting a flow deletes its steps and events: \<open>ON DELETE CASCADE\<close>.\<close>

definition delete_flows :: "(flow_row \<Rightarrow> bool) \<Rightarrow> flow_db \<Rightarrow> flow_db" where
  "delete_flows P s =
     (let gone = fr_id ` set (filter P (db_flows s)) in
      s\<lparr>db_flows := filter (\<lambda>r. \<not> P r) (db_flows s),
        db_steps := filter (\<lambda>r. sr_flow_id r \<notin> gone) (db_steps s),
        db_events := filter (\<lambda>r. er_flow_id r \<notin> gone) (db_events s)\<rparr>)"

definition sqlite_prune_terminal_flows ::
  "(flow_stmt \<Rightarrow> bool) \<Rightarrow> timestamp \<Rightarrow> int \<Rightarrow> flow_db \<Rightarrow> (flow_error + nat) \<times> flow_db" where
  "sqlite_prune_terminal_flows db now retain_days s =
     (if \<not> db DeleteFlows then (Inl Storage, s)
      else (let cutoff = now - max retain_days 0 * day in
            (Inr (length (filter (prunable cutoff) (db_flows s))), delete_flows (prunable cutoff) s)))"

definition sqlite_ops :: "json_codec \<Rightarrow> (flow_stmt \<Rightarrow> bool) \<Rightarrow> timestamp \<Rightarrow> flow_db flow_store_ops" where
  "sqlite_ops js db now =
     \<lparr>op_insert = sqlite_insert js db, op_get = sqlite_get js db,
      op_list_by_owner = sqlite_list_by_owner js db, op_list_by_status = sqlite_list_by_status js db,
      op_append_event = sqlite_append_event js db now, op_insert_step = sqlite_insert_step js db,
      op_update_step = sqlite_update_step js db now, op_find_step = sqlite_find_step js db,
      op_update_and_append = sqlite_update_and_append js db now\<rparr>"

subsection \<open>Well-formed stores\<close>

text \<open>What the code relies on of serde: a value that could be written is read back.\<close>

definition codec_law :: "json_codec \<Rightarrow> bool" where
  "codec_law js \<longleftrightarrow> (\<forall>v t. to_text js v = Inr t \<longrightarrow> of_text js t = Inr v)"

definition row_ok :: "json_codec \<Rightarrow> flow_row \<Rightarrow> bool" where
  "row_ok js r \<longleftrightarrow> \<not> isl (row_to_flow js r)"

definition step_row_ok :: "json_codec \<Rightarrow> step_row \<Rightarrow> bool" where
  "step_row_ok js r \<longleftrightarrow> \<not> isl (row_to_step js r)"

text \<open>Keys and the run index are unique, no step or event lacks its flow, and every row parses.\<close>

definition flow_db_wf :: "json_codec \<Rightarrow> flow_db \<Rightarrow> bool" where
  "flow_db_wf js s \<longleftrightarrow>
     distinct (map fr_id (db_flows s)) \<and>
     distinct (map sr_id (db_steps s)) \<and>
     distinct (map (\<lambda>r. (sr_flow_id r, sr_run_id r)) (db_steps s)) \<and>
     sr_flow_id ` set (db_steps s) \<subseteq> fr_id ` set (db_flows s) \<and>
     er_flow_id ` set (db_events s) \<subseteq> fr_id ` set (db_flows s) \<and>
     sorted_wrt (<) (map er_id (db_events s)) \<and>
     (\<forall>r \<in> set (db_events s). er_id r < db_next_event s) \<and>
     (\<forall>r \<in> set (db_flows s). row_ok js r) \<and>
     (\<forall>r \<in> set (db_steps s). step_row_ok js r)"

definition flow_db_ok :: "json_codec \<Rightarrow> flow_db \<Rightarrow> bool" where
  "flow_db_ok js s \<longleftrightarrow> codec_law js \<and> flow_db_wf js s"

lemma json_column_roundtrip:
  "codec_law js \<Longrightarrow> json_column js v = Inr t \<Longrightarrow> parse_column js what t = Inr v"
  by (auto simp: codec_law_def json_column_def parse_column_def split: sum.splits)

lemma opt_json_column_roundtrip:
  "codec_law js \<Longrightarrow> opt_json_column js v = Inr t \<Longrightarrow> parse_opt_column js what t = Inr v"
  by (auto simp: opt_json_column_def parse_opt_column_def and_then_Inr_iff json_column_roundtrip
      split: option.splits)

lemma flow_columns_parts:
  "flow_columns js f = Inr cols \<longleftrightarrow>
     json_column js (fl_state_json f) = Inr (fst cols) \<and> opt_json_column js (fl_wait_json f) = Inr (snd cols)"
  by (cases cols) (auto simp: flow_columns_def and_then_Inr_iff)

lemma parse_text_roundtrip [simp]:
  "parse_text flow_status_of_str what (flow_status_str s) = Inr s"
  "parse_text step_runtime_of_str what (step_runtime_str rt) = Inr rt"
  "parse_text step_status_of_str what (step_status_str ss) = Inr ss"
  by (simp_all add: parse_text_def)

lemma columns_read:
  assumes "codec_law js" "flow_columns js f = Inr cols"
  shows "parse_column js what (fst cols) = Inr (fl_state_json f)"
    "parse_opt_column js what (snd cols) = Inr (fl_wait_json f)"
  using assms by (auto simp: flow_columns_parts intro: json_column_roundtrip opt_json_column_roundtrip)

lemma flow_row_roundtrip:
  assumes "codec_law js" "flow_columns js f = Inr cols"
  shows "row_to_flow js (flow_to_row f cols) = Inr f"
  by (cases f) (use columns_read [OF assms] in \<open>simp add: row_to_flow_def flow_to_row_def\<close>)

lemma updated_row_flow:
  assumes "codec_law js" "flow_columns js f = Inr cols" "fr_id r = fl_id f"
  shows "row_to_flow js (updated_row now f cols r)
    = Inr (f\<lparr>fl_revision := fl_revision f + 1, fl_created_at := fr_created_at r, fl_updated_at := now\<rparr>)"
  by (cases f) (use columns_read [OF assms(1,2)] assms(3) in \<open>simp add: row_to_flow_def updated_row_def\<close>)

lemma step_columns_read:
  assumes "codec_law js" "step_columns js st = Inr res"
  shows "parse_opt_column js what res = Inr (st_result_json st)"
  using assms by (auto simp: step_columns_def intro: opt_json_column_roundtrip)

lemma step_row_roundtrip:
  assumes "codec_law js" "step_columns js st = Inr res"
  shows "row_to_step js (step_to_row st res) = Inr st"
  by (cases st) (use step_columns_read [OF assms] in \<open>simp add: row_to_step_def step_to_row_def\<close>)

lemma updated_step_row_step:
  assumes "codec_law js" "step_columns js st = Inr res" "sr_id r = st_id st"
  shows "row_to_step js (updated_step_row now st res r)
    = Inr (st\<lparr>st_flow_id := sr_flow_id r, st_created_at := sr_created_at r, st_updated_at := now\<rparr>)"
  by (cases st) (use step_columns_read [OF assms(1,2)] assms(3) in
    \<open>simp add: row_to_step_def updated_step_row_def\<close>)

subsection \<open>The operations keep the store well-formed\<close>

lemma find_flow_wf: "flow_db_wf js s \<Longrightarrow> find_flow i s = Some r \<longleftrightarrow> r \<in> set (db_flows s) \<and> fr_id r = i"
  unfolding find_flow_def by (rule find_distinct) (simp add: flow_db_wf_def)

lemma find_flow_None: "find_flow i s = None \<longleftrightarrow> i \<notin> fr_id ` set (db_flows s)"
  unfolding find_flow_def by (rule find_key_None)

lemma updated_row_id [simp]: "fr_id (updated_row now f cols r) = fr_id r"
  by (simp add: updated_row_def)

lemma update_flow_rows_parts [simp]:
  "db_steps (update_flow_rows now f cols s) = db_steps s"
  "db_events (update_flow_rows now f cols s) = db_events s"
  "db_next_event (update_flow_rows now f cols s) = db_next_event s"
  "map fr_id (db_flows (update_flow_rows now f cols s)) = map fr_id (db_flows s)"
  by (auto simp: update_flow_rows_def)

lemma update_flow_rows_ids [simp]:
  "fr_id ` set (db_flows (update_flow_rows now f cols s)) = fr_id ` set (db_flows s)"
  by (metis set_map update_flow_rows_parts(4))

lemma find_flow_update:
  "find_flow i (update_flow_rows now f cols s)
     = map_option (\<lambda>r. if update_hits f r then updated_row now f cols r else r) (find_flow i s)"
  unfolding find_flow_def update_flow_rows_def by (simp add: find_map_same_key)

lemma insert_event_row_parts [simp]:
  "db_flows (insert_event_row now i k p s) = db_flows s"
  "db_steps (insert_event_row now i k p s) = db_steps s"
  "find_flow j (insert_event_row now i k p s) = find_flow j s"
  by (simp_all add: insert_event_row_def find_flow_def)

lemma updated_row_ok:
  "codec_law js \<Longrightarrow> flow_columns js f = Inr cols \<Longrightarrow> update_hits f r \<Longrightarrow> row_ok js (updated_row now f cols r)"
  by (simp add: row_ok_def updated_row_flow update_hits_def)

lemma update_flow_rows_wf [inv_rules]:
  assumes "codec_law js" "flow_columns js f = Inr cols" "flow_db_wf js s"
  shows "flow_db_wf js (update_flow_rows now f cols s)"
proof -
  have "\<forall>r \<in> set (db_flows (update_flow_rows now f cols s)). row_ok js r"
    using assms updated_row_ok [OF assms(1,2)] by (auto simp: update_flow_rows_def flow_db_wf_def)
  with assms(3) show ?thesis by (simp add: flow_db_wf_def)
qed

lemma insert_event_row_wf [inv_rules]:
  assumes "flow_db_wf js s" "i \<in> fr_id ` set (db_flows s)"
  shows "flow_db_wf js (insert_event_row now i k p s)"
proof -
  have "sorted_wrt (<) (map er_id (db_events s) @ [db_next_event s])"
    using assms(1) by (auto simp: flow_db_wf_def sorted_wrt_append)
  moreover have "\<forall>r \<in> set (db_events s). er_id r < db_next_event s + 1"
    using assms(1) by (auto simp: flow_db_wf_def)
  ultimately show ?thesis using assms by (simp add: flow_db_wf_def insert_event_row_def)
qed

lemma sqlite_insert_wf [inv_rules]: "flow_db_ok js s \<Longrightarrow> flow_db_ok js (snd (sqlite_insert js db f s))"
  by (auto simp: flow_db_ok_def sqlite_insert_def flow_db_wf_def find_flow_None row_ok_def flow_row_roundtrip
      split: sum.split) (auto simp: flow_to_row_def)

lemma update_hit_present: "filter (update_hits f) rs \<noteq> [] \<Longrightarrow> fl_id f \<in> fr_id ` set rs"
  by (force simp: filter_empty_conv update_hits_def)

lemma sqlite_update_with_revision_wf [inv_rules]:
  "flow_db_ok js s \<Longrightarrow> flow_db_ok js (snd (sqlite_update_with_revision js db now f s))"
  by (auto simp: flow_db_ok_def sqlite_update_with_revision_def Let_def update_flow_rows_wf split: sum.split)

lemma sqlite_append_event_wf [inv_rules]:
  "flow_db_ok js s \<Longrightarrow> flow_db_ok js (snd (sqlite_append_event js db now i k p s))"
  by (auto simp: flow_db_ok_def sqlite_append_event_def find_flow_None insert_event_row_wf split: sum.split)

lemma uaa_tx_ok:
  assumes "update_and_append_tx js db now f k p s = Inr (f', ev, s')"
  obtains cols t r where "flow_columns js f = Inr cols" "json_column js p = Inr t"
      "filter (update_hits f) (db_flows s) \<noteq> []"
      "s' = insert_event_row now (fl_id f) k t (update_flow_rows now f cols s)"
      "find_flow (fl_id f) s' = Some r" "row_to_flow js r = Inr f'"
      "ev = \<lparr>fe_id = db_next_event s, fe_flow_id = fl_id f, fe_kind = k, fe_payload_json = p, fe_at = now\<rparr>"
  using assms unfolding update_and_append_tx_def Let_def and_then_Inr_iff
  by (auto simp: and_then_Inr_iff split: if_splits option.splits)

lemma uaa_Inl: "sqlite_update_and_append js db now f k p s = (Inl e, s') \<longleftrightarrow>
    update_and_append_tx js db now f k p s = Inl e \<and> s' = s"
  by (auto simp: sqlite_update_and_append_def split: sum.split)

lemma uaa_Inr: "sqlite_update_and_append js db now f k p s = (Inr (f', ev), s') \<longleftrightarrow>
    update_and_append_tx js db now f k p s = Inr (f', ev, s')"
  by (auto simp: sqlite_update_and_append_def split: sum.split)

lemma sqlite_update_and_append_wf [inv_rules]:
  assumes ok: "flow_db_ok js s"
  shows "flow_db_ok js (snd (sqlite_update_and_append js db now f k p s))"
proof (cases "update_and_append_tx js db now f k p s")
  case (Inl e)
  with ok show ?thesis by (simp add: sqlite_update_and_append_def)
next
  case (Inr x)
  obtain f' ev s' where x: "x = (f', ev, s')" by (cases x) auto
  from Inr [unfolded x] have "flow_db_ok js s'"
    by (rule uaa_tx_ok)
      (use ok in \<open>simp add: flow_db_ok_def insert_event_row_wf update_flow_rows_wf update_hit_present\<close>)
  with Inr x show ?thesis by (simp add: sqlite_update_and_append_def)
qed

lemma sqlite_insert_step_wf [inv_rules]:
  "flow_db_ok js s \<Longrightarrow> flow_db_ok js (snd (sqlite_insert_step js db st s))"
proof (cases "step_columns js st")
  case (Inr res)
  assume ok: "flow_db_ok js s"
  let ?s = "s\<lparr>db_steps := db_steps s @ [step_to_row st res]\<rparr>"
  show ?thesis
  proof (cases "snd (sqlite_insert_step js db st s) = s")
    case False
    then have fresh: "st_id st \<notin> sr_id ` set (db_steps s)" "st_flow_id st \<in> fr_id ` set (db_flows s)"
        "(st_flow_id st, st_run_id st) \<notin> (\<lambda>r. (sr_flow_id r, sr_run_id r)) ` set (db_steps s)"
      and s': "snd (sqlite_insert_step js db st s) = ?s"
      using Inr by (auto simp: sqlite_insert_step_def find_flow_None same_run_def split: if_splits)
    have "step_row_ok js (step_to_row st res)"
      using ok step_row_roundtrip [OF _ Inr] by (simp add: step_row_ok_def flow_db_ok_def)
    with ok fresh show ?thesis
      unfolding s' by (simp add: flow_db_ok_def flow_db_wf_def) (simp add: step_to_row_def)
  qed (use ok in simp)
qed (simp add: sqlite_insert_step_def)

lemma updated_step_row_keys [simp]:
  "sr_id (updated_step_row now st res r) = sr_id r"
  "sr_flow_id (updated_step_row now st res r) = sr_flow_id r"
  "sr_run_id (updated_step_row now st res r) = st_run_id st"
  by (simp_all add: updated_step_row_def)

lemma sqlite_update_step_wf [inv_rules]:
  assumes ok: "flow_db_ok js s"
  shows "flow_db_ok js (snd (sqlite_update_step js db now st s))"
proof (cases "snd (sqlite_update_step js db now st s) = s")
  case False
  let ?g = "\<lambda>res r. if sr_id r = st_id st then updated_step_row now st res r else r"
  from False obtain res old where res: "step_columns js st = Inr res"
      and old: "find (\<lambda>r. sr_id r = st_id st) (db_steps s) = Some old"
      and free: "\<not> run_taken (st_id st) (sr_flow_id old) (st_run_id st) s"
      and s': "snd (sqlite_update_step js db now st s) = s\<lparr>db_steps := map (?g res) (db_steps s)\<rparr>"
    by (auto simp: sqlite_update_step_def Let_def split: sum.splits option.splits if_splits)
  have wf: "flow_db_wf js s" and law: "codec_law js" using ok by (simp_all add: flow_db_ok_def)
  then have dist: "distinct (map sr_id (db_steps s))"
      "distinct (map (\<lambda>r. (sr_flow_id r, sr_run_id r)) (db_steps s))" by (simp_all add: flow_db_wf_def)
  have old_row: "sr_flow_id r = sr_flow_id old" if "r \<in> set (db_steps s)" "sr_id r = st_id st" for r
  proof -
    have "find (\<lambda>r. sr_id r = st_id st) (db_steps s) = Some r" using that by (simp add: find_distinct [OF dist(1)])
    with old show ?thesis by simp
  qed
  have runs: "distinct (map (\<lambda>r. (sr_flow_id r, sr_run_id r)) (map (?g res) (db_steps s)))"
  proof (rule distinct_map_replace [OF dist], intro ballI impI)
    fix x y
    assume x: "x \<in> set (db_steps s)" "sr_id x = st_id st" and y: "y \<in> set (db_steps s)" "sr_id y \<noteq> st_id st"
    have "(sr_flow_id y, sr_run_id y) \<noteq> (sr_flow_id old, st_run_id st)"
      using free y by (auto simp: run_taken_def same_run_def)
    then show "(sr_flow_id (updated_step_row now st res x), sr_run_id (updated_step_row now st res x))
        \<noteq> (sr_flow_id y, sr_run_id y)"
      unfolding updated_step_row_keys old_row [OF x] by metis
  qed
  have ids: "map sr_id (map (?g res) (db_steps s)) = map sr_id (db_steps s)"
    by (rule map_same_key) simp
  have "map sr_flow_id (map (?g res) (db_steps s)) = map sr_flow_id (db_steps s)"
    by (rule map_same_key) simp
  then have flows: "sr_flow_id ` set (map (?g res) (db_steps s)) = sr_flow_id ` set (db_steps s)"
    by (metis set_map)
  have parse: "\<forall>r \<in> set (map (?g res) (db_steps s)). step_row_ok js r"
    using wf by (auto simp: flow_db_wf_def step_row_ok_def updated_step_row_step [OF law res])
  show ?thesis
    using wf law dist(1) runs ids flows parse unfolding s' flow_db_ok_def flow_db_wf_def
    by (simp del: map_map set_map)
qed (use ok in simp)

lemma sorted_wrt_map_filter: "sorted_wrt R (map f xs) \<Longrightarrow> sorted_wrt R (map f (filter P xs))"
  by (induction xs) auto

lemma delete_flows_wf [inv_rules]: "flow_db_ok js s \<Longrightarrow> flow_db_ok js (delete_flows P s)"
proof -
  assume "flow_db_ok js s"
  then have wf: "flow_db_wf js s" and law: "codec_law js" by (simp_all add: flow_db_ok_def)
  have "sr_flow_id ` set (db_steps (delete_flows P s)) \<subseteq> fr_id ` set (db_flows (delete_flows P s))"
       "er_flow_id ` set (db_events (delete_flows P s)) \<subseteq> fr_id ` set (db_flows (delete_flows P s))"
    using wf by (auto simp: delete_flows_def flow_db_wf_def Let_def image_iff subset_iff) metis+
  with wf law show ?thesis
    by (simp add: flow_db_ok_def flow_db_wf_def)
      (auto simp: delete_flows_def Let_def distinct_map_filter sorted_wrt_map_filter)
qed

lemma sqlite_prune_wf [inv_rules]:
  "flow_db_ok js s \<Longrightarrow> flow_db_ok js (snd (sqlite_prune_terminal_flows db now d s))"
  by (simp add: sqlite_prune_terminal_flows_def Let_def delete_flows_wf)

lemma empty_flow_db_wf [inv_rules]: "codec_law js \<Longrightarrow> flow_db_ok js empty_flow_db"
  by (simp add: flow_db_ok_def flow_db_wf_def empty_flow_db_def)

subsection \<open>What a store promises\<close>

text \<open>The record a successful update leaves: the caller's fields, the old creation time, the next revision.\<close>

definition written :: "flow \<Rightarrow> flow \<Rightarrow> flow \<Rightarrow> bool" where
  "written f cur f' \<longleftrightarrow>
     (\<exists>t. f' = f\<lparr>fl_revision := fl_revision f + 1, fl_created_at := fl_created_at cur, fl_updated_at := t\<rparr>)"

lemma written_fields:
  "written f cur f' \<Longrightarrow> fl_revision f' = fl_revision f + 1 \<and> fl_id f' = fl_id f \<and> fl_status f' = fl_status f \<and>
     fl_cancel_requested f' = fl_cancel_requested f \<and> fl_state_json f' = fl_state_json f \<and>
     fl_wait_json f' = fl_wait_json f"
  by (auto simp: written_def)

locale revisioned_store =
  fixes ops :: "'s flow_store_ops"
    and view :: "'s \<Rightarrow> uuid \<Rightarrow> flow option"
    and events :: "'s \<Rightarrow> uuid \<Rightarrow> (string \<times> (string + json)) list"
    and ok :: "'s \<Rightarrow> bool"
  assumes view_id: "ok s \<Longrightarrow> view s i = Some f \<Longrightarrow> fl_id f = i"
    and get_view: "ok s \<Longrightarrow> op_get ops i s = Inr r \<Longrightarrow> r = view s i"
    and write_ok: "ok s \<Longrightarrow> op_update_and_append ops f k p s = (Inr (f', ev), s') \<Longrightarrow>
      \<exists>cur. view s (fl_id f) = Some cur \<and> fl_revision cur = fl_revision f \<and> written f cur f' \<and>
        view s' = (view s)(fl_id f \<mapsto> f') \<and>
        events s' = (events s)(fl_id f := events s (fl_id f) @ [(k, Inr p)])"
    and write_err: "op_update_and_append ops f k p s = (Inl e, s') \<Longrightarrow> s' = s"
    and write_conflict: "ok s \<Longrightarrow> op_update_and_append ops f k p s = (Inl (RevisionMismatch a b), s') \<Longrightarrow>
      \<exists>cur. view s (fl_id f) = Some cur \<and> fl_revision cur \<noteq> fl_revision f"
    and write_inv: "ok s \<Longrightarrow> ok (snd (op_update_and_append ops f k p s))"
begin

text \<open>A write at the current revision cannot be refused as a conflict.\<close>

lemma current_no_conflict:
  "ok s \<Longrightarrow> view s (fl_id f) = Some cur \<Longrightarrow> fl_revision cur = fl_revision f \<Longrightarrow>
     fst (op_update_and_append ops f k p s) \<noteq> Inl (RevisionMismatch a b)"
  using write_conflict [of s f k p a b "snd (op_update_and_append ops f k p s)"]
  by (cases "op_update_and_append ops f k p s") auto

end

subsection \<open>The SQLite store keeps the promise\<close>

definition flow_view :: "json_codec \<Rightarrow> flow_db \<Rightarrow> uuid \<Rightarrow> flow option" where
  "flow_view js s i =
     (case find_flow i s of
        None \<Rightarrow> None
      | Some r \<Rightarrow> (case row_to_flow js r of Inl _ \<Rightarrow> None | Inr f \<Rightarrow> Some f))"

definition flow_log :: "json_codec \<Rightarrow> flow_db \<Rightarrow> uuid \<Rightarrow> (string \<times> (string + json)) list" where
  "flow_log js s i =
     map (\<lambda>r. (er_kind r, of_text js (er_payload_json r))) (filter (\<lambda>r. er_flow_id r = i) (db_events s))"

lemma row_to_flow_fields:
  "row_to_flow js r = Inr f \<Longrightarrow> fl_id f = fr_id r \<and> fl_revision f = fr_revision r \<and> fl_created_at f = fr_created_at r
     \<and> fr_status r = flow_status_str (fl_status f)"
  by (auto simp: row_to_flow_def and_then_Inr_iff parse_text_def flow_status_of_str_Some split: option.splits)

lemma row_ok_iff: "row_ok js r \<longleftrightarrow> (\<exists>f. row_to_flow js r = Inr f)"
  by (cases "row_to_flow js r") (auto simp: row_ok_def)

lemma find_flow_parses:
  "flow_db_wf js s \<Longrightarrow> find_flow i s = Some r \<Longrightarrow> \<exists>f. row_to_flow js r = Inr f"
  by (auto simp: find_flow_wf) (auto simp: flow_db_wf_def row_ok_iff)

lemma flow_view_Some:
  "flow_db_wf js s \<Longrightarrow> flow_view js s i = Some f \<longleftrightarrow> (\<exists>r. find_flow i s = Some r \<and> row_to_flow js r = Inr f)"
  using find_flow_parses [of js s i] by (auto simp: flow_view_def split: option.splits sum.splits)

lemma flow_view_None: "flow_db_wf js s \<Longrightarrow> flow_view js s i = None \<longleftrightarrow> find_flow i s = None"
  using find_flow_parses [of js s i] by (auto simp: flow_view_def split: option.splits sum.splits)

lemma flow_view_id: "flow_db_wf js s \<Longrightarrow> flow_view js s i = Some f \<Longrightarrow> fl_id f = i"
  by (auto simp: flow_view_Some find_flow_wf dest: row_to_flow_fields)

lemma sqlite_get_view:
  "flow_db_wf js s \<Longrightarrow> sqlite_get js db i s = Inr r \<Longrightarrow> r = flow_view js s i"
  using find_flow_parses [of js s i]
  by (auto simp: sqlite_get_def flow_view_def split: option.splits if_splits)

lemma sqlite_get_up:
  "flow_db_wf js s \<Longrightarrow> db SelectFlow \<Longrightarrow> sqlite_get js db i s = Inr (flow_view js s i)"
  using find_flow_parses [of js s i] by (auto simp: sqlite_get_def flow_view_def split: option.splits)

text \<open>The update hits the one row with the id, when its revision is the expected one.\<close>

lemma update_hits_find:
  assumes "flow_db_wf js s"
  shows "filter (update_hits f) (db_flows s) \<noteq> [] \<longleftrightarrow>
    (\<exists>r. find_flow (fl_id f) s = Some r \<and> fr_revision r = fl_revision f)"
  by (auto simp: filter_empty_conv update_hits_def find_flow_wf [OF assms])

lemma update_flow_rows_view:
  assumes ok: "flow_db_ok js s" and cols: "flow_columns js f = Inr cols"
    and r: "find_flow (fl_id f) s = Some r" "fr_revision r = fl_revision f"
  shows "flow_view js (update_flow_rows now f cols s)
    = (flow_view js s)(fl_id f \<mapsto> f\<lparr>fl_revision := fl_revision f + 1, fl_created_at := fr_created_at r, fl_updated_at := now\<rparr>)"
proof
  fix i
  have law: "codec_law js" and wf: "flow_db_wf js s" using ok by (simp_all add: flow_db_ok_def)
  have id: "fr_id r = fl_id f" using r(1) by (simp add: find_flow_wf [OF wf])
  show "flow_view js (update_flow_rows now f cols s) i = ((flow_view js s)(fl_id f \<mapsto>
      f\<lparr>fl_revision := fl_revision f + 1, fl_created_at := fr_created_at r, fl_updated_at := now\<rparr>)) i"
  proof (cases "i = fl_id f")
    case True
    with r id updated_row_flow [OF law cols id] show ?thesis
      by (simp add: flow_view_def find_flow_update update_hits_def)
  next
    case False
    have "\<not> update_hits f r'" if "find_flow i s = Some r'" for r'
      using that False by (auto simp: find_flow_wf [OF wf] update_hits_def)
    with False show ?thesis
      by (auto simp: flow_view_def find_flow_update split: option.split)
  qed
qed

lemma insert_event_row_view [simp]: "flow_view js (insert_event_row now i k p s) = flow_view js s"
  by (simp add: flow_view_def fun_eq_iff)

lemma insert_event_row_log:
  "flow_log js (insert_event_row now i k t s) = (flow_log js s)(i := flow_log js s i @ [(k, of_text js t)])"
  by (rule ext) (simp add: flow_log_def insert_event_row_def)

lemma update_flow_rows_log [simp]: "flow_log js (update_flow_rows now f cols s) = flow_log js s"
  by (simp add: flow_log_def fun_eq_iff)

lemma sqlite_write_ok:
  assumes ok: "flow_db_ok js s"
    and run: "sqlite_update_and_append js db now f k p s = (Inr (f', ev), s')"
  shows "\<exists>cur. flow_view js s (fl_id f) = Some cur \<and> fl_revision cur = fl_revision f \<and> written f cur f' \<and>
     flow_view js s' = (flow_view js s)(fl_id f \<mapsto> f') \<and>
     flow_log js s' = (flow_log js s)(fl_id f := flow_log js s (fl_id f) @ [(k, Inr p)])"
proof -
  have law: "codec_law js" and wf: "flow_db_wf js s" using ok by (simp_all add: flow_db_ok_def)
  from run [unfolded uaa_Inr] obtain cols t r where cols: "flow_columns js f = Inr cols"
    and t: "json_column js p = Inr t" and hit: "filter (update_hits f) (db_flows s) \<noteq> []"
    and s': "s' = insert_event_row now (fl_id f) k t (update_flow_rows now f cols s)"
    and r: "find_flow (fl_id f) s' = Some r" and f': "row_to_flow js r = Inr f'"
    by (rule uaa_tx_ok)
  from hit obtain r0 where r0: "find_flow (fl_id f) s = Some r0" "fr_revision r0 = fl_revision f"
    unfolding update_hits_find [OF wf] by blast
  obtain cur where cur: "row_to_flow js r0 = Inr cur" using find_flow_parses [OF wf r0(1)] by blast
  have view: "flow_view js s' = (flow_view js s)(fl_id f \<mapsto> f\<lparr>fl_revision := fl_revision f + 1,
      fl_created_at := fr_created_at r0, fl_updated_at := now\<rparr>)"
    unfolding s' insert_event_row_view by (rule update_flow_rows_view [OF ok cols r0])
  have "flow_view js s' (fl_id f) = Some f'" using r f' by (simp add: flow_view_def)
  with view have f'_eq: "f' = f\<lparr>fl_revision := fl_revision f + 1, fl_created_at := fr_created_at r0, fl_updated_at := now\<rparr>"
    by simp
  have "of_text js t = Inr p" using law t by (auto simp: codec_law_def json_column_def split: sum.splits)
  then have "flow_log js s' = (flow_log js s)(fl_id f := flow_log js s (fl_id f) @ [(k, Inr p)])"
    by (simp add: s' insert_event_row_log)
  with view f'_eq cur r0 row_to_flow_fields [OF cur] show ?thesis
    by (intro exI [of _ cur]) (auto simp: flow_view_def written_def)
qed

lemma and_then_Inl_iff: "and_then m g = Inl e \<longleftrightarrow> m = Inl e \<or> (\<exists>x. m = Inr x \<and> g x = Inl e)"
  by (cases m) auto

text \<open>A conflict is reported only when the revision moved on.\<close>

lemma columns_no_conflict:
  "flow_columns js f \<noteq> Inl (RevisionMismatch a b)" "json_column js p \<noteq> Inl (RevisionMismatch a b)"
  "run_stmt db q \<noteq> Inl (RevisionMismatch a b)" "row_to_flow js r \<noteq> Inl (RevisionMismatch a b)"
  by (auto simp: flow_columns_def json_column_def opt_json_column_def run_stmt_def row_to_flow_def
      and_then_Inl_iff parse_column_def parse_opt_column_def parse_text_def
      split: sum.splits option.splits)

lemma sqlite_conflict:
  assumes ok: "flow_db_ok js s"
    and run: "sqlite_update_and_append js db now f k p s = (Inl (RevisionMismatch a b), s')"
  shows "\<exists>cur. flow_view js s (fl_id f) = Some cur \<and> a = fl_revision f \<and> b = fl_revision cur \<and> fl_revision cur \<noteq> fl_revision f"
proof -
  have wf: "flow_db_wf js s" using ok by (simp add: flow_db_ok_def)
  have "filter (update_hits f) (db_flows s) = []" "explain_miss js db f s = RevisionMismatch a b"
    using run [unfolded uaa_Inl update_and_append_tx_def and_then_Inl_iff Let_def]
    by (auto simp: columns_no_conflict and_then_Inl_iff split: if_splits option.splits)
  then obtain cur where get: "sqlite_get js db (fl_id f) s = Inr (Some cur)"
      and ab: "a = fl_revision f" "b = fl_revision cur"
    by (auto simp: explain_miss_def sqlite_get_def and_then_Inl_iff columns_no_conflict
        split: sum.splits option.splits if_splits)
  have view: "flow_view js s (fl_id f) = Some cur" using sqlite_get_view [OF wf get] by simp
  then obtain r where "find_flow (fl_id f) s = Some r" "row_to_flow js r = Inr cur"
    unfolding flow_view_Some [OF wf] by blast
  with \<open>filter (update_hits f) (db_flows s) = []\<close> update_hits_find [OF wf, of f]
  have "fl_revision cur \<noteq> fl_revision f" using row_to_flow_fields [of js r cur] by simp
  with view ab show ?thesis by blast
qed

lemma flow_db_ok_wf: "flow_db_ok js s \<Longrightarrow> flow_db_wf js s"
  by (simp add: flow_db_ok_def)

lemma sqlite_ops_sel [simp]:
  "op_get (sqlite_ops js db now) = sqlite_get js db"
  "op_update_and_append (sqlite_ops js db now) = sqlite_update_and_append js db now"
  "op_append_event (sqlite_ops js db now) = sqlite_append_event js db now"
  "op_insert (sqlite_ops js db now) = sqlite_insert js db"
  "op_list_by_status (sqlite_ops js db now) = sqlite_list_by_status js db"
  "op_list_by_owner (sqlite_ops js db now) = sqlite_list_by_owner js db"
  "op_insert_step (sqlite_ops js db now) = sqlite_insert_step js db"
  "op_update_step (sqlite_ops js db now) = sqlite_update_step js db now"
  "op_find_step (sqlite_ops js db now) = sqlite_find_step js db"
  by (simp_all add: sqlite_ops_def)

interpretation sqlite: revisioned_store "sqlite_ops js db now" "flow_view js" "flow_log js" "flow_db_ok js"
  for js db now
proof (unfold_locales, unfold sqlite_ops_sel)
  fix s i f assume "flow_db_ok js s" "flow_view js s i = Some f"
  then show "fl_id f = i" by (metis flow_db_ok_wf flow_view_id)
next
  fix s i r assume "flow_db_ok js s" "sqlite_get js db i s = Inr r"
  then show "r = flow_view js s i" by (metis flow_db_ok_wf sqlite_get_view)
qed (simp_all add: uaa_Inl [THEN iffD1] sqlite_write_ok sqlite_update_and_append_wf, use sqlite_conflict in blast)

subsection \<open>What every writer does to a flow\<close>

text \<open>
  A flow's record is replaced only by one of a later revision, and a flow that is gone stays gone:
  the id of a new flow is fresh, so no insert brings back the id at hand.
\<close>

fun revised :: "flow option \<Rightarrow> flow option \<Rightarrow> bool" where
  "revised (Some f) (Some g) = (g = f \<or> fl_revision f < fl_revision g)"
| "revised None (Some g) = False"
| "revised _ None = True"

lemma revised_refl: "revised v v"
  by (cases v) auto

lemma revised_trans: "revised a b \<Longrightarrow> revised b c \<Longrightarrow> revised a c"
  by (cases a; cases b; cases c) auto

inductive store_step :: "json_codec \<Rightarrow> uuid \<Rightarrow> flow_db \<Rightarrow> flow_db \<Rightarrow> bool" for js i where
  store_insert: "fl_id f \<noteq> i \<Longrightarrow> store_step js i s (snd (sqlite_insert js db f s))"
| store_update: "store_step js i s (snd (sqlite_update_with_revision js db now f s))"
| store_update_append: "store_step js i s (snd (sqlite_update_and_append js db now f k p s))"
| store_event: "store_step js i s (snd (sqlite_append_event js db now j k p s))"
| store_insert_step: "store_step js i s (snd (sqlite_insert_step js db st s))"
| store_update_step: "store_step js i s (snd (sqlite_update_step js db now st s))"
| store_prune: "store_step js i s (snd (sqlite_prune_terminal_flows db now d s))"

lemma store_step_ok: "store_step js i s s' \<Longrightarrow> flow_db_ok js s \<Longrightarrow> flow_db_ok js s'"
  by (induction rule: store_step.induct) (auto intro: inv_rules)

lemma flow_view_steps: "db_flows s' = db_flows s \<Longrightarrow> flow_view js s' = flow_view js s"
  by (rule ext) (simp add: flow_view_def find_flow_def)

lemma revised_steps_only: "db_flows s' = db_flows s \<Longrightarrow> revised (flow_view js s i) (flow_view js s' i)"
  using flow_view_steps [of s' s js] by (simp add: revised_refl)

lemma insert_revised:
  "fl_id f \<noteq> i \<Longrightarrow> revised (flow_view js s i) (flow_view js (snd (sqlite_insert js db f s)) i)"
  by (auto simp: sqlite_insert_def flow_view_def find_flow_def find_append flow_to_row_def revised_refl
      split: sum.split option.split)

lemma update_rows_revised:
  assumes ok: "flow_db_ok js s" and cols: "flow_columns js f = Inr cols"
    and hit: "filter (update_hits f) (db_flows s) \<noteq> []"
  shows "revised (flow_view js s i) (flow_view js (update_flow_rows now f cols s) i)"
proof -
  have wf: "flow_db_wf js s" using ok by (simp add: flow_db_ok_def)
  from hit obtain r where r: "find_flow (fl_id f) s = Some r" "fr_revision r = fl_revision f"
    unfolding update_hits_find [OF wf] by blast
  obtain cur where cur: "row_to_flow js r = Inr cur" using find_flow_parses [OF wf r(1)] by blast
  then have "flow_view js s (fl_id f) = Some cur" "fl_revision cur = fl_revision f"
    using r row_to_flow_fields [OF cur] by (auto simp: flow_view_def)
  then show ?thesis
    unfolding update_flow_rows_view [OF ok cols r] by (cases "i = fl_id f") (auto simp: revised_refl)
qed

lemma update_revised:
  assumes "flow_db_ok js s"
  shows "revised (flow_view js s i) (flow_view js (snd (sqlite_update_with_revision js db now f s)) i)"
  using update_rows_revised [OF assms, of f]
  by (auto simp: sqlite_update_with_revision_def Let_def revised_refl split: sum.split)

lemma update_append_revised:
  assumes ok: "flow_db_ok js s"
  shows "revised (flow_view js s i) (flow_view js (snd (sqlite_update_and_append js db now f k p s)) i)"
proof (cases "sqlite_update_and_append js db now f k p s")
  case (Pair res s')
  show ?thesis
  proof (cases res)
    case (Inl e)
    with Pair have "s' = s" by (simp add: uaa_Inl)
    with Pair show ?thesis by (simp add: revised_refl)
  next
    case (Inr x)
    obtain f' ev where "x = (f', ev)" by (cases x)
    with Pair Inr have "sqlite_update_and_append js db now f k p s = (Inr (f', ev), s')" by simp
    from sqlite_write_ok [OF ok this] obtain cur where cur: "flow_view js s (fl_id f) = Some cur"
        "fl_revision cur = fl_revision f" "written f cur f'" "flow_view js s' = (flow_view js s)(fl_id f \<mapsto> f')"
      by blast
    with written_fields [OF cur(3)] Pair show ?thesis by (cases "i = fl_id f") (simp_all add: revised_refl)
  qed
qed

lemma find_filter_same_key:
  "find (\<lambda>x. f x = k) xs = Some x \<Longrightarrow> distinct (map f xs) \<Longrightarrow>
     find (\<lambda>x. f x = k) (filter P xs) = (if P x then Some x else None)"
  by (induction xs) (auto simp: find_None_iff image_iff split: if_splits)

lemma delete_flows_view:
  assumes "flow_db_wf js s"
  shows "flow_view js (delete_flows P s) i =
    (case find_flow i s of Some r \<Rightarrow> if P r then None else flow_view js s i | None \<Rightarrow> None)"
proof (cases "find_flow i s")
  case None
  then have "find_flow i (delete_flows P s) = None"
    by (auto simp: find_flow_None delete_flows_def Let_def)
  with None show ?thesis by (simp add: flow_view_def)
next
  case (Some r)
  have "distinct (map fr_id (db_flows s))" using assms by (simp add: flow_db_wf_def)
  with Some have "find_flow i (delete_flows P s) = (if P r then None else Some r)"
    unfolding find_flow_def delete_flows_def Let_def by (simp add: find_filter_same_key)
  with Some show ?thesis by (simp add: flow_view_def)
qed

lemma store_step_revised:
  assumes "store_step js i s s'" "flow_db_ok js s"
  shows "revised (flow_view js s i) (flow_view js s' i)"
  using assms
proof (induction rule: store_step.induct)
  case (store_insert f s db)
  then show ?case by (simp add: insert_revised)
next
  case (store_update s db now f)
  then show ?case by (simp add: update_revised)
next
  case (store_update_append s db now f k p)
  then show ?case by (simp add: update_append_revised)
next
  case (store_event s db now j k p)
  show ?case
    by (rule revised_steps_only) (simp add: sqlite_append_event_def split: sum.split)
next
  case (store_insert_step s db st)
  show ?case
    by (rule revised_steps_only) (simp add: sqlite_insert_step_def split: sum.split)
next
  case (store_update_step s db now st)
  show ?case
    by (rule revised_steps_only) (simp add: sqlite_update_step_def Let_def split: sum.split option.split)
next
  case (store_prune s db now d)
  then have "flow_db_wf js s" by (simp add: flow_db_ok_def)
  then show ?case
    by (cases "flow_view js s i")
      (auto simp: sqlite_prune_terminal_flows_def Let_def delete_flows_view flow_view_None revised_refl
        split: option.split)
qed

subsection \<open>Properties\<close>

lemma sqlite_write_up:
  assumes ok: "flow_db_ok js s"
    and 2: "flow_view js s (fl_id f) = Some cur \<and> (\<forall>q. db q) \<and> \<not> isl (flow_columns js f) \<and> \<not> isl (json_column js p)"
    and run: "sqlite_update_and_append js db now f k p s = (res, s')"
  shows "if fl_revision cur = fl_revision f then \<not> isl res
    else res = Inl (RevisionMismatch (fl_revision f) (fl_revision cur))"
proof -
  have up: "\<And>q. db q" and view: "flow_view js s (fl_id f) = Some cur"
    and enc: "\<not> isl (flow_columns js f)" "\<not> isl (json_column js p)"
    using 2 by auto
  obtain cols t where cols: "flow_columns js f = Inr cols" "json_column js p = Inr t"
    using enc by (metis isl_def sum.exhaust)
  have wf: "flow_db_wf js s" and law: "codec_law js" using ok by (simp_all add: flow_db_ok_def)
  obtain r where r: "find_flow (fl_id f) s = Some r" "row_to_flow js r = Inr cur"
    using view unfolding flow_view_Some [OF wf] by blast
  have rev: "fl_revision cur = fr_revision r" using row_to_flow_fields [OF r(2)] by simp
  have up' [simp]: "run_stmt db q = Inr ()" for q by (simp add: run_stmt_def up)
  show ?thesis
  proof (cases "fl_revision cur = fl_revision f")
    case True
    then have hit: "filter (update_hits f) (db_flows s) \<noteq> []"
      using r(1) rev unfolding update_hits_find [OF wf] by auto
    have id: "fr_id r = fl_id f" using r(1) by (simp add: find_flow_wf [OF wf])
    from updated_row_flow [OF law cols(1) this] id True r rev run cols hit show ?thesis
      by (auto simp: sqlite_update_and_append_def update_and_append_tx_def Let_def find_flow_update
          update_hits_def)
  next
    case False
    then have "filter (update_hits f) (db_flows s) = []"
      using r(1) rev update_hits_find [OF wf, of f] by auto
    with False r run cols up show ?thesis
      by (auto simp: sqlite_update_and_append_def update_and_append_tx_def explain_miss_def sqlite_get_def)
  qed
qed

text \<open>C5. The revision-checked update commits atomically with its audit event.  Whatever statements
  fail: on an error the store is exactly as before; on success the caller's revision was current, the flow now holds
  the caller's fields at the next revision, exactly one event is appended to its log, and no other flow or log
  changes.  Without faults it succeeds at the current revision and reports a conflict at any other.\<close>

theorem update_and_append_atomic:
  assumes ok: "flow_db_ok js s"
    and run: "sqlite_update_and_append js db now f k p s = (res, s')"
  shows "(case res of
       Inl e \<Rightarrow> s' = s
     | Inr (f', ev) \<Rightarrow> \<exists>cur. flow_view js s (fl_id f) = Some cur \<and> fl_revision cur = fl_revision f \<and>
         written f cur f' \<and> flow_view js s' = (flow_view js s)(fl_id f \<mapsto> f') \<and>
         flow_log js s' = (flow_log js s)(fl_id f := flow_log js s (fl_id f) @ [(k, Inr p)])) \<and>
    (\<forall>cur. flow_view js s (fl_id f) = Some cur \<and> (\<forall>q. db q) \<and> \<not> isl (flow_columns js f) \<and> \<not> isl (json_column js p) \<longrightarrow>
       (if fl_revision cur = fl_revision f then \<not> isl res
        else res = Inl (RevisionMismatch (fl_revision f) (fl_revision cur))))"
proof (intro conjI allI impI, goal_cases)
  case 1
  show ?case
  proof (cases res)
    case (Inl e)
    with run sqlite.write_err [of js db now f k p s e s'] show ?thesis by simp
  next
    case (Inr x)
    obtain f' ev where "x = (f', ev)" by (cases x)
    with Inr run sqlite.write_ok [OF ok, of db now f k p f' ev s'] show ?thesis by simp
  qed
qed (use sqlite_write_up [OF ok _ run] in blast)

text \<open>A codec over one document, to instantiate the parameter.\<close>

definition null_codec :: json_codec where
  "null_codec = \<lparr>to_text = (\<lambda>v. if v = JObject [] then Inr ''{}'' else Inl ''unsupported''),
     of_text = (\<lambda>t. if t = ''{}'' then Inr (JObject []) else Inl ''syntax'')\<rparr>"

lemma null_codec_law: "codec_law null_codec"
  by (auto simp: codec_law_def null_codec_def split: if_splits)

lemma sample_columns: "flow_columns null_codec sample_flow = Inr (''{}'', None)"
  by (simp add: flow_columns_def json_column_def opt_json_column_def null_codec_def sample_flow_def)

definition sample_flow_db :: flow_db where
  "sample_flow_db = snd (sqlite_insert null_codec (\<lambda>_. True) sample_flow empty_flow_db)"

lemma sample_flow_db_ok: "flow_db_ok null_codec sample_flow_db"
  unfolding sample_flow_db_def by (intro sqlite_insert_wf empty_flow_db_wf null_codec_law)

lemma sample_flow_db_rows: "sample_flow_db = empty_flow_db\<lparr>db_flows := [flow_to_row sample_flow (''{}'', None)]\<rparr>"
  by (simp add: sample_flow_db_def sqlite_insert_def sample_columns find_flow_def empty_flow_db_def)

lemma insert_first_view:
  "codec_law js \<Longrightarrow> flow_columns js f = Inr cols \<Longrightarrow> db InsertFlow \<Longrightarrow>
     flow_view js (snd (sqlite_insert js db f empty_flow_db)) (fl_id f) = Some f"
  using flow_row_roundtrip [of js f cols]
  by (simp add: flow_view_def sqlite_insert_def find_flow_def empty_flow_db_def) (simp add: flow_to_row_def)

lemma insert_first_only:
  "flow_view js (snd (sqlite_insert js db f empty_flow_db)) i = Some g \<Longrightarrow> i = fl_id f"
  by (auto simp: flow_view_def sqlite_insert_def find_flow_def empty_flow_db_def flow_to_row_def
      split: sum.splits if_splits)

lemma sample_view: "flow_view null_codec sample_flow_db (Uuid 1) = Some sample_flow"
  using flow_row_roundtrip [OF null_codec_law sample_columns]
  by (simp add: flow_view_def sample_flow_db_rows find_flow_def flow_to_row_def sample_flow_def)

theorem update_and_append_atomic_witness:
  "\<not> isl (fst (sqlite_update_and_append null_codec (\<lambda>_. True) 9 sample_flow ''k'' (JObject []) sample_flow_db)) \<and>
   fst (sqlite_update_and_append null_codec (\<lambda>_. True) 9 (sample_flow\<lparr>fl_revision := 5\<rparr>) ''k'' (JObject []) sample_flow_db)
     = Inl (RevisionMismatch 5 0)"
proof -
  have id: "fl_id sample_flow = Uuid 1" and rev: "fl_revision sample_flow = 0" by (simp_all add: sample_flow_def)
  have p: "\<not> isl (json_column null_codec (JObject []))" by (simp add: json_column_def null_codec_def)
  have c: "\<not> isl (flow_columns null_codec (sample_flow\<lparr>fl_revision := n\<rparr>))" for n
    using sample_columns by (simp add: flow_columns_def)
  show ?thesis
    using update_and_append_atomic [OF sample_flow_db_ok surjective_pairing, THEN conjunct2, rule_format,
        of sample_flow sample_flow "\<lambda>_. True" "JObject []" 9 "''k''"]
      update_and_append_atomic [OF sample_flow_db_ok surjective_pairing, THEN conjunct2, rule_format,
        of "sample_flow\<lparr>fl_revision := 5\<rparr>" sample_flow "\<lambda>_. True" "JObject []" 9 "''k''"]
      sample_view p c [of 5] sample_columns
    by (simp add: id rev)
qed

text \<open>A flow that was inserted is read back as it was, and the insert changes no other flow.\<close>

theorem flow_insert_roundtrip:
  assumes ok: "flow_db_ok js s" and run: "sqlite_insert js db f s = (Inr (), s')" and up: "db' SelectFlow"
  shows "sqlite_get js db' (fl_id f) s' = Inr (Some f) \<and>
    (\<forall>i. i \<noteq> fl_id f \<longrightarrow> sqlite_get js db' i s' = sqlite_get js db' i s)"
proof -
  have law: "codec_law js" using ok by (simp add: flow_db_ok_def)
  from run obtain cols where cols: "flow_columns js f = Inr cols" and new: "find_flow (fl_id f) s = None"
    and s': "s' = s\<lparr>db_flows := db_flows s @ [flow_to_row f cols]\<rparr>"
    by (auto simp: sqlite_insert_def split: sum.splits if_splits)
  have id: "fr_id (flow_to_row f cols) = fl_id f" by (simp add: flow_to_row_def)
  have "find_flow (fl_id f) s' = Some (flow_to_row f cols)"
    using new by (simp add: s' find_flow_def find_append id)
  moreover have "find_flow i s' = find_flow i s" if "i \<noteq> fl_id f" for i
    using that by (simp add: s' find_flow_def find_append id split: option.split)
  ultimately show ?thesis
    using up flow_row_roundtrip [OF law cols] by (simp add: sqlite_get_def)
qed

theorem flow_insert_roundtrip_witness:
  "sqlite_get null_codec (\<lambda>_. True) (Uuid 1) (snd (sqlite_insert null_codec (\<lambda>_. True) sample_flow empty_flow_db))
     = Inr (Some sample_flow)"
proof -
  have "sqlite_insert null_codec (\<lambda>_. True) sample_flow empty_flow_db = (Inr (), sample_flow_db)"
    by (simp add: sqlite_insert_def sample_columns find_flow_def empty_flow_db_def sample_flow_db_rows)
  from flow_insert_roundtrip [OF empty_flow_db_wf [OF null_codec_law] this, of "\<lambda>_. True"] this
  show ?thesis by (simp add: sample_flow_def)
qed

lemma store_steps_keep:
  "(store_step js i)\<^sup>*\<^sup>* s s' \<Longrightarrow> flow_db_ok js s \<Longrightarrow>
     flow_db_ok js s' \<and> revised (flow_view js s i) (flow_view js s' i)"
  by (induction rule: rtranclp_induct)
    (auto simp: revised_refl intro: store_step_ok revised_trans store_step_revised)

text \<open>C11. However the operations of the store are interleaved, and whatever statements fail: ids stay
  unique, a flow has at most one step per run id, no step or event outlives its flow, event ids grow, every row
  can be read; and a flow's record changes only together with a larger revision.\<close>

theorem store_integrity:
  assumes run: "(store_step js i)\<^sup>*\<^sup>* s s'" and ok: "flow_db_ok js s"
  shows "flow_db_wf js s' \<and>
    (\<forall>f'. flow_view js s' i = Some f' \<longrightarrow>
       (\<exists>f. flow_view js s i = Some f \<and> (f' = f \<or> fl_revision f < fl_revision f')))"
  using store_steps_keep [OF run ok]
  by (cases "flow_view js s i"; cases "flow_view js s' i") (auto simp: flow_db_ok_def)

theorem store_integrity_witness:
  "flow_db_wf null_codec (snd (sqlite_prune_terminal_flows (\<lambda>_. True) 9 0 sample_flow_db))"
proof -
  have "(store_step null_codec (Uuid 1))\<^sup>*\<^sup>* sample_flow_db (snd (sqlite_prune_terminal_flows (\<lambda>_. True) 9 0 sample_flow_db))"
    by (rule r_into_rtranclp, rule store_prune)
  from store_integrity [OF this sample_flow_db_ok] show ?thesis by simp
qed

text \<open>Pruning removes exactly the terminal flows last updated before the cutoff and reports how many,
  keeps every other flow as it was, and leaves no step or event of a removed flow and every step and event of
  the others.\<close>

theorem prune_removes_exactly_old_terminal_flows:
  assumes ok: "flow_db_ok js s" and up: "db DeleteFlows"
  shows "let (res, s') = sqlite_prune_terminal_flows db now days s;
             cutoff = now - max days 0 * day;
             old = (\<lambda>i. \<exists>f. flow_view js s i = Some f \<and> is_terminal (fl_status f) \<and> fl_updated_at f < cutoff)
         in (\<forall>i. flow_view js s' i = (if old i then None else flow_view js s i)) \<and>
            res = Inr (length (db_flows s) - length (db_flows s')) \<and>
            db_steps s' = filter (\<lambda>r. \<not> old (sr_flow_id r)) (db_steps s) \<and>
            db_events s' = filter (\<lambda>r. \<not> old (er_flow_id r)) (db_events s)"
proof -
  let ?c = "now - max days 0 * day"
  let ?old = "\<lambda>i. \<exists>f. flow_view js s i = Some f \<and> is_terminal (fl_status f) \<and> fl_updated_at f < ?c"
  have wf: "flow_db_wf js s" using ok by (simp add: flow_db_ok_def)
  have upd: "fl_updated_at f = fr_updated_at r" if "row_to_flow js r = Inr f" for r f
    using that by (auto simp: row_to_flow_def and_then_Inr_iff)
  have tm: "prunable ?c r \<longleftrightarrow> is_terminal (fl_status f) \<and> fl_updated_at f < ?c"
    if "row_to_flow js r = Inr f" for r f
    using row_to_flow_fields [OF that] upd [OF that]
    by (cases "fl_status f") (auto simp: prunable_def is_terminal_def)
  have old: "?old i \<longleftrightarrow> (\<exists>r. find_flow i s = Some r \<and> prunable ?c r)" for i
    using find_flow_parses [OF wf, of i] tm by (auto simp: flow_view_Some [OF wf])
  have gone: "i \<in> fr_id ` set (filter (prunable ?c) (db_flows s)) \<longleftrightarrow> ?old i" for i
    unfolding old by (auto simp: find_flow_wf [OF wf])
  have "flow_view js (delete_flows (prunable ?c) s) i = (if ?old i then None else flow_view js s i)" for i
    unfolding old delete_flows_view [OF wf] by (auto simp: flow_view_def split: option.split)
  moreover have "length (filter (prunable ?c) (db_flows s))
      = length (db_flows s) - length (db_flows (delete_flows (prunable ?c) s))"
    using sum_length_filter_compl [of "prunable ?c" "db_flows s"] by (simp add: delete_flows_def Let_def)
  moreover have "db_steps (delete_flows (prunable ?c) s) = filter (\<lambda>r. \<not> ?old (sr_flow_id r)) (db_steps s)"
    "db_events (delete_flows (prunable ?c) s) = filter (\<lambda>r. \<not> ?old (er_flow_id r)) (db_events s)"
    unfolding delete_flows_def Let_def gone by simp_all
  ultimately show ?thesis using up by (simp add: sqlite_prune_terminal_flows_def Let_def)
qed

theorem prune_removes_exactly_old_terminal_flows_witness:
  "flow_view null_codec (snd (sqlite_prune_terminal_flows (\<lambda>_. True) 9 0 sample_flow_db)) (Uuid 1)
     = Some sample_flow"
  using prune_removes_exactly_old_terminal_flows [OF sample_flow_db_ok, of "\<lambda>_. True" 9 0] sample_view
  by (simp add: case_prod_unfold Let_def is_terminal_def sample_flow_def)

subsection \<open>Every stored row reads back\<close>

lemma collect_all:
  assumes "\<forall>x \<in> set xs. \<not> isl (g x)"
  shows "\<exists>ys. collect_results (map g xs) = Inr ys \<and> map g xs = map Inr ys"
proof -
  have "map g xs = map Inr (map (\<lambda>x. projr (g x)) xs)"
    using assms by (auto simp: isl_def split: sum.split_asm)
  then show ?thesis using collect_results_Inr [of g xs] by blast
qed

lemma read_flow_fields:
  "row_to_flow js r = Inr f \<Longrightarrow>
     fl_id f = fr_id r \<and> fl_owner_session_key f = fr_owner_session_key r \<and> fr_status r = flow_status_str (fl_status f)"
  by (auto simp: row_to_flow_def and_then_Inr_iff parse_text_def flow_status_of_str_Some split: option.splits)

lemma read_step_fields: "row_to_step js r = Inr st \<Longrightarrow> st_flow_id st = sr_flow_id r"
  by (auto simp: row_to_step_def and_then_Inr_iff)

lemma listed_rows:
  assumes "map g xs = map Inr ys" "y \<in> set ys"
  shows "\<exists>x \<in> set xs. g x = Inr y"
proof -
  have "Inr y \<in> set (map g xs)" unfolding assms(1) using assms(2) by simp
  then show ?thesis by force
qed

text \<open>C31. The text columns of the tables are always well typed: whatever sequence of store operations ran since the store was created, with whatever
  statements failing, every flow and step row parses, so that the listings never fail on a row, and they return exactly flows of the
  owner or status, and steps of the flow, they were asked for.\<close>

theorem stored_rows_read_back:
  assumes "codec_law js" and "(store_step js i)\<^sup>*\<^sup>* empty_flow_db s" and "db SelectFlows" and "db SelectSteps"
  shows "(\<exists>fs. sqlite_list_by_owner js db owner s = Inr fs \<and> (\<forall>f \<in> set fs. fl_owner_session_key f = owner)) \<and>
    (\<exists>fs. sqlite_list_by_status js db status s = Inr fs \<and> (\<forall>f \<in> set fs. fl_status f = status)) \<and>
    (\<exists>sts. sqlite_list_steps js db j s = Inr sts \<and> (\<forall>st \<in> set sts. st_flow_id st = j))"
proof -
  have "flow_db_ok js s"
    using store_steps_keep [OF assms(2) empty_flow_db_wf [OF assms(1)]] by blast
  then have rows: "\<forall>r \<in> set (db_flows s). \<not> isl (row_to_flow js r)" "\<forall>r \<in> set (db_steps s). \<not> isl (row_to_step js r)"
    by (simp_all add: flow_db_ok_def flow_db_wf_def row_ok_def step_row_ok_def)
  let ?o = "sort_key (\<lambda>r. - fr_created_at r) (filter (\<lambda>r. fr_owner_session_key r = owner) (db_flows s))"
  let ?u = "sort_key fr_updated_at (filter (\<lambda>r. fr_status r = flow_status_str status) (db_flows s))"
  let ?t = "sort_key sr_created_at (filter (\<lambda>r. sr_flow_id r = j) (db_steps s))"
  obtain fs where fs: "collect_results (map (row_to_flow js) ?o) = Inr fs" "map (row_to_flow js) ?o = map Inr fs"
    using collect_all [of ?o "row_to_flow js"] rows(1) by auto
  obtain us where us: "collect_results (map (row_to_flow js) ?u) = Inr us" "map (row_to_flow js) ?u = map Inr us"
    using collect_all [of ?u "row_to_flow js"] rows(1) by auto
  obtain ts where ts: "collect_results (map (row_to_step js) ?t) = Inr ts" "map (row_to_step js) ?t = map Inr ts"
    using collect_all [of ?t "row_to_step js"] rows(2) by auto
  have "fl_owner_session_key f = owner" if "f \<in> set fs" for f
    using listed_rows [OF fs(2) that] read_flow_fields by fastforce
  moreover have "fl_status f = status" if "f \<in> set us" for f
    using listed_rows [OF us(2) that] read_flow_fields by fastforce
  moreover have "st_flow_id st = j" if "st \<in> set ts" for st
    using listed_rows [OF ts(2) that] read_step_fields by fastforce
  ultimately show ?thesis
    using fs(1) us(1) ts(1) assms(3,4) by (simp add: sqlite_list_by_owner_def sqlite_list_by_status_def sqlite_list_steps_def)
qed

theorem stored_rows_read_back_witness:
  "\<exists>fs. sqlite_list_by_status null_codec (\<lambda>_. True) Created sample_flow_db = Inr fs \<and> (\<forall>f \<in> set fs. fl_status f = Created)"
proof -
  have "fl_id sample_flow \<noteq> Uuid 2" by (simp add: sample_flow_def)
  then have "(store_step null_codec (Uuid 2))\<^sup>*\<^sup>* empty_flow_db sample_flow_db"
    unfolding sample_flow_db_def by (intro r_into_rtranclp store_insert)
  from stored_rows_read_back [OF null_codec_law this, of "\<lambda>_. True"] show ?thesis by blast
qed

end
