(* ===== verification/Flow_Manager.thy ===== *)
theory Flow_Manager
  imports Flow_Store
begin

section \<open>The flow manager (\<open>crates/taskflow/src/manager.rs\<close>)\<close>

text \<open>
  Every mutation reads the flow, changes its own copy and writes it back under the revision it read;
  a conflict is retried once.  Between the read and the write of an attempt other tasks may use the store:
  \<open>env k\<close> is what they do to it during the attempt that has \<open>k\<close> attempts left after it.  \<open>clock k\<close> is
  what that attempt's mutation reads as the time.
\<close>

record create_input =
  ci_controller_id :: string
  ci_goal :: string
  ci_owner_session_key :: string
  ci_requester_origin :: string
  ci_current_step :: string
  ci_state_json :: json

record step_observation =
  ob_flow_id :: uuid
  ob_run_id :: string
  ob_task :: string
  ob_status :: flow_step_status
  ob_child_session_key :: "string option"
  ob_result_json :: "json option"

definition RETRY_ATTEMPTS :: nat where "RETRY_ATTEMPTS = 2"

primrec opt_json :: "json option \<Rightarrow> json" where
  "opt_json None = JNull"
| "opt_json (Some v) = v"

primrec opt_string_json :: "string option \<Rightarrow> json" where
  "opt_string_json None = JNull"
| "opt_string_json (Some t) = JString t"

text \<open>Shallow merge: two objects are merged key by key, anything else replaces the target.\<close>

fun merge_state :: "json \<Rightarrow> json \<Rightarrow> json" where
  "merge_state (JObject t) (JObject p) = JObject (foldl (\<lambda>m (k, v). json_insert k v m) t p)"
| "merge_state _ p = p"

type_synonym flow_mutation = "timestamp \<Rightarrow> flow \<Rightarrow> flow_error + flow"

fun retry_loop ::
  "'s flow_store_ops \<Rightarrow> (nat \<Rightarrow> 's \<Rightarrow> 's) \<Rightarrow> (nat \<Rightarrow> timestamp) \<Rightarrow> uuid \<Rightarrow> string \<Rightarrow> json \<Rightarrow> flow_mutation
     \<Rightarrow> nat \<Rightarrow> flow_error option \<Rightarrow> 's \<Rightarrow> (flow_error + flow) \<times> 's" where
  "retry_loop ops env clock i kind payload mutate 0 last_err s =
     (Inl (case last_err of None \<Rightarrow> InvalidData ''retry exhausted'' | Some e \<Rightarrow> e), s)"
| "retry_loop ops env clock i kind payload mutate (Suc k) last_err s =
     (case op_get ops i s of
        Inl e \<Rightarrow> (Inl e, s)
      | Inr None \<Rightarrow> (Inl (NotFound i), s)
      | Inr (Some cur) \<Rightarrow>
          (case mutate (clock k) cur of
             Inl e \<Rightarrow> (Inl e, s)
           | Inr g \<Rightarrow>
               (case op_update_and_append ops g kind payload (env k s) of
                  (Inr (f', _), s') \<Rightarrow> (Inr f', s')
                | (Inl (RevisionMismatch _ _), s') \<Rightarrow>
                    retry_loop ops env clock i kind payload mutate k
                      (Some (RevisionMismatch (fl_revision g) (-1))) s'
                | (Inl e, s') \<Rightarrow> (Inl e, s'))))"

definition with_retry ::
  "'s flow_store_ops \<Rightarrow> (nat \<Rightarrow> 's \<Rightarrow> 's) \<Rightarrow> (nat \<Rightarrow> timestamp) \<Rightarrow> uuid \<Rightarrow> string \<Rightarrow> json \<Rightarrow> flow_mutation
     \<Rightarrow> 's \<Rightarrow> (flow_error + flow) \<times> 's" where
  "with_retry ops env clock i kind payload mutate s =
     retry_loop ops env clock i kind payload mutate RETRY_ATTEMPTS None s"

subsection \<open>Operations\<close>

definition create_managed ::
  "'s flow_store_ops \<Rightarrow> uuid \<Rightarrow> timestamp \<Rightarrow> create_input \<Rightarrow> 's \<Rightarrow> (flow_error + flow) \<times> 's" where
  "create_managed ops fresh now inp s =
     (let f = \<lparr>fl_id = fresh, fl_controller_id = ci_controller_id inp, fl_goal = ci_goal inp,
               fl_owner_session_key = ci_owner_session_key inp,
               fl_requester_origin = ci_requester_origin inp, fl_current_step = ci_current_step inp,
               fl_state_json = ci_state_json inp, fl_wait_json = None, fl_status = Created,
               fl_cancel_requested = False, fl_revision = 0, fl_created_at = now, fl_updated_at = now\<rparr>
      in (case op_insert ops f s of
            (Inl e, s1) \<Rightarrow> (Inl e, s1)
          | (Inr _, s1) \<Rightarrow>
              (case op_append_event ops (fl_id f) ''created''
                      (JObject [(''controller_id'', JString (fl_controller_id f)),
                                (''goal'', JString (fl_goal f)),
                                (''current_step'', JString (fl_current_step f))]) s1 of
                 (Inl e, s2) \<Rightarrow> (Inl e, s2)
               | (Inr _, s2) \<Rightarrow> (Inr f, s2))))"

definition start_running ::
  "'s flow_store_ops \<Rightarrow> (nat \<Rightarrow> 's \<Rightarrow> 's) \<Rightarrow> (nat \<Rightarrow> timestamp) \<Rightarrow> uuid \<Rightarrow> 's \<Rightarrow> (flow_error + flow) \<times> 's" where
  "start_running ops env clock i s =
     with_retry ops env clock i ''started'' (JObject []) (\<lambda>now f. transition_to now Running f) s"

definition set_waiting ::
  "'s flow_store_ops \<Rightarrow> (nat \<Rightarrow> 's \<Rightarrow> 's) \<Rightarrow> (nat \<Rightarrow> timestamp) \<Rightarrow> uuid \<Rightarrow> json \<Rightarrow> 's
     \<Rightarrow> (flow_error + flow) \<times> 's" where
  "set_waiting ops env clock i wait s =
     with_retry ops env clock i ''waiting'' (JObject [(''wait'', wait)])
       (\<lambda>now f. and_then (transition_to now Waiting f) (\<lambda>g. Inr (g\<lparr>fl_wait_json := Some wait\<rparr>))) s"

definition merge_patch :: "json option \<Rightarrow> flow \<Rightarrow> flow" where
  "merge_patch patch f =
     (case patch of None \<Rightarrow> f | Some p \<Rightarrow> f\<lparr>fl_state_json := merge_state (fl_state_json f) p\<rparr>)"

definition resume_flow ::
  "'s flow_store_ops \<Rightarrow> (nat \<Rightarrow> 's \<Rightarrow> 's) \<Rightarrow> (nat \<Rightarrow> timestamp) \<Rightarrow> uuid \<Rightarrow> json option \<Rightarrow> 's
     \<Rightarrow> (flow_error + flow) \<times> 's" where
  "resume_flow ops env clock i patch s =
     with_retry ops env clock i ''resumed'' (JObject [(''state_patch'', opt_json patch)])
       (\<lambda>now f. and_then (transition_to now Running f)
                  (\<lambda>g. Inr (merge_patch patch (g\<lparr>fl_wait_json := None\<rparr>)))) s"

definition finish_flow ::
  "'s flow_store_ops \<Rightarrow> (nat \<Rightarrow> 's \<Rightarrow> 's) \<Rightarrow> (nat \<Rightarrow> timestamp) \<Rightarrow> uuid \<Rightarrow> json option \<Rightarrow> 's
     \<Rightarrow> (flow_error + flow) \<times> 's" where
  "finish_flow ops env clock i final s =
     with_retry ops env clock i ''finished'' (JObject [(''final_state'', opt_json final)])
       (\<lambda>now f. transition_to now Finished (merge_patch final f)) s"

text \<open>\<open>rfc3339\<close> is chrono's formatting.\<close>

definition fail_flow ::
  "(timestamp \<Rightarrow> string) \<Rightarrow> 's flow_store_ops \<Rightarrow> (nat \<Rightarrow> 's \<Rightarrow> 's) \<Rightarrow> (nat \<Rightarrow> timestamp) \<Rightarrow> uuid \<Rightarrow> string \<Rightarrow> 's
     \<Rightarrow> (flow_error + flow) \<times> 's" where
  "fail_flow rfc3339 ops env clock i reason s =
     with_retry ops env clock i ''failed'' (JObject [(''reason'', JString reason)])
       (\<lambda>now f. transition_to now Failed
          (f\<lparr>fl_state_json := merge_state (fl_state_json f)
               (JObject [(''failure'', JObject [(''reason'', JString reason),
                                                (''at'', JString (rfc3339 now))])])\<rparr>)) s"

definition request_cancel ::
  "'s flow_store_ops \<Rightarrow> (nat \<Rightarrow> 's \<Rightarrow> 's) \<Rightarrow> (nat \<Rightarrow> timestamp) \<Rightarrow> uuid \<Rightarrow> 's \<Rightarrow> (flow_error + flow) \<times> 's" where
  "request_cancel ops env clock i s =
     with_retry ops env clock i ''cancel_requested'' (JObject [])
       (\<lambda>now f. Inr (flow_request_cancel now f)) s"

definition cancel_flow ::
  "'s flow_store_ops \<Rightarrow> (nat \<Rightarrow> 's \<Rightarrow> 's) \<Rightarrow> (nat \<Rightarrow> timestamp) \<Rightarrow> uuid \<Rightarrow> 's \<Rightarrow> (flow_error + flow) \<times> 's" where
  "cancel_flow ops env clock i s =
     with_retry ops env clock i ''cancelled'' (JObject []) (\<lambda>now f. transition_to now Cancelled f) s"

definition update_state_mutation :: "json \<Rightarrow> string option \<Rightarrow> flow_mutation" where
  "update_state_mutation patch next_step now f =
     (if is_terminal (fl_status f) then Inl (AlreadyTerminal (fl_id f) (fl_status f))
      else if fl_cancel_requested f then Inl (CancelPending (fl_id f))
      else Inr (f\<lparr>fl_state_json := merge_state (fl_state_json f) patch,
                  fl_current_step := (case next_step of None \<Rightarrow> fl_current_step f | Some st \<Rightarrow> st),
                  fl_updated_at := now\<rparr>))"

definition update_state ::
  "'s flow_store_ops \<Rightarrow> (nat \<Rightarrow> 's \<Rightarrow> 's) \<Rightarrow> (nat \<Rightarrow> timestamp) \<Rightarrow> uuid \<Rightarrow> json \<Rightarrow> string option \<Rightarrow> 's
     \<Rightarrow> (flow_error + flow) \<times> 's" where
  "update_state ops env clock i patch next_step s =
     with_retry ops env clock i ''state_updated''
       (JObject [(''patch'', patch), (''next_step'', opt_string_json next_step)])
       (update_state_mutation patch next_step) s"

definition create_mirrored ::
  "'s flow_store_ops \<Rightarrow> (nat \<Rightarrow> 's \<Rightarrow> 's) \<Rightarrow> (nat \<Rightarrow> timestamp) \<Rightarrow> uuid \<Rightarrow> timestamp \<Rightarrow> create_input \<Rightarrow> 's
     \<Rightarrow> (flow_error + flow) \<times> 's" where
  "create_mirrored ops env clock fresh now inp s =
     (case create_managed ops fresh now inp s of
        (Inl e, s1) \<Rightarrow> (Inl e, s1)
      | (Inr f, s1) \<Rightarrow> start_running ops env clock (fl_id f) s1)"

text \<open>
  Mirrored mode: update the step of the flow with the observed run id, or insert one; then log.
\<close>

definition observed_step :: "timestamp \<Rightarrow> step_observation \<Rightarrow> flow_step \<Rightarrow> flow_step" where
  "observed_step now ob st =
     st\<lparr>st_task := ob_task ob, st_status := ob_status ob, st_result_json := ob_result_json ob,
        st_child_session_key := (case ob_child_session_key ob of
                                   Some k \<Rightarrow> Some k | None \<Rightarrow> st_child_session_key st),
        st_updated_at := now\<rparr>"

definition fresh_step :: "uuid \<Rightarrow> timestamp \<Rightarrow> step_observation \<Rightarrow> flow_step" where
  "fresh_step fresh now ob =
     \<lparr>st_id = fresh, st_flow_id = ob_flow_id ob, st_runtime = Mirrored,
      st_child_session_key = ob_child_session_key ob, st_run_id = ob_run_id ob,
      st_task = ob_task ob, st_status = ob_status ob, st_result_json = ob_result_json ob,
      st_created_at = now, st_updated_at = now\<rparr>"

definition upsert_step ::
  "'s flow_store_ops \<Rightarrow> uuid \<Rightarrow> timestamp \<Rightarrow> step_observation \<Rightarrow> flow_step option \<Rightarrow> 's
     \<Rightarrow> (flow_error + flow_step) \<times> 's" where
  "upsert_step ops fresh now ob existing s =
     (case existing of
        Some st \<Rightarrow> op_update_step ops (observed_step now ob st) s
      | None \<Rightarrow> (case op_insert_step ops (fresh_step fresh now ob) s of
                   (Inl e, s1) \<Rightarrow> (Inl e, s1)
                 | (Inr _, s1) \<Rightarrow> (Inr (fresh_step fresh now ob), s1)))"

definition record_step_observation ::
  "'s flow_store_ops \<Rightarrow> uuid \<Rightarrow> timestamp \<Rightarrow> step_observation \<Rightarrow> 's \<Rightarrow> (flow_error + flow_step) \<times> 's" where
  "record_step_observation ops fresh now ob s =
     (case op_get ops (ob_flow_id ob) s of
        Inl e \<Rightarrow> (Inl e, s)
      | Inr None \<Rightarrow> (Inl (NotFound (ob_flow_id ob)), s)
      | Inr (Some _) \<Rightarrow>
     (case op_find_step ops (ob_flow_id ob) (ob_run_id ob) s of
        Inl e \<Rightarrow> (Inl e, s)
      | Inr existing \<Rightarrow>
     (case upsert_step ops fresh now ob existing s of
        (Inl e, s1) \<Rightarrow> (Inl e, s1)
      | (Inr st, s1) \<Rightarrow>
          (case op_append_event ops (ob_flow_id ob) ''step_observed''
                  (JObject [(''run_id'', JString (ob_run_id ob)),
                            (''status'', JString (step_status_str (st_status st))),
                            (''runtime'', JString (step_runtime_str (st_runtime st)))]) s1 of
             (Inl e, s2) \<Rightarrow> (Inl e, s2)
           | (Inr _, s2) \<Rightarrow> (Inr st, s2)))))"

subsection \<open>The retry loop over any store that keeps the promise\<close>

text \<open>What the other tasks may do in between: keep the store in order, and touch the flow only under a new revision.\<close>

definition disciplined :: "('s \<Rightarrow> uuid \<Rightarrow> flow option) \<Rightarrow> ('s \<Rightarrow> bool) \<Rightarrow> uuid \<Rightarrow> (nat \<Rightarrow> 's \<Rightarrow> 's) \<Rightarrow> bool" where
  "disciplined view ok i env \<longleftrightarrow>
     (\<forall>k s. ok s \<longrightarrow> ok (env k s) \<and> revised (view s i) (view (env k s) i))"

definition keeps_key :: "flow_mutation \<Rightarrow> bool" where
  "keeps_key mutate \<longleftrightarrow>
     (\<forall>now f g. mutate now f = Inr g \<longrightarrow> fl_id g = fl_id f \<and> fl_revision g = fl_revision f)"

text \<open>The states a loop that wrote nothing can end in: the others' work alone.\<close>

fun others_only :: "(nat \<Rightarrow> 's \<Rightarrow> 's) \<Rightarrow> nat \<Rightarrow> 's \<Rightarrow> 's set" where
  "others_only env 0 s = {s}"
| "others_only env (Suc k) s = insert s (others_only env k (env k s))"

lemma others_only_start: "s \<in> others_only env n s"
  by (cases n) auto

lemma others_only_nobody: "others_only (\<lambda>k s. s) n s = {s}"
  by (induction n arbitrary: s) auto

lemma disciplined_ok: "disciplined view ok i env \<Longrightarrow> ok s \<Longrightarrow> ok (env k s)"
  by (simp add: disciplined_def)

lemma disciplined_revised:
  "disciplined view ok i env \<Longrightarrow> ok s \<Longrightarrow> revised (view s i) (view (env k s) i)"
  by (simp add: disciplined_def)

context revisioned_store
begin

lemma write_result:
  obtains (success) f' ev s' where "op_update_and_append ops f k p s = (Inr (f', ev), s')"
  | (conflict) a b where "op_update_and_append ops f k p s = (Inl (RevisionMismatch a b), s)"
  | (error) e where "op_update_and_append ops f k p s = (Inl e, s)" "\<forall>a b. e \<noteq> RevisionMismatch a b"
proof (cases "op_update_and_append ops f k p s")
  case (Pair res s')
  show thesis
  proof (cases res)
    case (Inl e)
    with Pair have "s' = s" using write_err by blast
    with Pair Inl conflict error show thesis by metis
  next
    case (Inr x)
    with Pair success show thesis by (metis surj_pair)
  qed
qed

lemma retry_error_inert:
  "retry_loop ops env clock i kind payload mutate n last_err s = (Inl e, s') \<Longrightarrow> s' \<in> others_only env n s"
proof (induction n arbitrary: last_err s)
  case 0
  then show ?case by simp
next
  case (Suc n)
  show ?case
  proof (cases "op_get ops i s")
    case (Inl e')
    with Suc.prems show ?thesis by simp
  next
    case (Inr r)
    show ?thesis
    proof (cases r)
      case None
      with Suc.prems Inr show ?thesis by simp
    next
      case (Some cur)
      show ?thesis
      proof (cases "mutate (clock n) cur")
        case (Inl e')
        with Suc.prems \<open>op_get ops i s = Inr r\<close> Some show ?thesis by simp
      next
        case (Inr g)
        from Suc.prems \<open>op_get ops i s = Inr r\<close> Some Inr show ?thesis
        proof (cases rule: write_result [of g kind payload "env n s"])
          case (error e)
          with Suc.prems \<open>op_get ops i s = Inr r\<close> Some Inr have "s' = env n s"
            by (cases e) auto
          then show ?thesis by (cases n) auto
        qed (auto dest: Suc.IH)
      qed
    qed
  qed
qed

lemma retry_atomic:
  assumes "disciplined view ok i env" "keeps_key mutate" "ok s"
    and "retry_loop ops env clock i kind payload mutate n last_err s = (Inr f', s')"
  shows "\<exists>k s1 cur g. k < n \<and> ok s1 \<and> s1 \<in> others_only env n s \<and> revised (view s i) (Some cur) \<and> view s1 i = Some cur \<and>
     mutate (clock k) cur = Inr g \<and> written g cur f' \<and> view s' = (view s1)(i \<mapsto> f') \<and>
     events s' = (events s1)(i := events s1 i @ [(kind, Inr payload)]) \<and> ok s'"
  using assms(3,4)
proof (induction n arbitrary: last_err s)
  case 0
  then show ?case by simp
next
  case (Suc n)
  then obtain cur where get: "op_get ops i s = Inr (Some cur)"
    by (cases "op_get ops i s") (auto split: option.splits)
  with Suc.prems obtain g where g: "mutate (clock n) cur = Inr g"
    by (cases "mutate (clock n) cur") auto
  have view: "view s i = Some cur" using get_view [OF Suc.prems(1) get] by simp
  have key: "fl_id g = i" "fl_revision g = fl_revision cur"
    using assms(2) g view_id [OF Suc.prems(1) view] by (auto simp: keeps_key_def)
  have ok1: "ok (env n s)" and rev: "revised (view s i) (view (env n s) i)"
    using assms(1) Suc.prems(1) by (auto intro: disciplined_ok disciplined_revised)
  show ?case
  proof (cases rule: write_result [of g kind payload "env n s"])
    case (success f0 ev s0)
    with Suc.prems(2) get g have [simp]: "f0 = f'" "s0 = s'" by simp_all
    from write_ok [OF ok1 success] key obtain cur' where cur': "view (env n s) i = Some cur'"
        "fl_revision cur' = fl_revision g" "written g cur' f'" "view s' = (view (env n s))(i \<mapsto> f')"
        "events s' = (events (env n s))(i := events (env n s) i @ [(kind, Inr payload)])" by auto
    with rev view key have "cur' = cur" by auto
    moreover have "ok s'" using write_inv [OF ok1, of g kind payload] success by simp
    ultimately show ?thesis
      using cur' ok1 g view by (intro exI [of _ n] exI [of _ "env n s"] exI [of _ cur] exI [of _ g])
        (simp add: revised_refl others_only_start)
  next
    case (conflict a b)
    with Suc.prems(2) get g have run: "retry_loop ops env clock i kind payload mutate n
        (Some (RevisionMismatch (fl_revision g) (-1))) (env n s) = (Inr f', s')" by simp
    from Suc.IH [OF ok1 run] obtain k s1 cur1 g1 where "k < n" "s1 \<in> others_only env n (env n s)"
          "revised (view (env n s) i) (Some cur1)"
        and rest: "ok s1 \<and> view s1 i = Some cur1 \<and> mutate (clock k) cur1 = Inr g1 \<and> written g1 cur1 f' \<and>
          view s' = (view s1)(i \<mapsto> f') \<and> events s' = (events s1)(i := events s1 i @ [(kind, Inr payload)]) \<and> ok s'"
      by blast
    then have "revised (view s i) (Some cur1)" "k < Suc n" "s1 \<in> others_only env (Suc n) s"
      using rev revised_trans by auto
    with rest show ?thesis by blast
  next
    case (error e)
    with Suc.prems(2) get g show ?thesis by (cases e) auto
  qed
qed

text \<open>An attempt during which nobody touches the flow does not end in a conflict.\<close>

lemma quiet_attempt:
  assumes "keeps_key mutate" "ok s" "ok (env k s)" "view (env k s) i = view s i"
    and get: "op_get ops i s = Inr (Some cur)" and mut: "mutate (clock k) cur = Inr g"
  shows "fst (op_update_and_append ops g kind payload (env k s)) \<noteq> Inl (RevisionMismatch a b)"
proof -
  have view: "view s i = Some cur" using get_view [OF assms(2) get] by simp
  have "fl_id g = i" "fl_revision g = fl_revision cur"
    using assms(1) mut view_id [OF assms(2) view] by (auto simp: keeps_key_def)
  with view assms(3,4) show ?thesis by (intro current_no_conflict [of _ _ cur]) auto
qed

end

subsection \<open>The mutations\<close>

lemma keeps_key_transition [simp]: "keeps_key (\<lambda>now f. transition_to now st f)"
  by (auto simp: keeps_key_def transition_to_Inr)

lemma merge_patch_fields [simp]:
  "fl_id (merge_patch p f) = fl_id f" "fl_revision (merge_patch p f) = fl_revision f"
  "fl_status (merge_patch p f) = fl_status f" "fl_wait_json (merge_patch p f) = fl_wait_json f"
  "fl_cancel_requested (merge_patch p f) = fl_cancel_requested f"
  by (simp_all add: merge_patch_def split: option.split)

lemma keeps_key_others [simp]:
  "keeps_key (\<lambda>now f. and_then (transition_to now st f) (\<lambda>g. Inr (g\<lparr>fl_wait_json := w\<rparr>)))"
  "keeps_key (\<lambda>now f. and_then (transition_to now st f) (\<lambda>g. Inr (merge_patch p (g\<lparr>fl_wait_json := w\<rparr>))))"
  "keeps_key (\<lambda>now f. transition_to now st (merge_patch p f))"
  "keeps_key (\<lambda>now f. transition_to now st (f\<lparr>fl_state_json := h now f\<rparr>))"
  "keeps_key (\<lambda>now f. Inr (flow_request_cancel now f))"
  "keeps_key (update_state_mutation patch next_step)"
  by (auto simp: keeps_key_def transition_to_Inr and_then_Inr_iff flow_request_cancel_def
      update_state_mutation_def split: if_splits)

subsection \<open>Properties\<close>

text \<open>C4. A mutation is atomic although it reads and writes in separate steps.  Whatever other tasks do
  between the read and the write of each attempt, as long as they respect revisions: if the call succeeds, the
  mutation was applied to the flow the store held at the moment of the write, nothing another task wrote
  is lost, and exactly one audit event came with it; if it fails, the store holds the others' work alone.\<close>

theorem with_retry_is_atomic:
  assumes ok: "flow_db_ok js s" and key: "keeps_key mutate"
    and env: "disciplined (flow_view js) (flow_db_ok js) i env"
    and run: "with_retry (sqlite_ops js db now) env clock i kind payload mutate s = (res, s')"
  shows "case res of
      Inl e \<Rightarrow> s' \<in> {s, env 1 s, env 0 (env 1 s)}
    | Inr f' \<Rightarrow> \<exists>k. \<exists>s1 \<in> {s, env 1 s, env 0 (env 1 s)}. \<exists>cur g. flow_view js s1 i = Some cur \<and> mutate (clock k) cur = Inr g \<and> written g cur f' \<and>
        flow_view js s' = (flow_view js s1)(i \<mapsto> f') \<and>
        flow_log js s' = (flow_log js s1)(i := flow_log js s1 i @ [(kind, Inr payload)]) \<and> flow_db_ok js s'"
proof (cases res)
  case (Inl e)
  with run sqlite.retry_error_inert [of js db now env clock i kind payload mutate RETRY_ATTEMPTS None s e s']
  show ?thesis by (simp add: with_retry_def RETRY_ATTEMPTS_def numeral_2_eq_2)
next
  case (Inr f')
  with run have "retry_loop (sqlite_ops js db now) env clock i kind payload mutate RETRY_ATTEMPTS None s = (Inr f', s')"
    by (simp add: with_retry_def)
  from sqlite.retry_atomic [OF env key ok this] obtain k s1 cur g where
      s1: "s1 \<in> others_only env RETRY_ATTEMPTS s" and rest: "flow_view js s1 i = Some cur" "mutate (clock k) cur = Inr g" "written g cur f'"
      "flow_view js s' = (flow_view js s1)(i \<mapsto> f')"
      "flow_log js s' = (flow_log js s1)(i := flow_log js s1 i @ [(kind, Inr payload)])" "flow_db_ok js s'" by blast
  from s1 have "s1 \<in> {s, env 1 s, env 0 (env 1 s)}" by (simp add: RETRY_ATTEMPTS_def numeral_2_eq_2)
  with rest show ?thesis unfolding Inr sum.case by blast
qed

lemma identity_disciplined: "disciplined view ok i (\<lambda>k s. s)"
  by (simp add: disciplined_def revised_refl)

theorem with_retry_is_atomic_witness:
  "case with_retry (sqlite_ops null_codec (\<lambda>_. True) 9) (\<lambda>k s. s) (\<lambda>k. 9) (Uuid 1) ''started'' (JObject [])
          (\<lambda>now f. transition_to now Running f) sample_flow_db of
     (Inl e, s') \<Rightarrow> s' = sample_flow_db | (Inr f', s') \<Rightarrow> flow_db_ok null_codec s'"
  using with_retry_is_atomic [OF sample_flow_db_ok keeps_key_transition identity_disciplined surjective_pairing,
      of "\<lambda>_. True" 9 "\<lambda>_. 9" "Uuid 1" "''started''" "JObject []" Running]
  by (auto simp: case_prod_unfold split: sum.splits)

text \<open>The flow that a successful call found and the one it left.\<close>

definition moved :: "json_codec \<Rightarrow> flow_db \<Rightarrow> uuid \<Rightarrow> (flow \<Rightarrow> flow \<Rightarrow> bool) \<Rightarrow> flow \<Rightarrow> bool" where
  "moved js s' i R f' \<longleftrightarrow> flow_view js s' i = Some f' \<and>
     (\<exists>s1 cur. flow_view js s1 i = Some cur \<and> fl_revision f' = fl_revision cur + 1 \<and> R cur f')"

lemma with_retry_moved:
  assumes ok: "flow_db_ok js s" and key: "keeps_key mutate"
    and env: "disciplined (flow_view js) (flow_db_ok js) i env"
    and R: "\<And>now cur g f'. mutate now cur = Inr g \<Longrightarrow> written g cur f' \<Longrightarrow> R cur f'"
    and run: "with_retry (sqlite_ops js db now) env clock i kind payload mutate s = (Inr f', s')"
  shows "moved js s' i R f'"
proof -
  from run have "retry_loop (sqlite_ops js db now) env clock i kind payload mutate RETRY_ATTEMPTS None s = (Inr f', s')"
    by (simp add: with_retry_def)
  from sqlite.retry_atomic [OF env key ok this] obtain k s1 cur g
    where f': "flow_view js s1 i = Some cur" "mutate (clock k) cur = Inr g" "written g cur f'"
      and view: "flow_view js s' = (flow_view js s1)(i \<mapsto> f')" by blast
  have "fl_revision f' = fl_revision cur + 1"
    using written_fields [OF f'(3)] f'(2) key by (simp add: keeps_key_def)
  with f' view R [OF f'(2,3)] show ?thesis unfolding moved_def by auto
qed


lemma sqlite_write_up_ok:
  assumes "flow_db_ok js s" "flow_view js s (fl_id f) = Some cur" "\<forall>q. db q" "\<not> isl (flow_columns js f)"
    "\<not> isl (json_column js p)" "fl_revision cur = fl_revision f"
  shows "\<exists>f' ev s'. sqlite_update_and_append js db now f k p s = (Inr (f', ev), s')"
  using sqlite_write_up [OF assms(1) _ surjective_pairing, of f cur db p now k] assms
  by (cases "sqlite_update_and_append js db now f k p s"; cases "fst (sqlite_update_and_append js db now f k p s)") auto

lemma sqlite_write_up_stale:
  assumes "flow_db_ok js s" "flow_view js s (fl_id f) = Some cur" "\<forall>q. db q" "\<not> isl (flow_columns js f)"
    "\<not> isl (json_column js p)" "fl_revision cur \<noteq> fl_revision f"
  shows "sqlite_update_and_append js db now f k p s = (Inl (RevisionMismatch (fl_revision f) (fl_revision cur)), s)"
proof -
  obtain res s' where run: "sqlite_update_and_append js db now f k p s = (res, s')" by fastforce
  from sqlite_write_up [OF assms(1) _ this, of cur] assms(2-)
  have "res = Inl (RevisionMismatch (fl_revision f) (fl_revision cur))" by simp
  with run sqlite.write_err [of js db now f k p s _ s'] show ?thesis by simp
qed

text \<open>A mutation that applies to the flow at hand and whose result can be stored.\<close>

definition applies :: "json_codec \<Rightarrow> flow_mutation \<Rightarrow> timestamp \<Rightarrow> flow \<Rightarrow> bool" where
  "applies js mutate now f \<longleftrightarrow> (\<exists>g. mutate now f = Inr g \<and> \<not> isl (flow_columns js g))"

lemma retry_round:
  assumes ok: "flow_db_ok js s" and key: "keeps_key mutate" and up: "\<forall>q. db q"
    and env: "disciplined (flow_view js) (flow_db_ok js) i env"
    and view: "flow_view js s i = Some cur" and app: "applies js mutate (clock k) cur" "\<not> isl (json_column js payload)"
    and after: "flow_view js (env k s) i = Some cur'"
  shows "if cur' = cur
    then \<exists>f' s'. retry_loop (sqlite_ops js db now) env clock i kind payload mutate (Suc k) last_err s = (Inr f', s')
    else \<exists>e. retry_loop (sqlite_ops js db now) env clock i kind payload mutate (Suc k) last_err s
           = retry_loop (sqlite_ops js db now) env clock i kind payload mutate k (Some e) (env k s)"
proof -
  obtain g where g: "mutate (clock k) cur = Inr g" "\<not> isl (flow_columns js g)"
    using app by (auto simp: applies_def)
  have id: "fl_id g = i" "fl_revision g = fl_revision cur"
    using key g(1) sqlite.view_id [OF ok view] by (auto simp: keeps_key_def)
  have get: "sqlite_get js db i s = Inr (Some cur)"
    using ok up view by (simp add: sqlite_get_up flow_db_ok_def)
  have ok': "flow_db_ok js (env k s)" and rev: "revised (flow_view js s i) (flow_view js (env k s) i)"
    using env ok by (auto intro: disciplined_ok disciplined_revised)
  show ?thesis
  proof (cases "cur' = cur")
    case True
    with sqlite_write_up_ok [OF ok' _ up g(2) app(2), of cur now kind] after id obtain f' ev s'
      where "sqlite_update_and_append js db now g kind payload (env k s) = (Inr (f', ev), s')" by auto
    with True get g(1) show ?thesis by simp
  next
    case False
    with rev view after id have "fl_revision cur' \<noteq> fl_revision g" by simp
    with sqlite_write_up_stale [OF ok' _ up g(2) app(2), of cur' now kind] after id False get g(1)
    show ?thesis by simp (rule exI, rule refl)
  qed
qed

lemma retry_progress:
  assumes ok: "flow_db_ok js s" and key: "keeps_key mutate" and up: "\<forall>q. db q"
    and env: "disciplined (flow_view js) (flow_db_ok js) i env"
    and present: "flow_view js s i = Some cur0" "flow_view js (env 1 s) i = Some cur"
    and app: "applies js mutate (clock 1) cur0" "applies js mutate (clock 0) cur" "\<not> isl (json_column js payload)"
    and quiet: "flow_view js (env 0 (env 1 s)) i = Some cur"
  shows "\<exists>f' s'. with_retry (sqlite_ops js db now) env clock i kind payload mutate s = (Inr f', s')"
proof -
  let ?run = "\<lambda>n err s. retry_loop (sqlite_ops js db now) env clock i kind payload mutate n err s"
  have ok1: "flow_db_ok js (env 1 s)" by (rule disciplined_ok [OF env ok])
  have two: "with_retry (sqlite_ops js db now) env clock i kind payload mutate s = ?run (Suc 1) None s"
    by (simp add: with_retry_def RETRY_ATTEMPTS_def numeral_2_eq_2)
  show ?thesis
  proof (cases "cur = cur0")
    case True
    from retry_round [where k = 1 and env = env and clock = clock and i = i, OF ok key up env present(1) app(1,3) present(2)] True show ?thesis
      unfolding two by auto
  next
    case False
    from retry_round [where k = 1 and env = env and clock = clock and i = i, OF ok key up env present(1) app(1,3) present(2)] False obtain e
      where "?run (Suc 1) None s = ?run 1 (Some e) (env 1 s)" by auto
    moreover from retry_round [where k = 0 and env = env and clock = clock and i = i, OF ok1 key up env present(2) app(2,3) quiet]
    have "\<exists>f' s'. ?run (Suc 0) (Some e) (env 1 s) = (Inr f', s')" by simp
    ultimately show ?thesis unfolding two by simp
  qed
qed

text \<open>One conflict is absorbed.  When the statements succeed and the flow stays in the store, a mutation that
  applies to it succeeds although another task may have written the flow during the first attempt, provided
  nobody writes it during the second.\<close>

theorem one_conflict_is_absorbed:
  assumes ok: "flow_db_ok js s" and key: "keeps_key mutate" and up: "\<forall>q. db q"
    and env: "disciplined (flow_view js) (flow_db_ok js) i env"
    and present: "flow_view js s i = Some cur0" "flow_view js (env 1 s) i = Some cur"
    and app: "applies js mutate (clock 1) cur0" "applies js mutate (clock 0) cur" "\<not> isl (json_column js payload)"
    and quiet: "flow_view js (env 0 (env 1 s)) i = flow_view js (env 1 s) i"
  shows "\<exists>f' s'. with_retry (sqlite_ops js db now) env clock i kind payload mutate s = (Inr f', s')"
  using retry_progress [OF ok key up env present app] quiet present by simp

definition rival :: "nat \<Rightarrow> flow_db \<Rightarrow> flow_db" where
  "rival k s = (if k = 1 then snd (sqlite_update_and_append null_codec (\<lambda>_. True) 5 sample_flow ''r'' (JObject []) s) else s)"

lemma rival_disciplined: "disciplined (flow_view null_codec) (flow_db_ok null_codec) (Uuid 1) rival"
  unfolding disciplined_def rival_def
  by (auto simp: revised_refl sqlite_update_and_append_wf update_append_revised)

lemma sample_applies: "applies null_codec (\<lambda>now f. transition_to now Running f) t (sample_flow\<lparr>fl_revision := n, fl_updated_at := u\<rparr>)"
  using sample_columns by (auto simp: applies_def transition_to_Inr sample_flow_def can_transition_cases
      is_terminal_def flow_columns_def)

lemma null_payload: "\<not> isl (json_column null_codec (JObject []))"
  by (simp add: json_column_def null_codec_def)

lemma sample_id: "fl_id sample_flow = Uuid 1"
  by (simp add: sample_flow_def)

lemma rival_view:
  "\<exists>t. flow_view null_codec (rival 1 sample_flow_db) (Uuid 1)
     = Some (sample_flow\<lparr>fl_revision := 1, fl_updated_at := t\<rparr>)"
proof -
  obtain f' ev s' where run: "sqlite_update_and_append null_codec (\<lambda>_. True) 5 sample_flow ''r'' (JObject []) sample_flow_db
      = (Inr (f', ev), s')"
    using sqlite_write_up_ok [OF sample_flow_db_ok, of sample_flow sample_flow "\<lambda>_. True" "JObject []" 5 "''r''"]
      sample_view null_payload sample_columns by (auto simp: sample_id)
  from sqlite_write_ok [OF sample_flow_db_ok run] sample_view obtain t where
    "flow_view null_codec s' (Uuid 1) = Some (sample_flow\<lparr>fl_revision := 1, fl_created_at := 0, fl_updated_at := t\<rparr>)"
    by (auto simp: sample_id written_def) (simp add: sample_flow_def)
  then show ?thesis unfolding rival_def run by (auto simp: sample_flow_def)
qed

theorem one_conflict_is_absorbed_witness:
  "\<exists>f' s'. with_retry (sqlite_ops null_codec (\<lambda>_. True) 9) rival (\<lambda>_. 9) (Uuid 1) ''started'' (JObject [])
     (\<lambda>now f. transition_to now Running f) sample_flow_db = (Inr f', s')"
proof -
  obtain t where t: "flow_view null_codec (rival 1 sample_flow_db) (Uuid 1)
     = Some (sample_flow\<lparr>fl_revision := 1, fl_updated_at := t\<rparr>)" using rival_view by blast
  have app: "applies null_codec (\<lambda>now f. transition_to now Running f) 9 sample_flow"
    using sample_applies [where n = "fl_revision sample_flow" and u = "fl_updated_at sample_flow"] by simp
  show ?thesis
    by (rule one_conflict_is_absorbed [OF sample_flow_db_ok keeps_key_transition _ rival_disciplined sample_view t
          app sample_applies null_payload]) (simp_all add: rival_def)
qed

lemma sample_started:
  "\<exists>f' s'. start_running (sqlite_ops null_codec (\<lambda>_. True) 9) (\<lambda>k s. s) (\<lambda>_. 9) (Uuid 1) sample_flow_db = (Inr f', s')"
proof -
  have app: "applies null_codec (\<lambda>now f. transition_to now Running f) 9 sample_flow"
    using sample_applies [where n = "fl_revision sample_flow" and u = "fl_updated_at sample_flow"] by simp
  show ?thesis
    unfolding start_running_def
    by (rule retry_progress [OF sample_flow_db_ok keeps_key_transition _ identity_disciplined sample_view sample_view
          app app null_payload sample_view]) simp
qed


lemma retry_refused:
  "op_get ops i s = Inr (Some f) \<Longrightarrow> mutate (clock 1) f = Inl e \<Longrightarrow>
     with_retry ops env clock i kind payload mutate s = (Inl e, s)"
  by (simp add: with_retry_def RETRY_ATTEMPTS_def numeral_2_eq_2)

definition refusal :: "flow \<Rightarrow> flow_error" where
  "refusal f = (if is_terminal (fl_status f) then AlreadyTerminal (fl_id f) (fl_status f) else CancelPending (fl_id f))"

lemma blocked_transition:
  "is_terminal (fl_status f) \<or> fl_cancel_requested f \<and> st \<noteq> Cancelled \<Longrightarrow> transition_to now st f = Inl (refusal f)"
  by (auto simp: transition_to_def refusal_def)

lemma refusal_cong: "fl_id g = fl_id f \<Longrightarrow> fl_status g = fl_status f \<Longrightarrow> refusal g = refusal f"
  by (simp add: refusal_def)

text \<open>A requested cancel is sticky: on a live flow with a requested cancel, starting, waiting, resuming,
  finishing, failing and updating the state are all refused as cancel-pending and leave the store as it was, and
  on a terminal flow they and cancelling are refused as already terminal.\<close>

theorem cancel_and_terminal_block_the_manager:
  assumes ok: "flow_db_ok js s" and up: "db SelectFlow" and view: "flow_view js s i = Some f"
    and blocked: "is_terminal (fl_status f) \<or> fl_cancel_requested f"
  shows "let ops = sqlite_ops js db now;
             refused = (Inl (if is_terminal (fl_status f) then AlreadyTerminal i (fl_status f) else CancelPending i), s)
         in start_running ops env clock i s = refused \<and> set_waiting ops env clock i wait s = refused \<and>
            resume_flow ops env clock i patch s = refused \<and> finish_flow ops env clock i patch s = refused \<and>
            fail_flow fmt ops env clock i reason s = refused \<and> update_state ops env clock i p st s = refused \<and>
            (is_terminal (fl_status f) \<longrightarrow> cancel_flow ops env clock i s = refused)"
proof -
  have get: "sqlite_get js db i s = Inr (Some f)" using ok up view by (simp add: sqlite_get_up flow_db_ok_def)
  have id: "fl_id f = i" using sqlite.view_id [OF ok view] .
  have move: "transition_to t st g = Inl (refusal f)"
    if "st \<noteq> Cancelled \<or> is_terminal (fl_status f)" "fl_id g = fl_id f" "fl_status g = fl_status f"
      "fl_cancel_requested g = fl_cancel_requested f" for t st g
    using blocked_transition [of g st t] refusal_cong [of g f] blocked that by auto
  have upd: "update_state_mutation p st t f = Inl (refusal f)" for t
    using blocked by (auto simp: update_state_mutation_def refusal_def)
  have ref: "refusal f = (if is_terminal (fl_status f) then AlreadyTerminal i (fl_status f) else CancelPending i)"
    by (simp add: refusal_def id)
  show ?thesis
    unfolding Let_def ref [symmetric] start_running_def set_waiting_def resume_flow_def finish_flow_def
      fail_flow_def update_state_def cancel_flow_def
    by (intro conjI impI; rule retry_refused [where f = f]) (simp_all add: get move upd)
qed

theorem cancel_and_terminal_block_the_manager_witness:
  "\<exists>s. start_running (sqlite_ops null_codec (\<lambda>_. True) 9) (\<lambda>k s. s) (\<lambda>_. 9) (Uuid 1) s = (Inl (CancelPending (Uuid 1)), s)"
proof -
  let ?f = "sample_flow\<lparr>fl_cancel_requested := True\<rparr>"
  let ?s = "snd (sqlite_insert null_codec (\<lambda>_. True) ?f empty_flow_db)"
  have cols: "flow_columns null_codec ?f = Inr (''{}'', None)" using sample_columns by (simp add: flow_columns_def)
  have ok: "flow_db_ok null_codec ?s" by (intro sqlite_insert_wf empty_flow_db_wf null_codec_law)
  have "flow_view null_codec ?s (Uuid 1) = Some ?f"
    using insert_first_view [OF null_codec_law cols, of "\<lambda>_. True"] by (simp add: sample_id)
  from cancel_and_terminal_block_the_manager [OF ok _ this, of "\<lambda>_. True" 9 "\<lambda>k s. s" "\<lambda>_. 9"]
  show ?thesis by (intro exI [of _ ?s]) (simp add: Let_def sample_flow_def is_terminal_def)
qed

subsection \<open>Mirrored steps\<close>

lemma filter_unique: "distinct (map f xs) \<Longrightarrow> x \<in> set xs \<Longrightarrow> filter (\<lambda>y. f y = f x) xs = [x]"
proof (induction xs)
  case (Cons a xs)
  show ?case
  proof (cases "x = a")
    case True
    have "f y \<noteq> f a" if "y \<in> set xs" for y using Cons.prems(1) that by (auto simp: image_iff)
    with True show ?thesis by (simp add: filter_empty_conv)
  next
    case False
    with Cons.prems have "x \<in> set xs" "f a \<noteq> f x" by (auto simp: image_iff)
    with Cons show ?thesis by simp
  qed
qed simp

lemma same_run_iff: "same_run i run = (\<lambda>r. (sr_flow_id r, sr_run_id r) = (i, run))"
  by (auto simp: same_run_def)

lemma run_unique:
  "flow_db_wf js s \<Longrightarrow> r \<in> set (db_steps s) \<Longrightarrow> same_run i run r \<Longrightarrow> filter (same_run i run) (db_steps s) = [r]"
  using filter_unique [of "\<lambda>r. (sr_flow_id r, sr_run_id r)" "db_steps s" r]
  by (auto simp: same_run_iff flow_db_wf_def)

lemma filter_map_inv: "\<forall>x \<in> set xs. P (g x) = P x \<Longrightarrow> filter P (map g xs) = map g (filter P xs)"
  by (induction xs) auto

definition step_recorded :: "json_codec \<Rightarrow> step_observation \<Rightarrow> flow_step \<Rightarrow> flow_db \<Rightarrow> flow_db \<Rightarrow> bool" where
  "step_recorded js ob st s s' \<longleftrightarrow>
     (\<exists>r. filter (same_run (ob_flow_id ob) (ob_run_id ob)) (db_steps s') = [r] \<and> row_to_step js r = Inr st) \<and>
     filter (\<lambda>r. \<not> same_run (ob_flow_id ob) (ob_run_id ob) r) (db_steps s')
       = filter (\<lambda>r. \<not> same_run (ob_flow_id ob) (ob_run_id ob) r) (db_steps s) \<and>
     st_flow_id st = ob_flow_id ob \<and> st_run_id st = ob_run_id ob \<and> st_task st = ob_task ob \<and>
     st_status st = ob_status ob \<and> st_result_json st = ob_result_json ob \<and> db_flows s' = db_flows s"

lemma insert_step_recorded:
  assumes ok: "flow_db_ok js s"
    and none: "find (same_run (ob_flow_id ob) (ob_run_id ob)) (db_steps s) = None"
    and run: "sqlite_insert_step js db (fresh_step fresh now ob) s = (Inr u, s')"
  shows "step_recorded js ob (fresh_step fresh now ob) s s'"
proof -
  let ?st = "fresh_step fresh now ob"
  from run obtain res where res: "step_columns js ?st = Inr res"
    and s': "s' = s\<lparr>db_steps := db_steps s @ [step_to_row ?st res]\<rparr>"
    by (auto simp: sqlite_insert_step_def split: sum.splits if_splits)
  have "filter (same_run (ob_flow_id ob) (ob_run_id ob)) (db_steps s) = []"
    using none by (simp add: find_None_iff filter_empty_conv)
  moreover have "same_run (ob_flow_id ob) (ob_run_id ob) (step_to_row ?st res)"
    by (simp add: same_run_def step_to_row_def fresh_step_def)
  moreover have "row_to_step js (step_to_row ?st res) = Inr ?st"
    using ok by (intro step_row_roundtrip [OF _ res]) (simp add: flow_db_ok_def)
  ultimately show ?thesis by (simp add: step_recorded_def s') (simp add: fresh_step_def)
qed

lemma update_step_recorded:
  assumes ok: "flow_db_ok js s"
    and found: "find (same_run (ob_flow_id ob) (ob_run_id ob)) (db_steps s) = Some r0"
    and parse: "row_to_step js r0 = Inr st0"
    and run: "sqlite_update_step js db now (observed_step t ob st0) s = (Inr st, s')"
  shows "step_recorded js ob st s s'"
proof -
  let ?ob = "observed_step t ob st0" and ?P = "same_run (ob_flow_id ob) (ob_run_id ob)"
  have wf: "flow_db_wf js s" and law: "codec_law js" using ok by (simp_all add: flow_db_ok_def)
  have r0: "r0 \<in> set (db_steps s)" "?P r0" using found by (auto simp: find_Some_iff)
  have st0: "st_id st0 = sr_id r0" "st_flow_id st0 = sr_flow_id r0" "st_run_id st0 = sr_run_id r0"
    using parse by (auto simp: row_to_step_def and_then_Inr_iff)
  have ob: "st_id ?ob = sr_id r0" "st_run_id ?ob = sr_run_id r0" using st0 by (simp_all add: observed_step_def)
  have dist: "distinct (map sr_id (db_steps s))" using wf by (simp add: flow_db_wf_def)
  from run obtain res where res: "step_columns js ?ob = Inr res"
    and s': "s' = s\<lparr>db_steps := map (\<lambda>r. if sr_id r = sr_id r0 then updated_step_row now ?ob res r else r) (db_steps s)\<rparr>"
    and get: "sqlite_get_step js db (sr_id r0) s' = Inr (Some st)"
    by (auto simp: sqlite_update_step_def Let_def ob split: sum.splits option.splits if_splits)
  let ?g = "\<lambda>r. if sr_id r = sr_id r0 then updated_step_row now ?ob res r else r"
  have only: "sr_id r = sr_id r0 \<longleftrightarrow> r = r0" if "r \<in> set (db_steps s)" for r
    using that r0(1) dist by (auto simp: distinct_map dest: inj_onD)
  have same: "\<forall>r \<in> set (db_steps s). ?P (?g r) = ?P r"
    using r0(2) only by (auto simp: same_run_def ob)
  have "filter ?P (db_steps s') = map ?g (filter ?P (db_steps s))"
    unfolding s' using filter_map_inv [OF same] by simp
  then have one: "filter ?P (db_steps s') = [updated_step_row now ?ob res r0]"
    by (simp add: run_unique [OF wf r0])
  have "filter (\<lambda>r. \<not> ?P r) (db_steps s') = map ?g (filter (\<lambda>r. \<not> ?P r) (db_steps s))"
    unfolding s' using filter_map_inv [of "db_steps s" "\<lambda>r. \<not> ?P r" ?g] same by simp
  also have "\<dots> = filter (\<lambda>r. \<not> ?P r) (db_steps s)"
    using only r0(2) by (intro map_idI) auto
  finally have rest: "filter (\<lambda>r. \<not> ?P r) (db_steps s') = filter (\<lambda>r. \<not> ?P r) (db_steps s)" .
  have "find (\<lambda>r. sr_id r = sr_id r0) (db_steps s') = Some (updated_step_row now ?ob res r0)"
    unfolding s' using r0(1) find_distinct [OF dist, of "sr_id r0" r0] by (simp add: find_map_same_key)
  with get have st: "row_to_step js (updated_step_row now ?ob res r0) = Inr st"
    by (auto simp: sqlite_get_step_def and_then_Inr_iff split: if_splits)
  from updated_step_row_step [OF law res, of r0 now] ob(1) st r0(2) st0 one rest s' show ?thesis
    by (auto simp: step_recorded_def observed_step_def same_run_def)
qed

lemma upsert_recorded:
  assumes ok: "flow_db_ok js s"
    and found: "sqlite_find_step js db (ob_flow_id ob) (ob_run_id ob) s = Inr existing"
    and run: "upsert_step (sqlite_ops js db now) fresh t ob existing s = (Inr st, s')"
  shows "step_recorded js ob st s s' \<and> db_events s' = db_events s"
proof (cases existing)
  case None
  with found have none: "find (same_run (ob_flow_id ob) (ob_run_id ob)) (db_steps s) = None"
    by (auto simp: sqlite_find_step_def and_then_Inr_iff split: if_splits option.splits)
  from run None obtain u where ins: "sqlite_insert_step js db (fresh_step fresh t ob) s = (Inr u, s')"
    and st: "st = fresh_step fresh t ob"
    by (auto simp: upsert_step_def split: prod.splits sum.splits)
  have "db_events s' = db_events s"
    using ins by (auto simp: sqlite_insert_step_def split: sum.splits if_splits)
  with insert_step_recorded [OF ok none ins] st show ?thesis by simp
next
  case (Some st0)
  with found obtain r0 where r0: "find (same_run (ob_flow_id ob) (ob_run_id ob)) (db_steps s) = Some r0"
      "row_to_step js r0 = Inr st0"
    by (auto simp: sqlite_find_step_def and_then_Inr_iff split: if_splits option.splits)
  from run Some have upd: "sqlite_update_step js db now (observed_step t ob st0) s = (Inr st, s')"
    by (simp add: upsert_step_def)
  then have "db_events s' = db_events s"
    by (auto simp: sqlite_update_step_def Let_def split: sum.splits option.splits if_splits)
  with update_step_recorded [OF ok r0 upd] show ?thesis by simp
qed

lemma append_event_log:
  "sqlite_append_event js db now i k p s = (Inr ev, s') \<Longrightarrow>
     db_steps s' = db_steps s \<and> db_flows s' = db_flows s \<and> length (flow_log js s' i) = Suc (length (flow_log js s i))"
  by (auto simp: sqlite_append_event_def insert_event_row_log split: sum.splits if_splits)

text \<open>Observing a step never duplicates or orphans one.  If \<open>record_step_observation\<close> succeeds, the flow
  exists, it has exactly one step with the observed run id, that step is the one returned and carries the
  observed task, status and result, every other step and every flow is as before, and the log of the
  flow has grown by one event; for a flow that is not there it fails and changes nothing.\<close>

theorem observation_upserts_one_step:
  assumes ok: "flow_db_ok js s"
    and run: "record_step_observation (sqlite_ops js db now) fresh t ob s = (res, s')"
  shows "(\<forall>st. res = Inr st \<longrightarrow> step_recorded js ob st s s' \<and> flow_view js s (ob_flow_id ob) \<noteq> None \<and>
            length (flow_log js s' (ob_flow_id ob)) = Suc (length (flow_log js s (ob_flow_id ob)))) \<and>
         (flow_view js s (ob_flow_id ob) = None \<longrightarrow> s' = s \<and> isl res)"
proof (cases "\<exists>f. sqlite_get js db (ob_flow_id ob) s = Inr (Some f)")
  case False
  then have "isl res \<and> s' = s"
    using run by (auto simp: record_step_observation_def split: sum.splits option.splits)
  then show ?thesis by auto
next
  case True
  then obtain f where get: "sqlite_get js db (ob_flow_id ob) s = Inr (Some f)" by blast
  have view: "flow_view js s (ob_flow_id ob) = Some f" using sqlite_get_view [OF flow_db_ok_wf [OF ok] get] by simp
  have "step_recorded js ob st s s' \<and>
      length (flow_log js s' (ob_flow_id ob)) = Suc (length (flow_log js s (ob_flow_id ob)))"
    if res: "res = Inr st" for st
  proof -
    from run res get obtain existing where
        found: "sqlite_find_step js db (ob_flow_id ob) (ob_run_id ob) s = Inr existing"
      by (cases "sqlite_find_step js db (ob_flow_id ob) (ob_run_id ob) s") (auto simp: record_step_observation_def)
    obtain res1 s1 where up: "upsert_step (sqlite_ops js db now) fresh t ob existing s = (res1, s1)" by fastforce
    from run res get found up have "res1 = Inr st"
      by (cases res1) (auto simp: record_step_observation_def split: prod.splits sum.splits)
    with up upsert_recorded [OF ok found] have rec: "step_recorded js ob st s s1" "db_events s1 = db_events s" by auto
    from run res get found up \<open>res1 = Inr st\<close> obtain k p ev where
        app: "sqlite_append_event js db now (ob_flow_id ob) k p s1 = (Inr ev, s')"
      by (auto simp: record_step_observation_def split: prod.splits sum.splits)
    from append_event_log [OF app] rec show ?thesis by (simp add: step_recorded_def flow_log_def)
  qed
  with view show ?thesis by simp
qed

definition sample_observation :: step_observation where
  "sample_observation = \<lparr>ob_flow_id = Uuid 1, ob_run_id = ''r1'', ob_task = ''t'', ob_status = StepRunning,
     ob_child_session_key = None, ob_result_json = None\<rparr>"

definition observed_payload :: json where
  "observed_payload = JObject [(''run_id'', JString ''r1''), (''status'', JString ''running''), (''runtime'', JString ''mirrored'')]"

definition two_codec :: json_codec where
  "two_codec = \<lparr>to_text = (\<lambda>v. if v = JObject [] then Inr ''{}'' else if v = observed_payload then Inr ''o'' else Inl ''unsupported''),
     of_text = (\<lambda>t. if t = ''{}'' then Inr (JObject []) else if t = ''o'' then Inr observed_payload else Inl ''syntax'')\<rparr>"

lemma two_codec_law: "codec_law two_codec"
  by (auto simp: codec_law_def two_codec_def split: if_splits)

theorem observation_upserts_one_step_witness:
  "let s0 = snd (sqlite_insert two_codec (\<lambda>_. True) sample_flow empty_flow_db);
       st = fresh_step (Uuid 5) 3 sample_observation
   in fst (record_step_observation (sqlite_ops two_codec (\<lambda>_. True) 9) (Uuid 5) 3 sample_observation s0) = Inr st \<and>
      step_recorded two_codec sample_observation st s0
        (snd (record_step_observation (sqlite_ops two_codec (\<lambda>_. True) 9) (Uuid 5) 3 sample_observation s0))"
proof -
  let ?s0 = "snd (sqlite_insert two_codec (\<lambda>_. True) sample_flow empty_flow_db)"
  let ?run = "record_step_observation (sqlite_ops two_codec (\<lambda>_. True) 9) (Uuid 5) 3 sample_observation ?s0"
  have ok: "flow_db_ok two_codec ?s0" by (intro sqlite_insert_wf empty_flow_db_wf two_codec_law)
  have cols: "flow_columns two_codec sample_flow = Inr (''{}'', None)"
    by (simp add: flow_columns_def json_column_def opt_json_column_def two_codec_def sample_flow_def)
  have s0: "?s0 = empty_flow_db\<lparr>db_flows := [flow_to_row sample_flow (''{}'', None)]\<rparr>"
    by (simp add: sqlite_insert_def cols find_flow_def empty_flow_db_def)
  have row: "row_to_flow two_codec (flow_to_row sample_flow (''{}'', None)) = Inr sample_flow"
    by (rule flow_row_roundtrip [OF two_codec_law cols])
  have id: "fr_id (flow_to_row sample_flow (''{}'', None)) = Uuid 1" by (simp add: flow_to_row_def sample_flow_def)
  have pay: "json_column two_codec (JObject [(''run_id'', JString ''r1''), (''status'', JString ''running''),
      (''runtime'', JString ''mirrored'')]) = Inr ''o''"
    by (simp add: json_column_def two_codec_def observed_payload_def)
  have "fst ?run = Inr (fresh_step (Uuid 5) 3 sample_observation)"
    unfolding s0
    by (simp add: pay record_step_observation_def upsert_step_def sqlite_get_def find_flow_def id row
        sqlite_find_step_def sqlite_insert_step_def step_columns_def opt_json_column_def sqlite_append_event_def
        fresh_step_def sample_observation_def empty_flow_db_def)
  with observation_upserts_one_step [OF ok surjective_pairing, of "\<lambda>_. True" 9 "Uuid 5" 3 sample_observation]
  show ?thesis by (simp add: Let_def)
qed

end
