(* ===== verification/Wait_Engine.thy ===== *)
theory Wait_Engine
  imports Flow_Manager
begin

section \<open>The wait engine (\<open>crates/taskflow/src/engine.rs\<close>)\<close>

text \<open>
  A waiting flow's \<open>wait_json\<close> is a tagged document; \<open>parse_time\<close> and \<open>show_time\<close> are chrono's
  reading and writing of timestamps.  A tick lists the waiting flows and moves those whose timer is
  due or whose cancel was requested, through the manager, while other tasks may use the store (\<open>env\<close>).
\<close>

datatype wait_condition = Timer timestamp | ExternalEvent string string | Manual

definition wait_into_value :: "(timestamp \<Rightarrow> string) \<Rightarrow> wait_condition \<Rightarrow> json" where
  "wait_into_value show_time c =
     (case c of
        Timer at \<Rightarrow> JObject [(''kind'', JString ''timer''), (''at'', JString (show_time at))]
      | ExternalEvent topic correlation \<Rightarrow>
          JObject [(''kind'', JString ''external_event''), (''topic'', JString topic),
                   (''correlation_id'', JString correlation)]
      | Manual \<Rightarrow> JObject [(''kind'', JString ''manual'')])"

definition json_string :: "json option \<Rightarrow> string option" where
  "json_string v = (case v of Some (JString t) \<Rightarrow> Some t | _ \<Rightarrow> None)"

definition wait_from_value :: "(string \<Rightarrow> timestamp option) \<Rightarrow> json \<Rightarrow> wait_condition option" where
  "wait_from_value parse_time v =
     (case json_string (json_get ''kind'' v) of
        None \<Rightarrow> None
      | Some kind \<Rightarrow>
          if kind = ''timer'' then
            Option.bind (json_string (json_get ''at'' v)) (\<lambda>t. map_option Timer (parse_time t))
          else if kind = ''external_event'' then
            Option.bind (json_string (json_get ''topic'' v)) (\<lambda>topic.
              map_option (ExternalEvent topic) (json_string (json_get ''correlation_id'' v)))
          else if kind = ''manual'' then Some Manual
          else None)"

record tick_report =
  scanned :: nat
  resumed :: nat
  cancelled_count :: nat
  still_waiting :: nat
  tick_errors :: nat

definition empty_report :: tick_report where
  "empty_report = \<lparr>scanned = 0, resumed = 0, cancelled_count = 0, still_waiting = 0, tick_errors = 0\<rparr>"

datatype wait_outcome = DoResume | DoCancel | DoWait | DoSkip string

definition evaluate :: "(string \<Rightarrow> timestamp option) \<Rightarrow> timestamp \<Rightarrow> flow \<Rightarrow> wait_outcome" where
  "evaluate parse_time now f =
     (if fl_cancel_requested f then DoCancel
      else (case fl_wait_json f of
              None \<Rightarrow> DoSkip ''missing wait_json''
            | Some v \<Rightarrow>
                (case wait_from_value parse_time v of
                   None \<Rightarrow> DoSkip ''unparseable wait_json''
                 | Some (Timer at) \<Rightarrow> if at \<le> now then DoResume else DoWait
                 | Some (ExternalEvent _ _) \<Rightarrow> DoWait
                 | Some Manual \<Rightarrow> DoWait)))"

definition count_cancel ::
  "'s flow_store_ops \<Rightarrow> (nat \<Rightarrow> 's \<Rightarrow> 's) \<Rightarrow> (nat \<Rightarrow> timestamp) \<Rightarrow> uuid \<Rightarrow> tick_report \<times> 's \<Rightarrow> tick_report \<times> 's" where
  "count_cancel ops env clock i rs =
     (case cancel_flow ops env clock i (snd rs) of
        (Inr _, s') \<Rightarrow> ((fst rs)\<lparr>cancelled_count := cancelled_count (fst rs) + 1\<rparr>, s')
      | (Inl _, s') \<Rightarrow> ((fst rs)\<lparr>tick_errors := tick_errors (fst rs) + 1\<rparr>, s'))"

definition tick_flow ::
  "(string \<Rightarrow> timestamp option) \<Rightarrow> 's flow_store_ops \<Rightarrow> (nat \<Rightarrow> 's \<Rightarrow> 's) \<Rightarrow> (nat \<Rightarrow> timestamp) \<Rightarrow> timestamp \<Rightarrow> flow
     \<Rightarrow> tick_report \<times> 's \<Rightarrow> tick_report \<times> 's" where
  "tick_flow parse_time ops env clock now f rs =
     (case evaluate parse_time now f of
        DoResume \<Rightarrow>
          (case resume_flow ops env clock (fl_id f) None (snd rs) of
             (Inr _, s') \<Rightarrow> ((fst rs)\<lparr>resumed := resumed (fst rs) + 1\<rparr>, s')
           | (Inl (CancelPending _), s') \<Rightarrow> count_cancel ops env clock (fl_id f) (fst rs, s')
           | (Inl _, s') \<Rightarrow> ((fst rs)\<lparr>tick_errors := tick_errors (fst rs) + 1\<rparr>, s'))
      | DoCancel \<Rightarrow> count_cancel ops env clock (fl_id f) rs
      | DoWait \<Rightarrow> ((fst rs)\<lparr>still_waiting := still_waiting (fst rs) + 1\<rparr>, snd rs)
      | DoSkip _ \<Rightarrow> rs)"

fun tick_loop ::
  "(string \<Rightarrow> timestamp option) \<Rightarrow> 's flow_store_ops \<Rightarrow> (nat \<Rightarrow> 's \<Rightarrow> 's) \<Rightarrow> (nat \<Rightarrow> timestamp) \<Rightarrow> timestamp \<Rightarrow> flow list
     \<Rightarrow> tick_report \<times> 's \<Rightarrow> tick_report \<times> 's" where
  "tick_loop parse_time ops env clock now [] rs = rs"
| "tick_loop parse_time ops env clock now (f # fs) rs =
     tick_loop parse_time ops env clock now fs (tick_flow parse_time ops env clock now f rs)"

definition tick_at ::
  "(string \<Rightarrow> timestamp option) \<Rightarrow> 's flow_store_ops \<Rightarrow> (nat \<Rightarrow> 's \<Rightarrow> 's) \<Rightarrow> (nat \<Rightarrow> timestamp) \<Rightarrow> timestamp \<Rightarrow> 's
     \<Rightarrow> tick_report \<times> 's" where
  "tick_at parse_time ops env clock now s =
     (case op_list_by_status ops Waiting s of
        Inl _ \<Rightarrow> (empty_report\<lparr>tick_errors := 1\<rparr>, s)
      | Inr fs \<Rightarrow> tick_loop parse_time ops env clock now fs (empty_report\<lparr>scanned := length fs\<rparr>, s))"

definition try_resume_external ::
  "(string \<Rightarrow> timestamp option) \<Rightarrow> 's flow_store_ops \<Rightarrow> (nat \<Rightarrow> 's \<Rightarrow> 's) \<Rightarrow> (nat \<Rightarrow> timestamp) \<Rightarrow> uuid \<Rightarrow> string \<Rightarrow> string
     \<Rightarrow> json option \<Rightarrow> 's \<Rightarrow> (flow_error + flow option) \<times> 's" where
  "try_resume_external parse_time ops env clock i topic correlation payload s =
     (case op_get ops i s of
        Inl e \<Rightarrow> (Inl e, s)
      | Inr None \<Rightarrow> (Inr None, s)
      | Inr (Some f) \<Rightarrow>
          if fl_status f \<noteq> Waiting then (Inr None, s)
          else (case Option.bind (fl_wait_json f) (wait_from_value parse_time) of
                  None \<Rightarrow> (Inr None, s)
                | Some c \<Rightarrow>
                    if c \<noteq> ExternalEvent topic correlation then (Inr None, s)
                    else (case resume_flow ops env clock (fl_id f)
                                 (map_option (\<lambda>p. JObject [(''resume_event'', p)]) payload) s of
                            (Inl e, s') \<Rightarrow> (Inl e, s')
                          | (Inr f', s') \<Rightarrow> (Inr (Some f'), s'))))"

subsection \<open>Conditions as documents\<close>

text \<open>A wait condition is read back from the document it is written as, when chrono reads back the
  timestamps it writes.\<close>

theorem wait_condition_roundtrip:
  assumes "\<forall>t. parse_time (show_time t) = Some t"
  shows "wait_from_value parse_time (wait_into_value show_time c) = Some c"
  using assms by (cases c) (simp_all add: wait_into_value_def wait_from_value_def json_string_def)

theorem wait_condition_roundtrip_witness:
  "wait_from_value (\<lambda>t. Some (int (length t) * (if hd (t @ ''+'') = CHR ''-'' then -1 else 1)))
      (wait_into_value (\<lambda>t. replicate (nat \<bar>t\<bar>) (if t < 0 then CHR ''-'' else CHR ''+'')) (Timer (-3)))
    = Some (Timer (-3))"
proof -
  have "\<forall>t. (\<lambda>t. Some (int (length t) * (if hd (t @ ''+'') = CHR ''-'' then -1 else 1)))
      (replicate (nat \<bar>t\<bar>) (if t < 0 then CHR ''-'' else CHR ''+'')) = Some t"
  proof
    fix t :: int
    show "(\<lambda>t. Some (int (length t) * (if hd (t @ ''+'') = CHR ''-'' then -1 else 1)))
      (replicate (nat \<bar>t\<bar>) (if t < 0 then CHR ''-'' else CHR ''+'')) = Some t"
      by (cases "nat \<bar>t\<bar>") auto
  qed
  then show ?thesis by (rule wait_condition_roundtrip)
qed

subsection \<open>The report\<close>

definition is_skip :: "wait_outcome \<Rightarrow> bool" where
  "is_skip oc = (case oc of DoSkip _ \<Rightarrow> True | _ \<Rightarrow> False)"

definition accounted :: "tick_report \<Rightarrow> nat" where
  "accounted r = resumed r + cancelled_count r + still_waiting r + tick_errors r"

lemma count_cancel_report:
  "accounted (fst (count_cancel ops env clock i rs)) = Suc (accounted (fst rs)) \<and>
   scanned (fst (count_cancel ops env clock i rs)) = scanned (fst rs)"
  by (auto simp: count_cancel_def accounted_def split: prod.split sum.split)

lemma tick_flow_report:
  "accounted (fst (tick_flow pt ops env clock now f rs))
     = accounted (fst rs) + of_bool (\<not> is_skip (evaluate pt now f)) \<and>
   scanned (fst (tick_flow pt ops env clock now f rs)) = scanned (fst rs)"
proof (cases "evaluate pt now f")
  case DoResume
  obtain res s' where "resume_flow ops env clock (fl_id f) None (snd rs) = (res, s')" by fastforce
  with DoResume count_cancel_report [of ops env clock "fl_id f" "(fst rs, s')"] show ?thesis
    by (cases res; cases "projl res") (auto simp: tick_flow_def is_skip_def accounted_def)
qed (auto simp: tick_flow_def is_skip_def accounted_def count_cancel_report [unfolded accounted_def])

lemma tick_loop_report:
  "accounted (fst (tick_loop pt ops env clock now fs rs))
     = accounted (fst rs) + length (filter (\<lambda>f. \<not> is_skip (evaluate pt now f)) fs) \<and>
   scanned (fst (tick_loop pt ops env clock now fs rs)) = scanned (fst rs)"
  by (induction fs arbitrary: rs) (simp_all add: tick_flow_report)

text \<open>The report of a tick adds up over every store and whatever other tasks do: if the listing fails, the tick
  does nothing and reports one error; otherwise it has scanned every waiting flow, and resumed, cancelled,
  waiting and failed ones together are the scanned ones less those skipped for a missing or unreadable wait.\<close>

theorem tick_report_adds_up:
  "let (r, s') = tick_at parse_time ops env clock now s in
   case op_list_by_status ops Waiting s of
     Inl _ \<Rightarrow> r = empty_report\<lparr>tick_errors := 1\<rparr> \<and> s' = s
   | Inr fs \<Rightarrow> scanned r = length fs \<and>
       resumed r + cancelled_count r + still_waiting r + tick_errors r
         = scanned r - length (filter (\<lambda>f. is_skip (evaluate parse_time now f)) fs)"
proof (cases "op_list_by_status ops Waiting s")
  case (Inr fs)
  then show ?thesis
    using tick_loop_report [of parse_time ops env clock now fs "(empty_report\<lparr>scanned := length fs\<rparr>, s)"]
      sum_length_filter_compl [of "\<lambda>f. is_skip (evaluate parse_time now f)" fs]
    by (auto simp: tick_at_def case_prod_unfold accounted_def empty_report_def)
qed (simp add: tick_at_def)

subsection \<open>A tick nobody disturbs\<close>

lemma quiet_move:
  assumes ok: "flow_db_ok js s" and key: "keeps_key mutate" and up: "\<forall>q. db q"
    and view: "flow_view js s i = Some cur" and g: "mutate t cur = Inr g"
    and enc: "\<not> isl (flow_columns js g)" "\<not> isl (json_column js payload)"
  shows "\<exists>f' s'. with_retry (sqlite_ops js db now) (\<lambda>k s. s) (\<lambda>k. t) i kind payload mutate s = (Inr f', s') \<and>
    flow_db_ok js s' \<and> flow_view js s' = (flow_view js s)(i \<mapsto> f') \<and> written g cur f'"
proof -
  have app: "applies js mutate t cur" using g enc by (auto simp: applies_def)
  obtain f' s' where run: "with_retry (sqlite_ops js db now) (\<lambda>k s. s) (\<lambda>k. t) i kind payload mutate s = (Inr f', s')"
    using retry_progress [where env = "\<lambda>k s. s" and clock = "\<lambda>k. t", OF ok key up identity_disciplined view view app app
        enc(2) view] by blast
  from sqlite.retry_atomic [OF identity_disciplined key ok run [unfolded with_retry_def]] view g run show ?thesis
    by (auto simp: others_only_nobody)
qed

definition storable :: "json_codec \<Rightarrow> flow \<Rightarrow> bool" where
  "storable js f \<longleftrightarrow> \<not> isl (flow_columns js f) \<and> \<not> isl (flow_columns js (f\<lparr>fl_wait_json := None\<rparr>))"

text \<open>What becomes of a waiting flow.\<close>

definition after_tick :: "(string \<Rightarrow> timestamp option) \<Rightarrow> timestamp \<Rightarrow> flow \<Rightarrow> flow option \<Rightarrow> bool" where
  "after_tick parse_time now f f' \<longleftrightarrow>
     (case evaluate parse_time now f of
        DoResume \<Rightarrow> (\<exists>g. f' = Some g \<and> fl_status g = Running \<and> fl_wait_json g = None \<and> fl_state_json g = fl_state_json f)
      | DoCancel \<Rightarrow> (\<exists>g. f' = Some g \<and> fl_status g = Cancelled)
      | _ \<Rightarrow> f' = Some f)"

lemma resume_columns: "flow_columns js (f\<lparr>fl_status := st, fl_updated_at := u, fl_wait_json := w\<rparr>) = flow_columns js (f\<lparr>fl_wait_json := w\<rparr>)"
  and status_columns: "flow_columns js (f\<lparr>fl_status := st, fl_updated_at := u\<rparr>) = flow_columns js f"
  by (simp_all add: flow_columns_def)

lemma tick_flow_quiet:
  assumes ok: "flow_db_ok js s" and up: "\<forall>q. db q" and view: "flow_view js s (fl_id f) = Some f"
    and waiting: "fl_status f = Waiting" and enc: "storable js f"
    and payloads: "\<not> isl (json_column js (JObject []))" "\<not> isl (json_column js (JObject [(''state_patch'', JNull)]))"
  shows "\<exists>r' s'. tick_flow pt (sqlite_ops js db now) (\<lambda>k s. s) (\<lambda>k. t) now' f (r, s) = (r', s') \<and> flow_db_ok js s' \<and>
    (\<forall>i. i \<noteq> fl_id f \<longrightarrow> flow_view js s' i = flow_view js s i) \<and> after_tick pt now' f (flow_view js s' (fl_id f))"
proof (cases "evaluate pt now' f")
  case DoResume
  then have free: "\<not> fl_cancel_requested f" by (auto simp: evaluate_def)
  let ?g = "f\<lparr>fl_status := Running, fl_updated_at := t, fl_wait_json := None\<rparr>"
  have "and_then (transition_to t Running f) (\<lambda>g. Inr (merge_patch None (g\<lparr>fl_wait_json := None\<rparr>))) = Inr ?g"
    using free waiting by (auto simp: and_then_Inr_iff transition_to_Inr can_transition_cases is_terminal_def merge_patch_def)
  from quiet_move [OF ok keeps_key_others(2) up view this, of "JObject [(''state_patch'', JNull)]" now "''resumed''"]
  obtain f' s' where run: "resume_flow (sqlite_ops js db now) (\<lambda>k s. s) (\<lambda>k. t) (fl_id f) None s = (Inr f', s')"
      and "flow_db_ok js s'" "flow_view js s' = (flow_view js s)(fl_id f \<mapsto> f')" "written ?g f f'"
    using enc payloads(2) by (auto simp: resume_flow_def storable_def resume_columns)
  with DoResume show ?thesis
    by (simp add: tick_flow_def after_tick_def) (use written_fields in fastforce)
next
  case DoCancel
  let ?g = "f\<lparr>fl_status := Cancelled, fl_updated_at := t\<rparr>"
  have "transition_to t Cancelled f = Inr ?g"
    using waiting by (auto simp: transition_to_Inr can_transition_cases is_terminal_def)
  from quiet_move [OF ok keeps_key_transition up view this, of "JObject []" now "''cancelled''"]
  obtain f' s' where run: "cancel_flow (sqlite_ops js db now) (\<lambda>k s. s) (\<lambda>k. t) (fl_id f) s = (Inr f', s')"
      and "flow_db_ok js s'" "flow_view js s' = (flow_view js s)(fl_id f \<mapsto> f')" "written ?g f f'"
    using enc payloads(1) by (auto simp: cancel_flow_def storable_def status_columns)
  with DoCancel show ?thesis
    by (simp add: tick_flow_def count_cancel_def after_tick_def) (use written_fields in fastforce)
qed (use ok view in \<open>simp_all add: tick_flow_def after_tick_def\<close>)

lemma tick_loop_quiet:
  assumes up: "\<forall>q. db q"
    and payloads: "\<not> isl (json_column js (JObject []))" "\<not> isl (json_column js (JObject [(''state_patch'', JNull)]))"
    and "flow_db_ok js s" "distinct (map fl_id fs)"
    and "\<forall>f \<in> set fs. flow_view js s (fl_id f) = Some f \<and> fl_status f = Waiting \<and> storable js f"
  shows "\<exists>r' s'. tick_loop pt (sqlite_ops js db now) (\<lambda>k s. s) (\<lambda>k. t) now' fs (r, s) = (r', s') \<and> flow_db_ok js s' \<and>
    (\<forall>i. i \<notin> fl_id ` set fs \<longrightarrow> flow_view js s' i = flow_view js s i) \<and>
    (\<forall>f \<in> set fs. after_tick pt now' f (flow_view js s' (fl_id f)))"
  using assms(4-6)
proof (induction fs arbitrary: r s)
  case Nil
  then show ?case by simp
next
  case (Cons f fs)
  have f: "flow_view js s (fl_id f) = Some f" "fl_status f = Waiting" "storable js f" using Cons.prems by auto
  from tick_flow_quiet [OF Cons.prems(1) up f payloads, of pt now t now' r] obtain r1 s1
    where step: "tick_flow pt (sqlite_ops js db now) (\<lambda>k s. s) (\<lambda>k. t) now' f (r, s) = (r1, s1)"
      and ok1: "flow_db_ok js s1"
      and frame: "\<forall>i. i \<noteq> fl_id f \<longrightarrow> flow_view js s1 i = flow_view js s i"
      and done1: "after_tick pt now' f (flow_view js s1 (fl_id f))" by blast
  have fresh: "fl_id f \<notin> fl_id ` set fs" and dist: "distinct (map fl_id fs)" using Cons.prems(2) by auto
  have "\<forall>g \<in> set fs. flow_view js s1 (fl_id g) = Some g \<and> fl_status g = Waiting \<and> storable js g"
  proof
    fix g assume g: "g \<in> set fs"
    with fresh have "fl_id g \<noteq> fl_id f" by (metis imageI)
    with frame g Cons.prems(3) show "flow_view js s1 (fl_id g) = Some g \<and> fl_status g = Waiting \<and> storable js g"
      by simp
  qed
  from Cons.IH [OF ok1 dist this, of r1] obtain r' s'
    where loop: "tick_loop pt (sqlite_ops js db now) (\<lambda>k s. s) (\<lambda>k. t) now' fs (r1, s1) = (r', s')"
      and ok': "flow_db_ok js s'" and frame': "\<forall>i. i \<notin> fl_id ` set fs \<longrightarrow> flow_view js s' i = flow_view js s1 i"
      and done': "\<forall>g \<in> set fs. after_tick pt now' g (flow_view js s' (fl_id g))" by blast
  have "after_tick pt now' f (flow_view js s' (fl_id f))" using done1 frame' fresh by simp
  moreover have "\<forall>i. i \<notin> fl_id ` set (f # fs) \<longrightarrow> flow_view js s' i = flow_view js s i"
    using frame frame' by simp
  ultimately show ?case using step loop ok' done' by simp
qed

lemma list_waiting:
  assumes ok: "flow_db_ok js s" and up: "db SelectFlows"
  obtains fs where "sqlite_list_by_status js db st s = Inr fs" "distinct (map fl_id fs)"
    "\<forall>f. f \<in> set fs \<longleftrightarrow> flow_view js s (fl_id f) = Some f \<and> fl_status f = st"
proof -
  have wf: "flow_db_wf js s" using ok by (simp add: flow_db_ok_def)
  let ?rows = "sort_key fr_updated_at (filter (\<lambda>r. fr_status r = flow_status_str st) (db_flows s))"
  let ?the = "\<lambda>r. projr (row_to_flow js r)"
  have parse: "row_to_flow js r = Inr (?the r)" if "r \<in> set (db_flows s)" for r
    using wf that by (auto simp: flow_db_wf_def row_ok_iff)
  have "map (row_to_flow js) ?rows = map Inr (map ?the ?rows)"
    using parse by auto
  then have list: "sqlite_list_by_status js db st s = Inr (map ?the ?rows)"
    using up by (simp add: sqlite_list_by_status_def collect_results_Inr)
  have ids: "map fl_id (map ?the ?rows) = map fr_id ?rows"
    using parse row_to_flow_fields by (auto intro!: map_cong)
  have "distinct (map fr_id (db_flows s))" using wf by (simp add: flow_db_wf_def)
  then have "distinct (map fr_id ?rows)" by (simp add: distinct_map inj_on_def)
  moreover have "f \<in> set (map ?the ?rows) \<longleftrightarrow> flow_view js s (fl_id f) = Some f \<and> fl_status f = st" for f
  proof
    assume "f \<in> set (map ?the ?rows)"
    then obtain r where r: "r \<in> set (db_flows s)" "fr_status r = flow_status_str st" "f = ?the r" by auto
    with parse [OF r(1)] row_to_flow_fields [of js r f] show "flow_view js s (fl_id f) = Some f \<and> fl_status f = st"
      by (auto simp: flow_view_Some [OF wf] find_flow_wf [OF wf])
  next
    assume "flow_view js s (fl_id f) = Some f \<and> fl_status f = st"
    then obtain r where r: "r \<in> set (db_flows s)" "row_to_flow js r = Inr f" "fl_status f = st"
      by (auto simp: flow_view_Some [OF wf] find_flow_wf [OF wf])
    with row_to_flow_fields [OF r(2)] show "f \<in> set (map ?the ?rows)"
      by (auto simp: image_iff intro!: bexI [of _ r])
  qed
  ultimately show thesis using that [OF list] ids by metis
qed

text \<open>What a tick owes a waiting flow, said without \<open>evaluate\<close>.\<close>

definition timer_due :: "(string \<Rightarrow> timestamp option) \<Rightarrow> timestamp \<Rightarrow> flow \<Rightarrow> bool" where
  "timer_due parse_time now f \<longleftrightarrow>
     (\<exists>v at. fl_wait_json f = Some v \<and> wait_from_value parse_time v = Some (Timer at) \<and> at \<le> now)"

definition tick_effect :: "(string \<Rightarrow> timestamp option) \<Rightarrow> timestamp \<Rightarrow> flow \<Rightarrow> flow option \<Rightarrow> bool" where
  "tick_effect parse_time now f f' \<longleftrightarrow>
     (if fl_cancel_requested f then \<exists>g. f' = Some g \<and> fl_status g = Cancelled
      else if timer_due parse_time now f
      then \<exists>g. f' = Some g \<and> fl_status g = Running \<and> fl_wait_json g = None \<and> fl_state_json g = fl_state_json f
      else f' = Some f)"

lemma tick_effect_after: "after_tick parse_time now f f' \<Longrightarrow> tick_effect parse_time now f f'"
  by (auto simp: after_tick_def tick_effect_def timer_due_def evaluate_def
      split: option.splits wait_condition.splits if_splits)

text \<open>C10. A tick that runs undisturbed, with every statement succeeding, moves exactly the flows that are due: a
  waiting flow with a requested cancel becomes cancelled, one whose timer has expired becomes running with its
  wait cleared, and every other waiting flow, and every flow that does not wait, is as before.\<close>

theorem tick_moves_exactly_the_due_flows:
  assumes ok: "flow_db_ok js s" and up: "\<forall>q. db q"
    and enc: "\<forall>i f. flow_view js s i = Some f \<and> fl_status f = Waiting \<longrightarrow> storable js f"
    and payloads: "\<not> isl (json_column js (JObject []))" "\<not> isl (json_column js (JObject [(''state_patch'', JNull)]))"
  shows "let s' = snd (tick_at parse_time (sqlite_ops js db now) (\<lambda>k s. s) (\<lambda>k. t) now' s) in
    \<forall>i. case flow_view js s i of
          Some f \<Rightarrow> if fl_status f = Waiting then tick_effect parse_time now' f (flow_view js s' i)
                    else flow_view js s' i = Some f
        | None \<Rightarrow> flow_view js s' i = None"
proof -
  have up': "db SelectFlows" using up by simp
  obtain fs where list: "sqlite_list_by_status js db Waiting s = Inr fs" and dist: "distinct (map fl_id fs)"
      and fs: "\<forall>f. f \<in> set fs \<longleftrightarrow> flow_view js s (fl_id f) = Some f \<and> fl_status f = Waiting"
    by (rule list_waiting [where st = Waiting and db = db, OF ok up'])
  have "\<forall>f \<in> set fs. flow_view js s (fl_id f) = Some f \<and> fl_status f = Waiting \<and> storable js f"
    using fs enc by blast
  from tick_loop_quiet [OF up payloads ok dist this, of parse_time now t now' "empty_report\<lparr>scanned := length fs\<rparr>"]
  obtain r' s' where run: "tick_at parse_time (sqlite_ops js db now) (\<lambda>k s. s) (\<lambda>k. t) now' s = (r', s')"
    and frame: "\<forall>i. i \<notin> fl_id ` set fs \<longrightarrow> flow_view js s' i = flow_view js s i"
    and moved: "\<forall>f \<in> set fs. tick_effect parse_time now' f (flow_view js s' (fl_id f))"
    using tick_effect_after by (auto simp: tick_at_def list)
  have "case flow_view js s i of
          Some f \<Rightarrow> if fl_status f = Waiting then tick_effect parse_time now' f (flow_view js s' i)
                    else flow_view js s' i = Some f
        | None \<Rightarrow> flow_view js s' i = None" for i
  proof (cases "flow_view js s i")
    case None
    then have "i \<notin> fl_id ` set fs" using fs by force
    with None frame show ?thesis by simp
  next
    case (Some f)
    have id: "fl_id f = i" using sqlite.view_id [OF ok Some] .
    show ?thesis
    proof (cases "fl_status f = Waiting")
      case True
      with Some id fs moved show ?thesis by auto
    next
      case False
      have "i \<notin> fl_id ` set fs"
      proof
        assume "i \<in> fl_id ` set fs"
        then obtain g where "g \<in> set fs" "fl_id g = i" by blast
        with fs Some False show False by auto
      qed
      with Some False frame show ?thesis by simp
    qed
  qed
  then show ?thesis by (simp add: run)
qed

definition tick_codec :: json_codec where
  "tick_codec =
     \<lparr>to_text = (\<lambda>v. if v = JObject [] then Inr ''{}'' else if v = JObject [(''state_patch'', JNull)] then Inr ''p''
                      else Inl ''unsupported''),
      of_text = (\<lambda>t. if t = ''{}'' then Inr (JObject []) else if t = ''p'' then Inr (JObject [(''state_patch'', JNull)])
                      else Inl ''syntax'')\<rparr>"

lemma tick_codec_law: "codec_law tick_codec"
  by (auto simp: codec_law_def tick_codec_def split: if_splits)

theorem tick_moves_exactly_the_due_flows_witness:
  "let f = sample_flow\<lparr>fl_status := Waiting, fl_cancel_requested := True\<rparr>;
       s = snd (sqlite_insert tick_codec (\<lambda>_. True) f empty_flow_db);
       s' = snd (tick_at (\<lambda>_. None) (sqlite_ops tick_codec (\<lambda>_. True) 9) (\<lambda>k s. s) (\<lambda>k. 9) 9 s)
   in \<exists>g. flow_view tick_codec s' (Uuid 1) = Some g \<and> fl_status g = Cancelled"
proof -
  let ?f = "sample_flow\<lparr>fl_status := Waiting, fl_cancel_requested := True\<rparr>"
  let ?s = "snd (sqlite_insert tick_codec (\<lambda>_. True) ?f empty_flow_db)"
  have cols: "flow_columns tick_codec (?f\<lparr>fl_wait_json := None\<rparr>) = Inr (''{}'', None)" "flow_columns tick_codec ?f = Inr (''{}'', None)"
    by (simp_all add: flow_columns_def json_column_def opt_json_column_def tick_codec_def sample_flow_def)
  have ok: "flow_db_ok tick_codec ?s" by (intro sqlite_insert_wf empty_flow_db_wf tick_codec_law)
  have view: "flow_view tick_codec ?s (Uuid 1) = Some ?f"
    using insert_first_view [OF tick_codec_law cols(2), of "\<lambda>_. True"] by (simp add: sample_id)
  have "i = Uuid 1" if "flow_view tick_codec ?s i = Some f" for i f
    using insert_first_only [OF that] by (simp add: sample_id)
  with view have enc: "\<forall>i f. flow_view tick_codec ?s i = Some f \<and> fl_status f = Waiting \<longrightarrow> storable tick_codec f"
    using cols by (auto simp: storable_def)
  have pay: "\<not> isl (json_column tick_codec (JObject []))" "\<not> isl (json_column tick_codec (JObject [(''state_patch'', JNull)]))"
    by (simp_all add: json_column_def tick_codec_def)
  from tick_moves_exactly_the_due_flows [OF ok _ enc pay, of "\<lambda>_. True" "\<lambda>_. None" 9 9 9, unfolded Let_def, rule_format, of "Uuid 1"]
  show ?thesis by (simp add: view Let_def tick_effect_def)
qed

end
