(* ===== verification/Nats_Broker.thy ===== *)
theory Nats_Broker
  imports Circuit_Breaker Disk_Queue
begin

section \<open>The NATS broker (\<open>crates/broker/src/nats.rs\<close>)\<close>

text \<open>
  A broker publishes through the NATS client while its circuit breaker admits calls, and falls back
  to the disk queue otherwise.  The client is a parameter with a state of type \<open>'n\<close>; what the broker
  relies on is \<open>client_law\<close>.  Clock readings, serde and the faults of the database are arguments.
  A monitor task compares the connection state with the last one it saw and opens or resets the
  breaker; a reset starts a drain task.
\<close>

record 'n nats_broker =
  nb_circuit :: breaker
  nb_queue :: disk_queue
  nb_client :: 'n

definition nats_breaker_config :: breaker_config where
  "nats_breaker_config =
     \<lparr>failure_threshold = 2, success_threshold = 2,
      initial_backoff = 10 * 10 ^ 9, max_backoff = 120 * 10 ^ 9\<rparr>"

definition nats_connect :: "nat \<Rightarrow> 'n \<Rightarrow> 'n nats_broker" where
  "nats_connect cap client =
     \<lparr>nb_circuit = new_breaker ''nats'' nats_breaker_config, nb_queue = new_disk_queue cap, nb_client = client\<rparr>"

text \<open>What a publish needs from outside: serde, the database, the client, and three clock readings.\<close>

record 'n nats_env =
  ne_to_str :: "event \<Rightarrow> string + string"
  ne_to_vec :: "event \<Rightarrow> string + string"
  ne_client :: "string \<Rightarrow> string \<Rightarrow> 'n \<Rightarrow> (string + unit) \<times> 'n"
  ne_db :: "enqueue_stmt \<Rightarrow> bool"
  ne_show :: "queue_error \<Rightarrow> string"
  ne_allow_at :: instant
  ne_trip_at :: instant
  ne_now_ms :: int

definition fall_back ::
  "'n nats_env \<Rightarrow> (queue_error \<Rightarrow> string) \<Rightarrow> string \<Rightarrow> event \<Rightarrow> 'n nats_broker
     \<Rightarrow> (broker_error + unit) \<times> 'n nats_broker" where
  "fall_back w message topic e b =
     (case enqueue (ne_db w) (ne_to_str w) (ne_now_ms w) topic e (nb_queue b) of
        (Inr _, q) \<Rightarrow> (Inr (), b\<lparr>nb_queue := q\<rparr>)
      | (Inl err, q) \<Rightarrow> (Inl (SendError (message err)), b\<lparr>nb_queue := q\<rparr>))"

definition nats_publish ::
  "'n nats_env \<Rightarrow> string \<Rightarrow> event \<Rightarrow> 'n nats_broker \<Rightarrow> (broker_error + unit) \<times> 'n nats_broker" where
  "nats_publish w topic e b =
     (case allow (ne_allow_at w) (nb_circuit b) of
        (False, cb) \<Rightarrow> fall_back w (ne_show w) topic e (b\<lparr>nb_circuit := cb\<rparr>)
      | (True, cb) \<Rightarrow>
     (case ne_to_vec w e of
        Inl err \<Rightarrow> (Inl (SendError err), b\<lparr>nb_circuit := cb\<rparr>)
      | Inr bytes \<Rightarrow>
     (case ne_client w topic bytes (nb_client b) of
        (Inr _, c) \<Rightarrow> (Inr (), b\<lparr>nb_circuit := on_success cb, nb_client := c\<rparr>)
      | (Inl err, c) \<Rightarrow>
          fall_back w
            (\<lambda>qe. ''publish failed ('' @ err @ '') and disk-queue enqueue failed ('' @ ne_show w qe @ '')'')
            topic e (b\<lparr>nb_circuit := trip (ne_trip_at w) cb, nb_client := c\<rparr>))))"

subsection \<open>The connection monitor\<close>

datatype conn_state = Connected | Disconnected | PendingConn

text \<open>One round of the monitor: the new last state, the broker, and whether a drain task starts.\<close>

definition monitor_tick ::
  "instant \<Rightarrow> conn_state \<Rightarrow> conn_state \<times> 'n nats_broker \<Rightarrow> conn_state \<times> 'n nats_broker \<times> bool" where
  "monitor_tick now state s =
     (case s of (last_state, b) \<Rightarrow>
        (case (last_state, state) of
           (Connected, Disconnected) \<Rightarrow> (state, b\<lparr>nb_circuit := trip now (nb_circuit b)\<rparr>, False)
         | (Connected, PendingConn) \<Rightarrow> (state, b\<lparr>nb_circuit := trip now (nb_circuit b)\<rparr>, False)
         | (Disconnected, Connected) \<Rightarrow> (state, b\<lparr>nb_circuit := reset (nb_circuit b)\<rparr>, True)
         | (PendingConn, Connected) \<Rightarrow> (state, b\<lparr>nb_circuit := reset (nb_circuit b)\<rparr>, True)
         | _ \<Rightarrow> (state, b, False)))"

text \<open>The drain task, which opens the breaker again when the drain fails.\<close>

definition drain_task ::
  "(string \<Rightarrow> event option) \<Rightarrow> (event \<Rightarrow> string + string) \<Rightarrow> (string \<Rightarrow> string \<Rightarrow> 'n \<Rightarrow> (string + unit) \<times> 'n)
     \<Rightarrow> drain_faults \<Rightarrow> int \<Rightarrow> instant \<Rightarrow> 'n nats_broker \<Rightarrow> 'n nats_broker" where
  "drain_task from_str to_vec client db now_ms trip_at b =
     (case drain_nats from_str to_vec client db now_ms (nb_queue b, nb_client b) of
        (Inr _, q, c) \<Rightarrow> b\<lparr>nb_queue := q, nb_client := c\<rparr>
      | (Inl _, q, c) \<Rightarrow> b\<lparr>nb_queue := q, nb_client := c, nb_circuit := trip trip_at (nb_circuit b)\<rparr>)"

text \<open>The pause before the next attempt to subscribe again, in milliseconds.\<close>

definition resubscribe_backoff :: "nat \<Rightarrow> nat" where
  "resubscribe_backoff n = ((\<lambda>b. min (b * 2) 10000) ^^ n) 250"

lemma resubscribe_backoff_closed: "resubscribe_backoff n = min (250 * 2 ^ n) 10000"
  by (induction n) (auto simp: resubscribe_backoff_def min_def)

subsection \<open>Requests\<close>

text \<open>
  \<open>subscribe\<close> of the client and what the subscription of the inbox yields before the deadline are
  arguments, as are serde's two directions.
\<close>

definition nats_request ::
  "'n nats_env \<Rightarrow> (string \<Rightarrow> 'n \<Rightarrow> (string + unit) \<times> 'n) \<Rightarrow> (message \<Rightarrow> string + json) \<Rightarrow> (json \<Rightarrow> string + message)
     \<Rightarrow> string \<Rightarrow> uuid \<Rightarrow> timestamp \<Rightarrow> ('n nats_broker \<Rightarrow> event option) \<Rightarrow> string \<Rightarrow> message \<Rightarrow> 'n nats_broker
     \<Rightarrow> (broker_error + message) \<times> 'n nats_broker" where
  "nats_request w subscribe to_value from_value inbox fresh now next_event topic msg b =
     (case subscribe inbox (nb_client b) of
        (Inl err, c) \<Rightarrow> (Inl (SubscribeError err), b\<lparr>nb_client := c\<rparr>)
      | (Inr _, c) \<Rightarrow>
     (case to_value (msg\<lparr>msg_reply_to := Some inbox\<rparr>) of
        Inl err \<Rightarrow> (Inl (SendError err), b\<lparr>nb_client := c\<rparr>)
      | Inr payload \<Rightarrow>
     (case nats_publish w topic (new_event fresh now topic ''nats'' payload) (b\<lparr>nb_client := c\<rparr>) of
        (Inl err, b') \<Rightarrow> (Inl err, b')
      | (Inr _, b') \<Rightarrow>
     (case next_event b' of
        None \<Rightarrow> (Inl (RequestTimeout topic), b')
      | Some reply \<Rightarrow>
          (case from_value (ev_payload reply) of
             Inl err \<Rightarrow> (Inl (SendError (''failed to deserialize reply: '' @ err)), b')
           | Inr m \<Rightarrow> (Inr m, b'))))))"

subsection \<open>What the broker relies on of its queue\<close>

locale fallback_queue =
  fixes put :: "'e \<Rightarrow> 'q \<Rightarrow> ('err + unit) \<times> 'q"
    and ident :: "'e \<Rightarrow> uuid"
    and holds :: "'q \<Rightarrow> uuid \<Rightarrow> bool"
    and evicts :: "'q \<Rightarrow> uuid \<Rightarrow> bool"
  assumes put_holds: "fst (put e q) = Inr () \<Longrightarrow> holds (snd (put e q)) (ident e)"
    and put_keeps: "holds q i \<Longrightarrow> \<not> evicts q i \<Longrightarrow> holds (snd (put e q)) i"
begin

text \<open>After two successful puts both events are held, unless the second evicted the first.\<close>

lemma put_put_holds:
  assumes "fst (put e q) = Inr ()" "fst (put e' (snd (put e q))) = Inr ()"
    "\<not> evicts (snd (put e q)) (ident e)"
  shows "holds (snd (put e' (snd (put e q)))) (ident e) \<and> holds (snd (put e' (snd (put e q)))) (ident e')"
  using assms by (auto intro: put_holds put_keeps)

end

interpretation spill: fallback_queue "\<lambda>(topic, e). enqueue db to_str now topic e" "\<lambda>(topic, e). ev_id e"
    queue_holds evicted_by_enqueue for db to_str now
  by unfold_locales (auto intro: enqueue_ok_holds enqueue_holds)

lemma fall_back_fields:
  "nb_circuit (snd (fall_back w m topic e b)) = nb_circuit b"
  "nb_client (snd (fall_back w m topic e b)) = nb_client b"
  "nb_queue (snd (fall_back w m topic e b)) = snd (enqueue (ne_db w) (ne_to_str w) (ne_now_ms w) topic e (nb_queue b))"
  "fst (fall_back w m topic e b) = Inr () \<longleftrightarrow>
     fst (enqueue (ne_db w) (ne_to_str w) (ne_now_ms w) topic e (nb_queue b)) = Inr ()"
  by (auto simp: fall_back_def split: prod.split sum.split)

lemma fall_back_holds:
  "fst (fall_back w m topic e b) = Inr () \<Longrightarrow> queue_holds (nb_queue (snd (fall_back w m topic e b))) (ev_id e)"
  using spill.put_holds [of "ne_db w" "ne_to_str w" "ne_now_ms w" "(topic, e)" "nb_queue b"]
  by (simp add: fall_back_fields)

lemma fall_back_keeps:
  "queue_holds (nb_queue b) i \<Longrightarrow> \<not> evicted_by_enqueue (nb_queue b) i \<Longrightarrow>
     queue_holds (nb_queue (snd (fall_back w m topic e b))) i"
  using spill.put_keeps [of "nb_queue b" i "ne_db w" "ne_to_str w" "ne_now_ms w" "(topic, e)"]
  by (simp add: fall_back_fields)


definition down_env :: "instant \<Rightarrow> (string \<times> string) list nats_env" where
  "down_env t = \<lparr>ne_to_str = (\<lambda>_. Inr ''p''), ne_to_vec = (\<lambda>_. Inr ''b''), ne_client = log_client,
     ne_db = (\<lambda>_. True), ne_show = (\<lambda>_. ''''), ne_allow_at = t, ne_trip_at = t, ne_now_ms = int t\<rparr>"


subsection \<open>An open breaker shields the client\<close>

fun nats_publishes :: "('n nats_env \<times> string \<times> event) list \<Rightarrow> 'n nats_broker \<Rightarrow> 'n nats_broker" where
  "nats_publishes [] b = b"
| "nats_publishes ((w, topic, e) # ps) b = nats_publishes ps (snd (nats_publish w topic e b))"

lemma blocked_publish:
  "allow (ne_allow_at w) (nb_circuit b) = (False, nb_circuit b) \<Longrightarrow>
     nb_circuit (snd (nats_publish w topic e b)) = nb_circuit b \<and>
     nb_client (snd (nats_publish w topic e b)) = nb_client b"
  by (simp add: nats_publish_def fall_back_fields)

lemma tripped_shields:
  assumes inv: "breaker_inv cb" and "nb_circuit b = trip t cb"
    and "\<forall>(w, topic, e) \<in> set ps. ne_allow_at w < t + breaker_pause cb"
  shows "nb_client (nats_publishes ps b) = nb_client b \<and> nb_circuit (nats_publishes ps b) = trip t cb"
  using assms(2,3)
proof (induction ps arbitrary: b)
  case (Cons p ps)
  obtain w topic e where p: "p = (w, topic, e)" by (cases p) auto
  with Cons.prems have "ne_allow_at w < t + breaker_pause cb" by simp
  from guard.blocked_for_pause [OF inv this] Cons.prems(1)
  have "allow (ne_allow_at w) (nb_circuit b) = (False, nb_circuit b)" by simp
  from blocked_publish [OF this, of topic e] Cons.IH [of "snd (nats_publish w topic e b)"] Cons.prems
  show ?case by (simp add: p)
qed simp

text \<open>Once the monitor has seen the connection drop, the client is left alone for the
  whole pause: every publish whose clock reading lies before the end of the pause goes to the disk queue,
  whatever the events, and the client's state does not change.\<close>

theorem open_breaker_shields_client:
  assumes inv: "breaker_inv (nb_circuit b)"
    and down: "monitor_tick t st (Connected, b) = (st, b1, False)" "st \<noteq> Connected"
    and early: "\<forall>(w, topic, e) \<in> set ps. ne_allow_at w < t + breaker_pause (nb_circuit b)"
  shows "nb_client (nats_publishes ps b1) = nb_client b"
proof -
  have "b1 = b\<lparr>nb_circuit := trip t (nb_circuit b)\<rparr>"
    using down by (cases st) (auto simp: monitor_tick_def)
  with tripped_shields [OF inv _ early, of b1] show ?thesis by simp
qed

theorem open_breaker_shields_client_witness:
  "nb_client (nats_publishes [(down_env 6, ''up'', plain_event)]
     (fst (snd (monitor_tick 5 Disconnected (Connected, nats_connect 10 []))))) = []"
proof -
  let ?b = "nats_connect 10 ([] :: (string \<times> string) list)"
  have inv: "breaker_inv (nb_circuit ?b)" by (simp add: nats_connect_def new_breaker_inv)
  have down: "monitor_tick 5 Disconnected (Connected, ?b)
      = (Disconnected, fst (snd (monitor_tick 5 Disconnected (Connected, ?b))), False)"
    by (simp add: monitor_tick_def)
  have early: "\<forall>(w, topic, e) \<in> set [(down_env 6, ''up'', plain_event)]. ne_allow_at w < 5 + breaker_pause (nb_circuit ?b)"
    by (simp add: down_env_def breaker_pause_def nats_connect_def new_breaker_def nats_breaker_config_def)
  from open_breaker_shields_client [OF inv down _ early] show ?thesis by (simp add: nats_connect_def)
qed

end
