(* ===== verification/Agent_Types.thy ===== *)
theory Agent_Types
  imports Json
begin

section \<open>Goals and their handles (\<open>crates/agent-registry/src/types.rs\<close>)\<close>

text \<open>
  What the registry keeps of a goal, with the records of \<open>driver-types\<close> and \<open>driver-claude\<close> it embeds.
  \<open>GoalId\<close> is a UUID.
\<close>

datatype agent_run_status =
  AgRunning | AgSleeping | AgQueued | AgPaused | AgDone | AgFailed | AgCancelled | AgLostOnRestart

definition agent_terminal :: "agent_run_status \<Rightarrow> bool" where
  "agent_terminal s \<longleftrightarrow> s = AgDone \<or> s = AgFailed \<or> s = AgCancelled \<or> s = AgLostOnRestart"

primrec agent_status_str :: "agent_run_status \<Rightarrow> string" where
  "agent_status_str AgRunning = ''running''"
| "agent_status_str AgSleeping = ''sleeping''"
| "agent_status_str AgQueued = ''queued''"
| "agent_status_str AgPaused = ''paused''"
| "agent_status_str AgDone = ''done''"
| "agent_status_str AgFailed = ''failed''"
| "agent_status_str AgCancelled = ''cancelled''"
| "agent_status_str AgLostOnRestart = ''lost_on_restart''"

record agent_sleep_state =
  sl_wake_at :: timestamp
  sl_duration_ms :: "64 word"
  sl_reason :: string

record ask_pending_state =
  ap_question_id :: string
  ap_question :: string
  ap_asked_at :: timestamp
  ap_timeout_secs :: "64 word"

record budget_usage =
  bu_turns :: u32
  bu_wall_time :: duration
  bu_tokens :: "64 word"
  bu_consecutive_denies :: u32
  bu_consecutive_errors :: u32
  bu_consecutive_413 :: u32

definition no_usage :: budget_usage where
  "no_usage = \<lparr>bu_turns = 0, bu_wall_time = 0, bu_tokens = 0, bu_consecutive_denies = 0,
     bu_consecutive_errors = 0, bu_consecutive_413 = 0\<rparr>"

record acceptance_failure =
  af_criterion_index :: nat
  af_criterion_label :: string
  af_message :: string
  af_evidence :: "string option"

record acceptance_verdict =
  av_met :: bool
  av_failures :: "acceptance_failure list"
  av_evaluated_at :: timestamp
  av_elapsed_ms :: "64 word"

record origin_channel =
  oc_plugin :: string
  oc_instance :: string
  oc_sender_id :: string
  oc_correlation_id :: "string option"

record dispatcher_identity =
  di_agent_id :: string
  di_sender_id :: "string option"
  di_parent_goal_id :: "uuid option"
  di_chain_depth :: u32

record agent_snapshot =
  sn_turn_index :: u32
  sn_max_turns :: u32
  sn_usage :: budget_usage
  sn_last_acceptance :: "acceptance_verdict option"
  sn_last_decision_summary :: "string option"
  sn_last_event_at :: timestamp
  sn_last_diff_stat :: "string option"
  sn_last_progress_text :: "string option"
  sn_sleep :: "agent_sleep_state option"
  sn_ask_pending :: "ask_pending_state option"

definition default_snapshot :: "timestamp \<Rightarrow> agent_snapshot" where
  "default_snapshot now =
     \<lparr>sn_turn_index = 0, sn_max_turns = 0, sn_usage = no_usage, sn_last_acceptance = None,
      sn_last_decision_summary = None, sn_last_event_at = now, sn_last_diff_stat = None,
      sn_last_progress_text = None, sn_sleep = None, sn_ask_pending = None\<rparr>"

datatype session_kind = Interactive | Bg | Daemon | DaemonWorker

primrec session_kind_str :: "session_kind \<Rightarrow> string" where
  "session_kind_str Interactive = ''interactive''"
| "session_kind_str Bg = ''bg''"
| "session_kind_str Daemon = ''daemon''"
| "session_kind_str DaemonWorker = ''daemon_worker''"

definition session_kind_of_str :: "string \<Rightarrow> session_kind option" where
  "session_kind_of_str s =
     (if s = ''interactive'' then Some Interactive
      else if s = ''bg'' then Some Bg
      else if s = ''daemon'' then Some Daemon
      else if s = ''daemon_worker'' then Some DaemonWorker
      else None)"

definition survives_restart :: "session_kind \<Rightarrow> bool" where
  "survives_restart k \<longleftrightarrow> k = Bg \<or> k = Daemon \<or> k = DaemonWorker"

record agent_handle =
  ah_goal_id :: uuid
  ah_phase_id :: string
  ah_status :: agent_run_status
  ah_origin :: "origin_channel option"
  ah_dispatcher :: "dispatcher_identity option"
  ah_started_at :: timestamp
  ah_finished_at :: "timestamp option"
  ah_snapshot :: agent_snapshot
  ah_plan_mode :: "string option"
  ah_kind :: session_kind

text \<open>Whole seconds, at least zero, as nanoseconds.\<close>

definition second :: int where "second = 1000000000"

definition elapsed :: "timestamp \<Rightarrow> agent_handle \<Rightarrow> duration" where
  "elapsed now h =
     (let finish = (case ah_finished_at h of Some t \<Rightarrow> t | None \<Rightarrow> now);
          secs = (if ah_started_at h \<le> finish then (finish - ah_started_at h) div second else 0)
      in nat (secs * second))"

datatype registry_error =
    GoalNotFound uuid
  | CapReached u32 u32
  | InvalidTransition agent_run_status agent_run_status
  | StoreError

text \<open>A list row.  Numbers are rendered in decimal; the dash of a goal without origin is its UTF-8 bytes.\<close>

record agent_summary =
  as_goal_id :: uuid
  as_phase_id :: string
  as_status :: agent_run_status
  as_turn :: string
  as_wall :: duration
  as_origin :: string

definition summary_of_handle :: "timestamp \<Rightarrow> agent_handle \<Rightarrow> agent_summary" where
  "summary_of_handle now h =
     \<lparr>as_goal_id = ah_goal_id h, as_phase_id = ah_phase_id h, as_status = ah_status h,
      as_turn =
        (if 0 < sn_max_turns (ah_snapshot h)
         then show_decimal (unat (sn_turn_index (ah_snapshot h))) @ ''/'' @ show_decimal (unat (sn_max_turns (ah_snapshot h)))
         else show_decimal (unat (sn_turn_index (ah_snapshot h)))),
      as_wall = elapsed now h,
      as_origin =
        (case ah_origin h of
           Some c \<Rightarrow> oc_plugin c @ '':'' @ oc_instance c @ ''@'' @ oc_sender_id c
         | None \<Rightarrow> [CHR 0xE2, CHR 0x80, CHR 0x94])\<rparr>"

lemma session_kind_str_roundtrip [simp]: "session_kind_of_str (session_kind_str k) = Some k"
  by (cases k) (simp_all add: session_kind_of_str_def)

lemma session_kind_str_inject [simp]: "session_kind_str a = session_kind_str b \<longleftrightarrow> a = b"
  by (cases a; cases b) simp_all

lemma agent_status_str_inject [simp]: "agent_status_str a = agent_status_str b \<longleftrightarrow> a = b"
  by (cases a; cases b) simp_all

end
