(* ===== verification/Agent_Store.thy ===== *)
theory Agent_Store
  imports Agent_Types "HOL-Library.Multiset"
begin

section \<open>The registry's store (\<open>crates/agent-registry/src/store.rs\<close>)\<close>

text \<open>
  \<open>registry_store_ops\<close> is the trait \<open>AgentRegistryStore\<close>, and the locale \<open>handle_store\<close> what it
  promises: a store is a partial map from goals to handles, where writing a handle may coarsen it (\<open>norm\<close>).  Both
  implementations are modelled: the in-memory map, which keeps handles exactly, and the SQLite table, whose columns
  keep times in whole seconds and override the JSON blob when a row is read.  The blob is serde's and kept as
  the handle itself.
\<close>

record 's registry_store_ops =
  rs_upsert :: "agent_handle \<Rightarrow> 's \<Rightarrow> (registry_error + unit) \<times> 's"
  rs_get :: "uuid \<Rightarrow> 's \<Rightarrow> registry_error + agent_handle option"
  rs_list :: "'s \<Rightarrow> registry_error + agent_handle list"
  rs_remove :: "uuid \<Rightarrow> 's \<Rightarrow> (registry_error + unit) \<times> 's"
  rs_evict :: "timestamp \<Rightarrow> 's \<Rightarrow> (registry_error + nat) \<times> 's"

locale handle_store =
  fixes ops :: "'s registry_store_ops"
    and stored :: "'s \<Rightarrow> uuid \<Rightarrow> agent_handle option"
    and norm :: "agent_handle \<Rightarrow> agent_handle"
    and ok :: "'s \<Rightarrow> bool"
  assumes upsert_ok: "ok s \<Longrightarrow> rs_upsert ops h s = (Inr (), s') \<Longrightarrow>
      ok s' \<and> (\<forall>i. i \<noteq> ah_goal_id h \<longrightarrow> stored s' i = stored s i) \<and>
      (\<exists>h'. stored s' (ah_goal_id h) = Some h' \<and> norm h' = norm h)"
    and upsert_err: "rs_upsert ops h s = (Inl e, s') \<Longrightarrow> s' = s"
    and get_stored: "ok s \<Longrightarrow> rs_get ops i s = Inr r \<Longrightarrow> r = stored s i"
    and remove_ok: "ok s \<Longrightarrow> rs_remove ops i s = (Inr (), s') \<Longrightarrow> ok s' \<and> stored s' = (stored s)(i := None)"
    and norm_status: "norm h = norm h' \<Longrightarrow> ah_status h = ah_status h' \<and> ah_kind h = ah_kind h' \<and> ah_goal_id h = ah_goal_id h'"
begin

text \<open>Writing twice leaves the second handle, up to what the store coarsens.\<close>

lemma upsert_upsert:
  assumes "ok s" "rs_upsert ops h s = (Inr (), s1)" "rs_upsert ops h' s1 = (Inr (), s2)" "ah_goal_id h' = ah_goal_id h"
  shows "\<exists>g. stored s2 (ah_goal_id h) = Some g \<and> norm g = norm h'"
  using upsert_ok [OF assms(1,2)] upsert_ok [of s1 h' s2] assms(3,4) by auto

end

text \<open>A store whose listing is exactly what it holds, one handle per goal.\<close>

locale listing_store = handle_store ops stored norm ok
  for ops :: "'s registry_store_ops" and stored norm ok +
  assumes list_stored: "ok s \<Longrightarrow> rs_list ops s = Inr hs \<Longrightarrow>
      distinct (map ah_goal_id hs) \<and> (\<forall>i h. stored s i = Some h \<longleftrightarrow> h \<in> set hs \<and> ah_goal_id h = i)"

subsection \<open>The in-memory store\<close>

type_synonym memory_store = "(uuid, agent_handle) table"

definition newest_first :: "agent_handle list \<Rightarrow> agent_handle list" where
  "newest_first hs = sort_key (\<lambda>h. - ah_started_at h) hs"

definition terminal_before :: "timestamp \<Rightarrow> agent_handle \<Rightarrow> bool" where
  "terminal_before cutoff h \<longleftrightarrow> agent_terminal (ah_status h) \<and>
     (case ah_finished_at h of Some t \<Rightarrow> t < cutoff | None \<Rightarrow> False)"

definition mem_upsert :: "agent_handle \<Rightarrow> memory_store \<Rightarrow> (registry_error + unit) \<times> memory_store" where
  "mem_upsert h s = (Inr (), AList.update (ah_goal_id h) h s)"

definition mem_get :: "uuid \<Rightarrow> memory_store \<Rightarrow> registry_error + agent_handle option" where
  "mem_get i s = Inr (map_of s i)"

definition mem_list :: "memory_store \<Rightarrow> registry_error + agent_handle list" where
  "mem_list s = Inr (newest_first (map snd s))"

definition mem_list_by_status :: "agent_run_status \<Rightarrow> memory_store \<Rightarrow> registry_error + agent_handle list" where
  "mem_list_by_status st s = Inr (newest_first (filter (\<lambda>h. ah_status h = st) (map snd s)))"

definition mem_remove :: "uuid \<Rightarrow> memory_store \<Rightarrow> (registry_error + unit) \<times> memory_store" where
  "mem_remove i s = (Inr (), AList.delete i s)"

definition mem_evict :: "timestamp \<Rightarrow> memory_store \<Rightarrow> (registry_error + nat) \<times> memory_store" where
  "mem_evict cutoff s =
     (let victims = map fst (filter (\<lambda>(i, h). terminal_before cutoff h) s)
      in (Inr (length victims), foldl (\<lambda>m i. AList.delete i m) s victims))"

definition memory_ops :: "memory_store registry_store_ops" where
  "memory_ops = \<lparr>rs_upsert = mem_upsert, rs_get = mem_get, rs_list = mem_list, rs_remove = mem_remove, rs_evict = mem_evict\<rparr>"

definition mem_ok :: "memory_store \<Rightarrow> bool" where
  "mem_ok s \<longleftrightarrow> wf_table s \<and> (\<forall>(i, h) \<in> set s. ah_goal_id h = i)"

lemma mem_ok_update: "mem_ok s \<Longrightarrow> mem_ok (AList.update (ah_goal_id h) h s)"
proof -
  assume ok: "mem_ok s"
  then have wf: "wf_table (AList.update (ah_goal_id h) h s)" by (simp add: mem_ok_def)
  have "ah_goal_id g = i" if "(i, g) \<in> set (AList.update (ah_goal_id h) h s)" for i g
    using that ok map_of_in_table [OF wf, of i g] map_of_in_table [of s i g]
    by (auto simp: table_simps mem_ok_def split: if_splits)
  with wf show ?thesis by (auto simp: mem_ok_def)
qed

interpretation mem: handle_store memory_ops map_of "\<lambda>h. h" mem_ok
  by unfold_locales
    (auto simp: memory_ops_def mem_upsert_def mem_get_def mem_remove_def table_simps mem_ok_update,
     auto simp: mem_ok_def table_simps)

interpretation mem_list: listing_store memory_ops map_of "\<lambda>h. h" mem_ok
proof unfold_locales
  fix s hs
  assume ok: "mem_ok s" and ls: "rs_list memory_ops s = Inr hs"
  have hs: "mset hs = mset (map snd s)" "set hs = snd ` set s"
    using ls by (force simp: memory_ops_def mem_list_def newest_first_def)+
  have keys: "map ah_goal_id (map snd s) = map fst s"
    using ok by (auto simp: mem_ok_def)
  have "distinct (map ah_goal_id hs) = distinct (map ah_goal_id (map snd s))"
    by (rule mset_eq_imp_distinct_iff) (simp only: mset_map hs(1))
  then have "distinct (map ah_goal_id hs)" using ok unfolding keys by (simp add: mem_ok_def wf_table_def)
  moreover have "map_of s i = Some h \<longleftrightarrow> h \<in> set hs \<and> ah_goal_id h = i" for i h
    using ok map_of_in_table [of s i h] by (force simp: hs(2) mem_ok_def)
  ultimately show "distinct (map ah_goal_id hs) \<and> (\<forall>i h. map_of s i = Some h \<longleftrightarrow> h \<in> set hs \<and> ah_goal_id h = i)"
    by blast
qed

subsection \<open>The SQLite store\<close>

record agent_row =
  ar_goal_id :: uuid
  ar_phase_id :: string
  ar_status :: string
  ar_started_at :: int
  ar_finished_at :: "int option"
  ar_handle_json :: agent_handle
  ar_plan_mode :: "string option"
  ar_sleep_wake_at :: "int option"
  ar_sleep_duration_ms :: "int option"
  ar_sleep_reason :: "string option"
  ar_kind :: "string option"

definition to_unix :: "timestamp \<Rightarrow> int" where
  "to_unix t = t div second"

definition from_unix :: "int \<Rightarrow> timestamp" where
  "from_unix s = s * second"

definition parse_status :: "string \<Rightarrow> registry_error + agent_run_status" where
  "parse_status s =
     (if s = ''running'' then Inr AgRunning
      else if s = ''sleeping'' then Inr AgSleeping
      else if s = ''queued'' then Inr AgQueued
      else if s = ''paused'' then Inr AgPaused
      else if s = ''done'' then Inr AgDone
      else if s = ''failed'' then Inr AgFailed
      else if s = ''cancelled'' then Inr AgCancelled
      else if s = ''lost_on_restart'' then Inr AgLostOnRestart
      else Inl StoreError)"

lemma parse_status_str [simp]: "parse_status (agent_status_str s) = Inr s"
  by (cases s) (simp_all add: parse_status_def)

text \<open>The sleep columns make a sleep state only when all three are there and the duration is not negative.\<close>

definition row_sleep :: "agent_row \<Rightarrow> agent_sleep_state option" where
  "row_sleep r =
     (case (ar_sleep_wake_at r, ar_sleep_duration_ms r, ar_sleep_reason r) of
        (Some wake, Some ms, Some reason) \<Rightarrow>
          if 0 \<le> ms then Some \<lparr>sl_wake_at = from_unix wake, sl_duration_ms = word_of_int ms, sl_reason = reason\<rparr>
          else None
      | _ \<Rightarrow> None)"

definition row_to_handle :: "agent_row \<Rightarrow> registry_error + agent_handle" where
  "row_to_handle r =
     and_then (parse_status (ar_status r)) (\<lambda>status.
     and_then (case ar_kind r of
                 None \<Rightarrow> Inr (ah_kind (ar_handle_json r))
               | Some k \<Rightarrow> (case session_kind_of_str k of None \<Rightarrow> Inl StoreError | Some kind \<Rightarrow> Inr kind)) (\<lambda>kind.
       Inr ((ar_handle_json r)\<lparr>ah_goal_id := ar_goal_id r, ah_status := status,
          ah_started_at := from_unix (ar_started_at r),
          ah_finished_at := map_option from_unix (ar_finished_at r),
          ah_plan_mode := ar_plan_mode r,
          ah_snapshot := (ah_snapshot (ar_handle_json r))\<lparr>sn_sleep := row_sleep r\<rparr>,
          ah_kind := kind\<rparr>)))"

text \<open>\<open>duration_ms as i64\<close> reinterprets the unsigned value.\<close>

definition handle_to_row :: "agent_handle \<Rightarrow> agent_row" where
  "handle_to_row h =
     \<lparr>ar_goal_id = ah_goal_id h, ar_phase_id = ah_phase_id h, ar_status = agent_status_str (ah_status h),
      ar_started_at = to_unix (ah_started_at h), ar_finished_at = map_option to_unix (ah_finished_at h),
      ar_handle_json = h, ar_plan_mode = ah_plan_mode h,
      ar_sleep_wake_at = map_option (\<lambda>s. to_unix (sl_wake_at s)) (sn_sleep (ah_snapshot h)),
      ar_sleep_duration_ms = map_option (\<lambda>s. sint (sl_duration_ms s)) (sn_sleep (ah_snapshot h)),
      ar_sleep_reason = map_option sl_reason (sn_sleep (ah_snapshot h)),
      ar_kind = Some (session_kind_str (ah_kind h))\<rparr>"

type_synonym agent_db = "agent_row list"

datatype agent_stmt = UpsertAgent | SelectAgent | ListAgents | DeleteAgent | EvictAgents | FlipAgents

text \<open>\<open>INSERT ... ON CONFLICT(goal_id) DO UPDATE\<close>: the conflict branch leaves \<open>started_at\<close> as it was.\<close>

definition upsert_row :: "agent_row \<Rightarrow> agent_db \<Rightarrow> agent_db" where
  "upsert_row r s =
     (if ar_goal_id r \<in> ar_goal_id ` set s
      then map (\<lambda>x. if ar_goal_id x = ar_goal_id r then r\<lparr>ar_started_at := ar_started_at x\<rparr> else x) s
      else s @ [r])"

definition sql_upsert :: "(agent_stmt \<Rightarrow> bool) \<Rightarrow> agent_handle \<Rightarrow> agent_db \<Rightarrow> (registry_error + unit) \<times> agent_db" where
  "sql_upsert db h s =
     (if \<not> db UpsertAgent then (Inl StoreError, s) else (Inr (), upsert_row (handle_to_row h) s))"

definition sql_get :: "(agent_stmt \<Rightarrow> bool) \<Rightarrow> uuid \<Rightarrow> agent_db \<Rightarrow> registry_error + agent_handle option" where
  "sql_get db i s =
     (if \<not> db SelectAgent then Inl StoreError
      else (case find (\<lambda>r. ar_goal_id r = i) s of
              None \<Rightarrow> Inr None
            | Some r \<Rightarrow> and_then (row_to_handle r) (\<lambda>h. Inr (Some h))))"

definition sql_list_where :: "(agent_row \<Rightarrow> bool) \<Rightarrow> (agent_stmt \<Rightarrow> bool) \<Rightarrow> agent_db \<Rightarrow> registry_error + agent_handle list" where
  "sql_list_where P db s =
     (if \<not> db ListAgents then Inl StoreError
      else collect_results (map row_to_handle (sort_key (\<lambda>r. - ar_started_at r) (filter P s))))"

definition sql_list :: "(agent_stmt \<Rightarrow> bool) \<Rightarrow> agent_db \<Rightarrow> registry_error + agent_handle list" where
  "sql_list db s = sql_list_where (\<lambda>_. True) db s"

definition sql_list_by_status ::
  "agent_run_status \<Rightarrow> (agent_stmt \<Rightarrow> bool) \<Rightarrow> agent_db \<Rightarrow> registry_error + agent_handle list" where
  "sql_list_by_status st db s = sql_list_where (\<lambda>r. ar_status r = agent_status_str st) db s"

definition sql_list_by_kind ::
  "session_kind \<Rightarrow> (agent_stmt \<Rightarrow> bool) \<Rightarrow> agent_db \<Rightarrow> registry_error + agent_handle list" where
  "sql_list_by_kind k db s = sql_list_where (\<lambda>r. ar_kind r = Some (session_kind_str k)) db s"

definition sql_remove :: "(agent_stmt \<Rightarrow> bool) \<Rightarrow> uuid \<Rightarrow> agent_db \<Rightarrow> (registry_error + unit) \<times> agent_db" where
  "sql_remove db i s =
     (if \<not> db DeleteAgent then (Inl StoreError, s) else (Inr (), filter (\<lambda>r. ar_goal_id r \<noteq> i) s))"

definition sql_evictable :: "timestamp \<Rightarrow> agent_row \<Rightarrow> bool" where
  "sql_evictable cutoff r \<longleftrightarrow>
     ar_status r \<in> set [''done'', ''failed'', ''cancelled'', ''lost_on_restart''] \<and>
     (case ar_finished_at r of Some t \<Rightarrow> t < to_unix cutoff | None \<Rightarrow> False)"

definition sql_evict :: "(agent_stmt \<Rightarrow> bool) \<Rightarrow> timestamp \<Rightarrow> agent_db \<Rightarrow> (registry_error + nat) \<times> agent_db" where
  "sql_evict db cutoff s =
     (if \<not> db EvictAgents then (Inl StoreError, s)
      else (Inr (length (filter (sql_evictable cutoff) s)), filter (\<lambda>r. \<not> sql_evictable cutoff r) s))"

text \<open>Kind-aware reattach: interactive goals that were running are lost, all others keep running.\<close>

definition flips :: "agent_row \<Rightarrow> bool" where
  "flips r \<longleftrightarrow> ar_status r = ''running'' \<and> ar_kind r = Some ''interactive''"

definition reattach_running_kind_aware ::
  "(agent_stmt \<Rightarrow> bool) \<Rightarrow> timestamp \<Rightarrow> agent_db \<Rightarrow> (registry_error + nat) \<times> agent_db" where
  "reattach_running_kind_aware db now s =
     (if \<not> db FlipAgents then (Inl StoreError, s)
      else (Inr (length (filter flips s)),
            map (\<lambda>r. if flips r then r\<lparr>ar_status := ''lost_on_restart'', ar_finished_at := Some (to_unix now)\<rparr> else r) s))"

definition agent_sql_ops :: "(agent_stmt \<Rightarrow> bool) \<Rightarrow> agent_db registry_store_ops" where
  "agent_sql_ops db = \<lparr>rs_upsert = sql_upsert db, rs_get = sql_get db, rs_list = sql_list db,
     rs_remove = sql_remove db, rs_evict = sql_evict db\<rparr>"

subsection \<open>The SQLite store as a handle store\<close>

text \<open>What reading a row back loses of the handle that was written: fractions of a second, the start time of a goal
  that was already there, and a sleep longer than \<open>i64\<close> milliseconds.\<close>

definition whole_seconds :: "timestamp \<Rightarrow> timestamp" where
  "whole_seconds t = from_unix (to_unix t)"

definition coarse_sleep :: "agent_sleep_state \<Rightarrow> agent_sleep_state option" where
  "coarse_sleep s = (if 0 \<le> sint (sl_duration_ms s) then Some (s\<lparr>sl_wake_at := whole_seconds (sl_wake_at s)\<rparr>) else None)"

definition coarse_from :: "timestamp \<Rightarrow> agent_handle \<Rightarrow> agent_handle" where
  "coarse_from started h =
     h\<lparr>ah_started_at := started, ah_finished_at := map_option whole_seconds (ah_finished_at h),
       ah_snapshot := (ah_snapshot h)\<lparr>sn_sleep := Option.bind (sn_sleep (ah_snapshot h)) coarse_sleep\<rparr>\<rparr>"

definition coarse :: "agent_handle \<Rightarrow> agent_handle" where
  "coarse h = coarse_from 0 h"

definition stored_row :: "agent_db \<Rightarrow> uuid \<Rightarrow> agent_handle option" where
  "stored_row s i =
     (case find (\<lambda>r. ar_goal_id r = i) s of
        None \<Rightarrow> None
      | Some r \<Rightarrow> (case row_to_handle r of Inl e \<Rightarrow> None | Inr h \<Rightarrow> Some h))"

definition agent_rows_ok :: "agent_db \<Rightarrow> bool" where
  "agent_rows_ok s \<longleftrightarrow> distinct (map ar_goal_id s) \<and> (\<forall>r \<in> set s. \<not> isl (row_to_handle r))"

lemma whole_seconds_idem [simp]: "whole_seconds (whole_seconds t) = whole_seconds t"
  by (simp add: whole_seconds_def from_unix_def to_unix_def second_def)

lemma from_unix_to_unix [simp]: "from_unix (to_unix t) = whole_seconds t"
  by (simp add: whole_seconds_def)

lemma row_sleep_handle:
  "row_sleep ((handle_to_row h)\<lparr>ar_started_at := t\<rparr>) = Option.bind (sn_sleep (ah_snapshot h)) coarse_sleep"
  by (cases "sn_sleep (ah_snapshot h)") (auto simp: row_sleep_def handle_to_row_def coarse_sleep_def)

lemma row_to_handle_written:
  "row_to_handle ((handle_to_row h)\<lparr>ar_started_at := t\<rparr>) = Inr (coarse_from (from_unix t) h)"
  unfolding row_to_handle_def coarse_from_def row_sleep_handle
  by (cases "ah_finished_at h") (simp_all add: handle_to_row_def)

lemma coarse_sleep_idem: "Option.bind (coarse_sleep y) coarse_sleep = coarse_sleep y"
  by (auto simp: coarse_sleep_def)

lemma coarse_coarse_from: "coarse (coarse_from t h) = coarse h"
  by (simp add: coarse_def coarse_from_def coarse_sleep_idem option.map_comp comp_def)


lemma handle_row_goal [simp]: "ar_goal_id (handle_to_row h) = ah_goal_id h"
  by (simp add: handle_to_row_def)

lemma upsert_row_goals:
  "map ar_goal_id (upsert_row r s) = (if ar_goal_id r \<in> ar_goal_id ` set s then map ar_goal_id s else map ar_goal_id s @ [ar_goal_id r])"
  by (auto simp: upsert_row_def)

lemma upsert_row_other:
  "i \<noteq> ar_goal_id r \<Longrightarrow> find (\<lambda>x. ar_goal_id x = i) (upsert_row r s) = find (\<lambda>x. ar_goal_id x = i) s"
proof (cases "ar_goal_id r \<in> ar_goal_id ` set s")
  case True
  assume i: "i \<noteq> ar_goal_id r"
  have "find (\<lambda>x. ar_goal_id x = i)
          (map (\<lambda>x. if ar_goal_id x = ar_goal_id r then r\<lparr>ar_started_at := ar_started_at x\<rparr> else x) xs)
        = find (\<lambda>x. ar_goal_id x = i) xs" for xs
    using i by (induction xs) auto
  with True show ?thesis by (simp add: upsert_row_def)
qed (simp add: upsert_row_def find_append split: option.split)

lemma upsert_row_same:
  "\<exists>t. find (\<lambda>x. ar_goal_id x = ar_goal_id r) (upsert_row r s) = Some (r\<lparr>ar_started_at := t\<rparr>)"
proof (cases "ar_goal_id r \<in> ar_goal_id ` set s")
  case True
  have "ar_goal_id r \<in> ar_goal_id ` set xs \<Longrightarrow>
        \<exists>t. find (\<lambda>x. ar_goal_id x = ar_goal_id r)
          (map (\<lambda>x. if ar_goal_id x = ar_goal_id r then r\<lparr>ar_started_at := ar_started_at x\<rparr> else x) xs)
        = Some (r\<lparr>ar_started_at := t\<rparr>)" for xs
    by (induction xs) auto
  with True show ?thesis by (simp add: upsert_row_def)
next
  case False
  then have "find (\<lambda>x. ar_goal_id x = ar_goal_id r) s = None" by (simp add: find_key_None)
  with False have "find (\<lambda>x. ar_goal_id x = ar_goal_id r) (upsert_row r s) = Some (r\<lparr>ar_started_at := ar_started_at r\<rparr>)"
    by (simp add: upsert_row_def find_append)
  then show ?thesis by (rule exI)
qed

lemma upsert_row_set:
  "x \<in> set (upsert_row r s) \<Longrightarrow> x \<in> set s \<or> (\<exists>t. x = r\<lparr>ar_started_at := t\<rparr>)"
  by (auto simp: upsert_row_def split: if_splits) (metis agent_row.surjective agent_row.update_convs(4))

lemma agent_rows_ok_upsert:
  assumes "agent_rows_ok s"
  shows "agent_rows_ok (upsert_row (handle_to_row h) s)"
proof -
  have "distinct (map ar_goal_id (upsert_row (handle_to_row h) s))"
    using assms by (auto simp: upsert_row_goals agent_rows_ok_def)
  moreover have "\<not> isl (row_to_handle x)" if "x \<in> set (upsert_row (handle_to_row h) s)" for x
    using upsert_row_set [OF that] assms by (auto simp: agent_rows_ok_def row_to_handle_written)
  ultimately show ?thesis by (simp add: agent_rows_ok_def)
qed

lemma stored_row_upsert:
  "stored_row (upsert_row (handle_to_row h) s) i =
     (if i = ah_goal_id h then stored_row (upsert_row (handle_to_row h) s) i else stored_row s i)"
  by (simp add: stored_row_def upsert_row_other)

lemma stored_row_upsert_same:
  "\<exists>g. stored_row (upsert_row (handle_to_row h) s) (ah_goal_id h) = Some g \<and> coarse g = coarse h"
proof -
  obtain t where "find (\<lambda>x. ar_goal_id x = ah_goal_id h) (upsert_row (handle_to_row h) s) = Some ((handle_to_row h)\<lparr>ar_started_at := t\<rparr>)"
    using upsert_row_same [of "handle_to_row h" s] by auto
  then show ?thesis by (simp add: stored_row_def row_to_handle_written coarse_coarse_from)
qed

lemma stored_row_get:
  "agent_rows_ok s \<Longrightarrow> sql_get db i s = Inr r \<Longrightarrow> r = stored_row s i"
  by (auto simp: sql_get_def stored_row_def and_then_Inr_iff split: if_splits option.splits)

lemma stored_row_remove: "stored_row (filter (\<lambda>r. ar_goal_id r \<noteq> i) s) = (stored_row s)(i := None)"
proof
  fix j
  have "find (\<lambda>r. ar_goal_id r = j) (filter (\<lambda>r. ar_goal_id r \<noteq> i) s) =
        (if j = i then None else find (\<lambda>r. ar_goal_id r = j) s)"
    by (induction s) auto
  then show "stored_row (filter (\<lambda>r. ar_goal_id r \<noteq> i) s) j = ((stored_row s)(i := None)) j"
    by (simp add: stored_row_def)
qed

interpretation asql: handle_store "agent_sql_ops db" stored_row coarse agent_rows_ok
proof unfold_locales
  fix s s' h
  assume ok: "agent_rows_ok s" and up: "rs_upsert (agent_sql_ops db) h s = (Inr (), s')"
  then have s': "s' = upsert_row (handle_to_row h) s"
    by (auto simp: agent_sql_ops_def sql_upsert_def split: if_splits)
  have "stored_row s' i = stored_row s i" if "i \<noteq> ah_goal_id h" for i
    using stored_row_upsert [of h s i] that s' by simp
  with ok s' show "agent_rows_ok s' \<and> (\<forall>i. i \<noteq> ah_goal_id h \<longrightarrow> stored_row s' i = stored_row s i) \<and>
      (\<exists>g. stored_row s' (ah_goal_id h) = Some g \<and> coarse g = coarse h)"
    by (simp add: agent_rows_ok_upsert stored_row_upsert_same)
next
  fix e s s' h
  assume "rs_upsert (agent_sql_ops db) h s = (Inl e, s')"
  then show "s' = s" by (auto simp: agent_sql_ops_def sql_upsert_def split: if_splits)
next
  fix s i r
  assume "agent_rows_ok s" "rs_get (agent_sql_ops db) i s = Inr r"
  then show "r = stored_row s i" using stored_row_get by (simp add: agent_sql_ops_def)
next
  fix s i s'
  assume "agent_rows_ok s" "rs_remove (agent_sql_ops db) i s = (Inr (), s')"
  then show "agent_rows_ok s' \<and> stored_row s' = (stored_row s)(i := None)"
    by (auto simp: agent_sql_ops_def sql_remove_def stored_row_remove agent_rows_ok_def distinct_map_filter split: if_splits)
next
  fix h h'
  assume "coarse h = coarse h'"
  then have "ah_status (coarse h) = ah_status (coarse h')" "ah_kind (coarse h) = ah_kind (coarse h')"
    "ah_goal_id (coarse h) = ah_goal_id (coarse h')" by simp_all
  then show "ah_status h = ah_status h' \<and> ah_kind h = ah_kind h' \<and> ah_goal_id h = ah_goal_id h'"
    by (simp add: coarse_def coarse_from_def)
qed

lemma collect_results_in:
  "collect_results (map f xs) = Inr ys \<Longrightarrow> y \<in> set ys \<longleftrightarrow> (\<exists>x \<in> set xs. f x = Inr y)"
  by (induction xs arbitrary: ys) (auto simp: and_then_Inr_iff)

lemma row_to_handle_goal: "row_to_handle r = Inr h \<Longrightarrow> ah_goal_id h = ar_goal_id r"
  by (auto simp: row_to_handle_def and_then_Inr_iff)

lemma collect_rows_goals:
  "collect_results (map row_to_handle rs) = Inr hs \<Longrightarrow> map ah_goal_id hs = map ar_goal_id rs"
  by (induction rs arbitrary: hs) (auto simp: and_then_Inr_iff row_to_handle_goal)

lemma stored_row_iff:
  assumes "distinct (map ar_goal_id s)"
  shows "stored_row s i = Some h \<longleftrightarrow> (\<exists>r \<in> set s. ar_goal_id r = i \<and> row_to_handle r = Inr h)"
  using assms by (induction s) (auto simp: stored_row_def split: sum.splits)

interpretation asql_list: listing_store "agent_sql_ops db" stored_row coarse agent_rows_ok
proof unfold_locales
  fix s hs
  assume ok: "agent_rows_ok s" and ls: "rs_list (agent_sql_ops db) s = Inr hs"
  let ?rs = "sort_key (\<lambda>r. - ar_started_at r) s"
  have col: "collect_results (map row_to_handle ?rs) = Inr hs"
    using ls by (simp add: agent_sql_ops_def sql_list_def sql_list_where_def split: if_splits)
  have "distinct (map ar_goal_id ?rs) = distinct (map ar_goal_id s)"
    using mset_eq_imp_distinct_iff [of "map ar_goal_id ?rs" "map ar_goal_id s"] by (simp add: mset_map)
  then have dist: "distinct (map ah_goal_id hs)" using collect_rows_goals [OF col] ok by (simp add: agent_rows_ok_def)
  have "stored_row s i = Some h \<longleftrightarrow> h \<in> set hs \<and> ah_goal_id h = i" for i h
    using ok collect_results_in [OF col, of h]
    unfolding agent_rows_ok_def using row_to_handle_goal by (auto simp: stored_row_iff)
  with dist show "distinct (map ah_goal_id hs) \<and> (\<forall>i h. stored_row s i = Some h \<longleftrightarrow> h \<in> set hs \<and> ah_goal_id h = i)"
    by blast
qed

end
