(* ===== verification/Agent_Registry.thy ===== *)
theory Agent_Registry
  imports Agent_Store
begin

section \<open>The registry of goals (\<open>crates/agent-registry/src/registry.rs\<close>)\<close>

text \<open>
  \<open>agent_registry\<close> is \<open>AgentRegistry\<close>: the in-memory map of entries, the FIFO of queued goals, the cap and
  the store.  Every operation takes the store's operations and the clock reading and returns the new registry beside its
  result.  An operation is taken as one step; the admission lock makes the decision part of \<open>admit\<close> one step in the code too.
\<close>

datatype admit_outcome = Admitted | QueuedAt nat | Rejected

record handle_meta =
  hm_phase_id :: string
  hm_status :: agent_run_status
  hm_origin :: "origin_channel option"
  hm_dispatcher :: "dispatcher_identity option"
  hm_started_at :: timestamp
  hm_finished_at :: "timestamp option"

record registry_entry =
  re_meta :: handle_meta
  re_snapshot :: agent_snapshot

record 's agent_registry =
  rg_inner :: "(uuid, registry_entry) table"
  rg_queue :: "uuid list"
  rg_cap :: u32
  rg_store :: 's

definition new_registry :: "'s \<Rightarrow> u32 \<Rightarrow> 's agent_registry" where
  "new_registry s cap = \<lparr>rg_inner = [], rg_queue = [], rg_cap = cap, rg_store = s\<rparr>"

definition set_cap :: "u32 \<Rightarrow> 's agent_registry \<Rightarrow> u32 \<times> 's agent_registry" where
  "set_cap cap r = (cap, r\<lparr>rg_cap := cap\<rparr>)"

text \<open>A handle composed from an entry: \<open>plan_mode\<close> and \<open>kind\<close> are not kept in memory.\<close>

definition entry_handle :: "uuid \<Rightarrow> registry_entry \<Rightarrow> agent_handle" where
  "entry_handle i e =
     \<lparr>ah_goal_id = i, ah_phase_id = hm_phase_id (re_meta e), ah_status = hm_status (re_meta e),
      ah_origin = hm_origin (re_meta e), ah_dispatcher = hm_dispatcher (re_meta e),
      ah_started_at = hm_started_at (re_meta e), ah_finished_at = hm_finished_at (re_meta e),
      ah_snapshot = re_snapshot e, ah_plan_mode = None, ah_kind = Interactive\<rparr>"

definition handle_entry :: "agent_handle \<Rightarrow> registry_entry" where
  "handle_entry h =
     \<lparr>re_meta = \<lparr>hm_phase_id = ah_phase_id h, hm_status = ah_status h, hm_origin = ah_origin h,
        hm_dispatcher = ah_dispatcher h, hm_started_at = ah_started_at h, hm_finished_at = ah_finished_at h\<rparr>,
      re_snapshot = ah_snapshot h\<rparr>"

definition reg_snapshot :: "uuid \<Rightarrow> 's agent_registry \<Rightarrow> agent_snapshot option" where
  "reg_snapshot i r = map_option re_snapshot (map_of (rg_inner r) i)"

definition reg_handle :: "uuid \<Rightarrow> 's agent_registry \<Rightarrow> agent_handle option" where
  "reg_handle i r = map_option (entry_handle i) (map_of (rg_inner r) i)"

definition status_of :: "'s agent_registry \<Rightarrow> uuid \<Rightarrow> agent_run_status option" where
  "status_of r i = map_option (\<lambda>e. hm_status (re_meta e)) (map_of (rg_inner r) i)"

definition list_handles_in_memory :: "'s agent_registry \<Rightarrow> agent_handle list" where
  "list_handles_in_memory r = map (\<lambda>(i, e). entry_handle i e) (rg_inner r)"

text \<open>\<open>Running\<close> and \<open>Sleeping\<close> goals occupy a slot.\<close>

definition occupies :: "agent_run_status \<Rightarrow> bool" where
  "occupies s \<longleftrightarrow> s = AgRunning \<or> s = AgSleeping"

definition occupying :: "'s agent_registry \<Rightarrow> nat" where
  "occupying r = length (filter (\<lambda>(i, e). occupies (hm_status (re_meta e))) (rg_inner r))"

definition count_running :: "'s agent_registry \<Rightarrow> u32" where
  "count_running r = of_nat (occupying r)"

definition put_entry :: "uuid \<Rightarrow> registry_entry \<Rightarrow> 's agent_registry \<Rightarrow> 's agent_registry" where
  "put_entry i e r = r\<lparr>rg_inner := AList.update i e (rg_inner r)\<rparr>"

definition set_entry_status :: "timestamp \<Rightarrow> agent_run_status \<Rightarrow> registry_entry \<Rightarrow> registry_entry" where
  "set_entry_status now st e =
     e\<lparr>re_meta := (re_meta e)\<lparr>hm_status := st,
        hm_finished_at := (if agent_terminal st \<and> hm_finished_at (re_meta e) = None then Some now
                           else hm_finished_at (re_meta e))\<rparr>\<rparr>"

definition clear_entry_sleep :: "timestamp \<Rightarrow> registry_entry \<Rightarrow> registry_entry" where
  "clear_entry_sleep now e =
     (case sn_sleep (re_snapshot e) of
        None \<Rightarrow> e
      | Some _ \<Rightarrow> e\<lparr>re_snapshot := (re_snapshot e)\<lparr>sn_sleep := None, sn_last_event_at := now\<rparr>\<rparr>)"

definition clear_sleep_snapshot :: "timestamp \<Rightarrow> uuid \<Rightarrow> 's agent_registry \<Rightarrow> 's agent_registry" where
  "clear_sleep_snapshot now i r =
     (case map_of (rg_inner r) i of None \<Rightarrow> r | Some e \<Rightarrow> put_entry i (clear_entry_sleep now e) r)"

definition persist :: "'s registry_store_ops \<Rightarrow> uuid \<Rightarrow> 's agent_registry \<Rightarrow> (registry_error + unit) \<times> 's agent_registry" where
  "persist ops i r =
     (case reg_handle i r of
        None \<Rightarrow> (Inl (GoalNotFound i), r)
      | Some h \<Rightarrow> (case rs_upsert ops h (rg_store r) of (res, s') \<Rightarrow> (res, r\<lparr>rg_store := s'\<rparr>)))"

text \<open>A fresh handle, for evaluating the model.\<close>

definition sample_goal :: "128 word \<Rightarrow> agent_run_status \<Rightarrow> session_kind \<Rightarrow> agent_handle" where
  "sample_goal n st k =
     \<lparr>ah_goal_id = Uuid n, ah_phase_id = ''67.B'', ah_status = st, ah_origin = None, ah_dispatcher = None,
      ah_started_at = 0, ah_finished_at = None, ah_snapshot = default_snapshot 0, ah_plan_mode = None, ah_kind = k\<rparr>"

subsection \<open>Admission and release\<close>

definition admit_decision :: "uuid \<Rightarrow> bool \<Rightarrow> 's agent_registry \<Rightarrow> admit_outcome \<times> 's agent_registry" where
  "admit_decision i enqueue r =
     (if rg_cap r \<le> count_running r then
        if \<not> enqueue then (Rejected, r)
        else (QueuedAt (length (rg_queue r @ [i])), r\<lparr>rg_queue := rg_queue r @ [i]\<rparr>)
      else (Admitted, r))"

definition admitted_handle :: "admit_outcome \<Rightarrow> agent_handle \<Rightarrow> agent_handle" where
  "admitted_handle oc h =
     h\<lparr>ah_status := (if oc = Admitted then AgRunning else AgQueued),
       ah_snapshot := (ah_snapshot h)\<lparr>sn_sleep := None\<rparr>\<rparr>"

definition admit ::
  "'s registry_store_ops \<Rightarrow> agent_handle \<Rightarrow> bool \<Rightarrow> 's agent_registry \<Rightarrow> (registry_error + admit_outcome) \<times> 's agent_registry" where
  "admit ops h enqueue r =
     (case admit_decision (ah_goal_id h) enqueue r of
        (Rejected, r') \<Rightarrow> (Inr Rejected, r')
      | (oc, r') \<Rightarrow>
          let h' = admitted_handle oc h;
              r1 = put_entry (ah_goal_id h) (handle_entry h') r'
          in (case rs_upsert ops h' (rg_store r1) of
                (Inl e, s') \<Rightarrow> (Inl e, r1\<lparr>rg_store := s'\<rparr>)
              | (Inr _, s') \<Rightarrow> (Inr oc, r1\<lparr>rg_store := s'\<rparr>)))"

definition set_status ::
  "'s registry_store_ops \<Rightarrow> timestamp \<Rightarrow> uuid \<Rightarrow> agent_run_status \<Rightarrow> 's agent_registry \<Rightarrow> (registry_error + unit) \<times> 's agent_registry" where
  "set_status ops now i st r =
     (case map_of (rg_inner r) i of
        None \<Rightarrow> (Inl (GoalNotFound i), r)
      | Some e \<Rightarrow>
          let r1 = put_entry i (set_entry_status now st e) r;
              r2 = (if st \<noteq> AgSleeping then clear_sleep_snapshot now i r1 else r1)
          in persist ops i r2)"

definition promote_queued ::
  "'s registry_store_ops \<Rightarrow> timestamp \<Rightarrow> uuid \<Rightarrow> 's agent_registry \<Rightarrow> (registry_error + bool) \<times> 's agent_registry" where
  "promote_queued ops now i r =
     (if i \<notin> set (rg_queue r) then (Inr False, r)
      else (case set_status ops now i AgRunning (r\<lparr>rg_queue := filter (\<lambda>g. g \<noteq> i) (rg_queue r)\<rparr>) of
              (Inl e, r') \<Rightarrow> (Inl e, r')
            | (Inr _, r') \<Rightarrow> (Inr True, r')))"

text \<open>\<open>pop_front\<close> of the queue.\<close>

definition pop_queue :: "'s agent_registry \<Rightarrow> uuid option \<times> 's agent_registry" where
  "pop_queue r = (case rg_queue r of [] \<Rightarrow> (None, r) | g # gs \<Rightarrow> (Some g, r\<lparr>rg_queue := gs\<rparr>))"

definition release ::
  "'s registry_store_ops \<Rightarrow> timestamp \<Rightarrow> uuid \<Rightarrow> agent_run_status \<Rightarrow> 's agent_registry \<Rightarrow>
     (registry_error + uuid option) \<times> 's agent_registry" where
  "release ops now i st r =
     (if \<not> agent_terminal st then (Inl (InvalidTransition AgRunning st), r)
      else
        (case map_of (rg_inner r) i of
           None \<Rightarrow> (Inl (GoalNotFound i), r)
         | Some e \<Rightarrow>
             let r1 = put_entry i (e\<lparr>re_meta := (re_meta e)\<lparr>hm_status := st, hm_finished_at := Some now\<rparr>\<rparr>) r
             in (case persist ops i (clear_sleep_snapshot now i r1) of
                   (Inl err, r2) \<Rightarrow> (Inl err, r2)
                 | (Inr _, r2) \<Rightarrow> (case pop_queue r2 of (next_goal, r3) \<Rightarrow> (Inr next_goal, r3)))))"

text \<open>\<open>flush_queue\<close>: the queue is drained first, then every goal is cancelled; the first error ends the loop.\<close>

fun cancel_all :: "'s registry_store_ops \<Rightarrow> timestamp \<Rightarrow> uuid list \<Rightarrow> 's agent_registry \<Rightarrow> (registry_error + unit) \<times> 's agent_registry" where
  "cancel_all ops now [] r = (Inr (), r)"
| "cancel_all ops now (g # gs) r =
     (case set_status ops now g AgCancelled r of
        (Inl e, r') \<Rightarrow> (Inl e, r')
      | (Inr _, r') \<Rightarrow> cancel_all ops now gs r')"

definition flush_queue :: "'s registry_store_ops \<Rightarrow> timestamp \<Rightarrow> 's agent_registry \<Rightarrow> (registry_error + nat) \<times> 's agent_registry" where
  "flush_queue ops now r =
     (case cancel_all ops now (rg_queue r) (r\<lparr>rg_queue := []\<rparr>) of
        (Inl e, r') \<Rightarrow> (Inl e, r')
      | (Inr _, r') \<Rightarrow> (Inr (length (rg_queue r)), r'))"

definition evictable_entry :: "timestamp \<Rightarrow> registry_entry \<Rightarrow> bool" where
  "evictable_entry cutoff e \<longleftrightarrow>
     agent_terminal (hm_status (re_meta e)) \<and>
     (case hm_finished_at (re_meta e) of Some t \<Rightarrow> t < cutoff | None \<Rightarrow> False)"

definition reg_evict_terminal_older_than ::
  "'s registry_store_ops \<Rightarrow> timestamp \<Rightarrow> 's agent_registry \<Rightarrow> (registry_error + nat) \<times> 's agent_registry" where
  "reg_evict_terminal_older_than ops cutoff r =
     (let victims = map fst (filter (\<lambda>(i, e). evictable_entry cutoff e) (rg_inner r));
          r1 = r\<lparr>rg_inner := foldl (\<lambda>m i. AList.delete i m) (rg_inner r) victims\<rparr>
      in (case rs_evict ops cutoff (rg_store r1) of
            (Inl e, s') \<Rightarrow> (Inl e, r1\<lparr>rg_store := s'\<rparr>)
          | (Inr n, s') \<Rightarrow> (Inr (max (length victims) n), r1\<lparr>rg_store := s'\<rparr>)))"

subsection \<open>Sleep, questions and turn results\<close>

definition set_sleeping ::
  "'s registry_store_ops \<Rightarrow> timestamp \<Rightarrow> uuid \<Rightarrow> agent_sleep_state \<Rightarrow> 's agent_registry \<Rightarrow> (registry_error + unit) \<times> 's agent_registry" where
  "set_sleeping ops now i sl r =
     (case map_of (rg_inner r) i of
        None \<Rightarrow> (Inl (GoalNotFound i), r)
      | Some e \<Rightarrow>
          persist ops i (put_entry i
            (e\<lparr>re_meta := (re_meta e)\<lparr>hm_status := AgSleeping\<rparr>,
               re_snapshot := (re_snapshot e)\<lparr>sn_sleep := Some sl, sn_last_event_at := now\<rparr>\<rparr>) r))"

definition clear_sleeping ::
  "'s registry_store_ops \<Rightarrow> timestamp \<Rightarrow> uuid \<Rightarrow> 's agent_registry \<Rightarrow> (registry_error + unit) \<times> 's agent_registry" where
  "clear_sleeping ops now i r =
     (case map_of (rg_inner r) i of
        None \<Rightarrow> (Inl (GoalNotFound i), r)
      | Some e \<Rightarrow>
          let e' = (if hm_status (re_meta e) = AgSleeping then e\<lparr>re_meta := (re_meta e)\<lparr>hm_status := AgRunning\<rparr>\<rparr> else e)
          in persist ops i (clear_sleep_snapshot now i (put_entry i e' r)))"

definition set_ask_pending ::
  "'s registry_store_ops \<Rightarrow> uuid \<Rightarrow> ask_pending_state option \<Rightarrow> 's agent_registry \<Rightarrow> (registry_error + unit) \<times> 's agent_registry" where
  "set_ask_pending ops i pending r =
     (case map_of (rg_inner r) i of
        None \<Rightarrow> (Inl (GoalNotFound i), r)
      | Some e \<Rightarrow> persist ops i (put_entry i (e\<lparr>re_snapshot := (re_snapshot e)\<lparr>sn_ask_pending := pending\<rparr>\<rparr>) r))"

definition from_origin :: "string \<Rightarrow> string \<Rightarrow> string \<Rightarrow> registry_entry \<Rightarrow> bool" where
  "from_origin plugin inst sender e \<longleftrightarrow>
     hm_status (re_meta e) = AgPaused \<and>
     (case hm_origin (re_meta e) of
        None \<Rightarrow> False
      | Some c \<Rightarrow> oc_plugin c = plugin \<and> oc_instance c = inst \<and> oc_sender_id c = sender)"

definition find_paused_by_origin :: "string \<Rightarrow> string \<Rightarrow> string \<Rightarrow> 's agent_registry \<Rightarrow> uuid option" where
  "find_paused_by_origin plugin inst sender r =
     map_option fst (max_by_key (\<lambda>(i, e). hm_started_at (re_meta e))
       (filter (\<lambda>(i, e). from_origin plugin inst sender e) (rg_inner r)))"

definition find_paused_by_question_id :: "string \<Rightarrow> string \<Rightarrow> string \<Rightarrow> string \<Rightarrow> 's agent_registry \<Rightarrow> uuid option" where
  "find_paused_by_question_id plugin inst sender question r =
     map_option fst (find (\<lambda>(i, e). from_origin plugin inst sender e \<and>
       (case sn_ask_pending (re_snapshot e) of None \<Rightarrow> False | Some p \<Rightarrow> ap_question_id p = question)) (rg_inner r))"

text \<open>\<open>list\<close>: the goals in memory, then the persisted ones memory does not have, longest wall time first.\<close>

definition reg_list :: "'s registry_store_ops \<Rightarrow> timestamp \<Rightarrow> 's agent_registry \<Rightarrow> registry_error + agent_summary list" where
  "reg_list ops now r =
     and_then (rs_list ops (rg_store r)) (\<lambda>persisted.
       let live = map (summary_of_handle now) (list_handles_in_memory r);
           out = foldl (\<lambda>out h. if ah_goal_id h \<in> as_goal_id ` set out then out else out @ [summary_of_handle now h])
                   live persisted
       in Inr (sort_key (\<lambda>s. - int (as_wall s)) out))"

record 'd attempt_result =
  at_goal_id :: uuid
  at_turn_index :: u32
  at_decisions :: "'d list"
  at_usage_after :: budget_usage
  at_acceptance :: "acceptance_verdict option"
  at_final_text :: "string option"
  at_harness_extras :: "(string \<times> json) list"

text \<open>\<open>summarise_decisions\<close>; \<open>render\<close> is serde's rendering of a decision, which may fail.\<close>

definition summarise_decisions :: "('d \<Rightarrow> string option) \<Rightarrow> 'd attempt_result \<Rightarrow> string option" where
  "summarise_decisions render ev =
     (if at_decisions ev = [] then None
      else map_option (take 200) (render (last (at_decisions ev))))"

definition or_else :: "'a option \<Rightarrow> 'a option \<Rightarrow> 'a option" where
  "or_else a b = (case a of None \<Rightarrow> b | Some _ \<Rightarrow> a)"

definition diff_stat_of :: "(string \<times> json) list \<Rightarrow> string option" where
  "diff_stat_of extras = (case map_of extras ''worktree.diff_stat'' of Some (JString s) \<Rightarrow> Some s | _ \<Rightarrow> None)"

definition attempt_snapshot :: "('d \<Rightarrow> string option) \<Rightarrow> timestamp \<Rightarrow> 'd attempt_result \<Rightarrow> agent_snapshot \<Rightarrow> agent_snapshot" where
  "attempt_snapshot render now ev cur =
     \<lparr>sn_turn_index = at_turn_index ev, sn_max_turns = sn_max_turns cur, sn_usage = at_usage_after ev,
      sn_last_acceptance = at_acceptance ev, sn_last_decision_summary = summarise_decisions render ev,
      sn_last_event_at = now, sn_last_diff_stat = or_else (diff_stat_of (at_harness_extras ev)) (sn_last_diff_stat cur),
      sn_last_progress_text = or_else (at_final_text ev) (sn_last_progress_text cur),
      sn_sleep = sn_sleep cur, sn_ask_pending = sn_ask_pending cur\<rparr>"

definition apply_attempt ::
  "('d \<Rightarrow> string option) \<Rightarrow> 's registry_store_ops \<Rightarrow> timestamp \<Rightarrow> 'd attempt_result \<Rightarrow> 's agent_registry \<Rightarrow>
     (registry_error + unit) \<times> 's agent_registry" where
  "apply_attempt render ops now ev r =
     (case map_of (rg_inner r) (at_goal_id ev) of
        None \<Rightarrow> (Inl (GoalNotFound (at_goal_id ev)), r)
      | Some e \<Rightarrow>
          if at_turn_index ev < sn_turn_index (re_snapshot e) then (Inr (), r)
          else persist ops (at_goal_id ev)
                 (put_entry (at_goal_id ev) (e\<lparr>re_snapshot := attempt_snapshot render now ev (re_snapshot e)\<rparr>) r))"

definition set_max_turns :: "uuid \<Rightarrow> u32 \<Rightarrow> 's agent_registry \<Rightarrow> 's agent_registry" where
  "set_max_turns i n r =
     (case map_of (rg_inner r) i of
        None \<Rightarrow> r
      | Some e \<Rightarrow> put_entry i (e\<lparr>re_snapshot := (re_snapshot e)\<lparr>sn_max_turns := n\<rparr>\<rparr>) r)"

definition set_acceptance :: "timestamp \<Rightarrow> uuid \<Rightarrow> acceptance_verdict \<Rightarrow> 's agent_registry \<Rightarrow> 's agent_registry" where
  "set_acceptance now i v r =
     (case map_of (rg_inner r) i of
        None \<Rightarrow> r
      | Some e \<Rightarrow> put_entry i (e\<lparr>re_snapshot := (re_snapshot e)\<lparr>sn_last_acceptance := Some v, sn_last_event_at := now\<rparr>\<rparr>) r)"

subsection \<open>Reattaching after a restart (\<open>crates/agent-registry/src/reattach.rs\<close>)\<close>

datatype reattach_outcome =
    Resume agent_handle
  | MarkedLost agent_handle
  | Requeued agent_handle
  | ReSleeping agent_handle
  | Recorded agent_handle
  | SkippedRow uuid agent_run_status

record reattach_options =
  ro_resume_running :: bool
  ro_keep_terminal_for :: duration

definition default_reattach_options :: reattach_options where
  "default_reattach_options = \<lparr>ro_resume_running = True, ro_keep_terminal_for = 604800 * 1000000000\<rparr>"

text \<open>\<open>chrono::Duration::from_std\<close> refuses what does not fit \<open>i64\<close> milliseconds; then seven days are taken.\<close>

definition reattach_cutoff :: "timestamp \<Rightarrow> reattach_options \<Rightarrow> timestamp" where
  "reattach_cutoff now opts =
     now - (if int (ro_keep_terminal_for opts) \<le> (2 ^ 63 - 1) * 1000000 then int (ro_keep_terminal_for opts)
            else 604800 * second)"

definition admit_with_status ::
  "'s registry_store_ops \<Rightarrow> timestamp \<Rightarrow> agent_run_status \<Rightarrow> agent_handle \<Rightarrow> reattach_outcome \<Rightarrow> 's agent_registry \<Rightarrow>
     (registry_error + reattach_outcome) \<times> 's agent_registry" where
  "admit_with_status ops now st h outcome r =
     chain (admit ops h True r) (\<lambda>_ r1. chain (set_status ops now (ah_goal_id h) st r1) (\<lambda>_ r2. (Inr outcome, r2)))"

definition reattach_row ::
  "'s registry_store_ops \<Rightarrow> timestamp \<Rightarrow> reattach_options \<Rightarrow> agent_handle \<Rightarrow> 's agent_registry \<Rightarrow>
     (registry_error + reattach_outcome) \<times> 's agent_registry" where
  "reattach_row ops now opts h r =
     (case ah_status h of
        AgRunning \<Rightarrow>
          if ro_resume_running opts
          then chain (admit ops h True r) (\<lambda>oc r1.
                 (Inr (case oc of QueuedAt _ \<Rightarrow> Requeued h | _ \<Rightarrow> Resume (h\<lparr>ah_status := AgRunning\<rparr>)), r1))
          else
            let lost = h\<lparr>ah_status := AgLostOnRestart, ah_finished_at := Some now\<rparr>
            in (case rs_upsert ops lost (rg_store r) of
                  (Inl e, s') \<Rightarrow> (Inl e, r\<lparr>rg_store := s'\<rparr>)
                | (Inr _, s') \<Rightarrow> admit_with_status ops now AgLostOnRestart lost (MarkedLost lost) (r\<lparr>rg_store := s'\<rparr>))
      | AgSleeping \<Rightarrow>
          chain (admit ops h True r) (\<lambda>_ r1.
            chain (case sn_sleep (ah_snapshot h) of
                     Some sl \<Rightarrow> set_sleeping ops now (ah_goal_id h) sl r1
                   | None \<Rightarrow> set_status ops now (ah_goal_id h) AgRunning r1)
              (\<lambda>_ r2. (Inr (ReSleeping h), r2)))
      | AgQueued \<Rightarrow> admit_with_status ops now AgQueued h (Requeued h) r
      | AgPaused \<Rightarrow> admit_with_status ops now AgPaused h (Recorded h) r
      | _ \<Rightarrow>
          if (case ah_finished_at h of Some t \<Rightarrow> t < reattach_cutoff now opts | None \<Rightarrow> False)
          then (case rs_remove ops (ah_goal_id h) (rg_store r) of
                  (Inl e, s') \<Rightarrow> (Inl e, r\<lparr>rg_store := s'\<rparr>)
                | (Inr _, s') \<Rightarrow> (Inr (SkippedRow (ah_goal_id h) (ah_status h)), r\<lparr>rg_store := s'\<rparr>))
          else admit_with_status ops now (ah_status h) h (Recorded h) r)"

fun reattach_rows ::
  "'s registry_store_ops \<Rightarrow> timestamp \<Rightarrow> reattach_options \<Rightarrow> agent_handle list \<Rightarrow> 's agent_registry \<Rightarrow>
     (registry_error + reattach_outcome list) \<times> 's agent_registry" where
  "reattach_rows ops now opts [] r = (Inr [], r)"
| "reattach_rows ops now opts (h # hs) r =
     chain (reattach_row ops now opts h r) (\<lambda>oc r1.
       chain (reattach_rows ops now opts hs r1) (\<lambda>ocs r2. (Inr (oc # ocs), r2)))"

definition reattach ::
  "'s registry_store_ops \<Rightarrow> timestamp \<Rightarrow> reattach_options \<Rightarrow> 's agent_registry \<Rightarrow>
     (registry_error + reattach_outcome list) \<times> 's agent_registry" where
  "reattach ops now opts r =
     (case rs_list ops (rg_store r) of
        Inl e \<Rightarrow> (Inl e, r)
      | Inr rows \<Rightarrow> reattach_rows ops now opts rows r)"

subsection \<open>How many goals hold a slot\<close>

definition slot_of :: "registry_entry \<Rightarrow> nat" where
  "slot_of e = (if occupies (hm_status (re_meta e)) then 1 else 0)"

definition slot_at :: "'s agent_registry \<Rightarrow> uuid \<Rightarrow> nat" where
  "slot_at r i = (case map_of (rg_inner r) i of None \<Rightarrow> 0 | Some e \<Rightarrow> slot_of e)"

definition slots_in :: "(uuid, registry_entry) table \<Rightarrow> nat" where
  "slots_in m = length (filter (\<lambda>(i, e). occupies (hm_status (re_meta e))) m)"

lemma occupying_slots: "occupying r = slots_in (rg_inner r)"
  by (simp add: occupying_def slots_in_def)

lemma slots_in_Cons: "slots_in ((i, e) # m) = slot_of e + slots_in m"
  by (simp add: slots_in_def slot_of_def)

lemma slots_in_update:
  "slots_in (AList.update i e m) + (case map_of m i of None \<Rightarrow> 0 | Some e0 \<Rightarrow> slot_of e0) = slots_in m + slot_of e"
proof (induction m)
  case Nil
  then show ?case by (simp add: slots_in_def slot_of_def)
next
  case (Cons p m)
  then show ?case by (cases p) (auto simp: slots_in_Cons)
qed

lemma slots_in_filter: "slots_in (filter P m) \<le> slots_in m"
  by (induction m) (auto simp: slots_in_def)

lemma occupying_put: "occupying (put_entry i e r) + slot_at r i = occupying r + slot_of e"
  using slots_in_update [of i e "rg_inner r"] by (simp add: occupying_slots put_entry_def slot_at_def)

lemma slot_of_le [simp]: "slot_of e \<le> 1"
  by (simp add: slot_of_def)

lemma slot_at_le_occupying: "slot_at r i \<le> occupying r"
proof -
  have "(case map_of m i of None \<Rightarrow> 0 | Some e0 \<Rightarrow> slot_of e0) \<le> slots_in m" for m
    by (induction m) (auto simp: slots_in_Cons slot_of_def split: option.splits)
  then show ?thesis by (simp add: slot_at_def occupying_slots)
qed

lemma put_entry_select [simp]:
  "rg_queue (put_entry i e r) = rg_queue r" "rg_cap (put_entry i e r) = rg_cap r" "rg_store (put_entry i e r) = rg_store r"
  "map_of (rg_inner (put_entry i e r)) = (map_of (rg_inner r))(i \<mapsto> e)"
  by (simp_all add: put_entry_def table_simps)

lemma put_entry_store: "put_entry i e (r\<lparr>rg_store := s\<rparr>) = (put_entry i e r)\<lparr>rg_store := s\<rparr>"
  "put_entry i e (r\<lparr>rg_queue := q\<rparr>) = (put_entry i e r)\<lparr>rg_queue := q\<rparr>"
  by (simp_all add: put_entry_def)

lemma put_put [simp]: "put_entry i e (put_entry i e' r) = put_entry i e r"
proof -
  have "AList.update i e (AList.update i e' m) = AList.update i e m" for m :: "(uuid, registry_entry) table"
    by (induction m) auto
  then show ?thesis by (simp add: put_entry_def)
qed

lemma occupying_update [simp]:
  "occupying (r\<lparr>rg_store := s\<rparr>) = occupying r" "occupying (r\<lparr>rg_queue := q\<rparr>) = occupying r"
  "occupying (r\<lparr>rg_cap := c\<rparr>) = occupying r"
  by (simp_all add: occupying_def)

lemma status_of_update [simp]:
  "status_of (r\<lparr>rg_store := s\<rparr>) = status_of r" "status_of (r\<lparr>rg_queue := q\<rparr>) = status_of r"
  "status_of (r\<lparr>rg_cap := c\<rparr>) = status_of r"
  "status_of (put_entry i e r) = (status_of r)(i \<mapsto> hm_status (re_meta e))"
  by (auto simp: status_of_def)

lemma slot_at_status: "slot_at r i = (case status_of r i of None \<Rightarrow> 0 | Some s \<Rightarrow> if occupies s then 1 else 0)"
  by (simp add: slot_at_def status_of_def slot_of_def split: option.split)

text \<open>Every operation on one goal is: put an entry, then write the goal's handle to the store.\<close>

lemma clear_sleep_put:
  "clear_sleep_snapshot now i (put_entry i e r) = put_entry i (clear_entry_sleep now e) r"
  by (simp add: clear_sleep_snapshot_def)

lemma clear_entry_sleep_meta [simp]: "re_meta (clear_entry_sleep now e) = re_meta e"
  by (simp add: clear_entry_sleep_def split: option.split)

lemma clear_entry_sleep_none [simp]: "sn_sleep (re_snapshot (clear_entry_sleep now e)) = None"
  by (simp add: clear_entry_sleep_def split: option.split)

definition persisted :: "'s registry_store_ops \<Rightarrow> uuid \<Rightarrow> registry_entry \<Rightarrow> 's agent_registry \<Rightarrow> (registry_error + unit) \<times> 's agent_registry" where
  "persisted ops i e r =
     (let (res, s') = rs_upsert ops (entry_handle i e) (rg_store r) in (res, (put_entry i e r)\<lparr>rg_store := s'\<rparr>))"

lemma persist_put: "persist ops i (put_entry i e r) = persisted ops i e r"
  by (simp add: persist_def persisted_def reg_handle_def split: prod.split)

definition moved_entry :: "timestamp \<Rightarrow> agent_run_status \<Rightarrow> registry_entry \<Rightarrow> registry_entry" where
  "moved_entry now st e =
     (if st = AgSleeping then set_entry_status now st e else clear_entry_sleep now (set_entry_status now st e))"

lemma moved_entry_status [simp]: "hm_status (re_meta (moved_entry now st e)) = st"
  by (simp add: moved_entry_def set_entry_status_def)

lemma set_status_some:
  "map_of (rg_inner r) i = Some e \<Longrightarrow> set_status ops now i st r = persisted ops i (moved_entry now st e) r"
  by (simp add: set_status_def clear_sleep_put persist_put moved_entry_def)

lemma set_status_none: "map_of (rg_inner r) i = None \<Longrightarrow> set_status ops now i st r = (Inl (GoalNotFound i), r)"
  by (simp add: set_status_def)

lemma persisted_shape: "persisted ops i e r = (res, r') \<Longrightarrow> \<exists>s'. r' = (put_entry i e r)\<lparr>rg_store := s'\<rparr> \<and>
    rs_upsert ops (entry_handle i e) (rg_store r) = (res, s')"
  by (auto simp: persisted_def split: prod.splits)

lemma persisted_status: "persisted ops i e r = (res, r') \<Longrightarrow> status_of r' = (status_of r)(i \<mapsto> hm_status (re_meta e))"
  by (drule persisted_shape) auto

lemma persisted_same:
  "persisted ops i e r = (res, r') \<Longrightarrow> rg_queue r' = rg_queue r \<and> rg_cap r' = rg_cap r"
  by (drule persisted_shape) auto

lemma persisted_occupying:
  "persisted ops i e r = (res, r') \<Longrightarrow> occupying r' + slot_at r i = occupying r + slot_of e"
  by (drule persisted_shape) (auto simp: occupying_put)

subsection \<open>Admission\<close>

lemma cap_reached_iff: "occupying r < 2 ^ 32 \<Longrightarrow> rg_cap r \<le> count_running r \<longleftrightarrow> unat (rg_cap r) \<le> occupying r"
  by (simp add: count_running_def word_le_nat_alt unat_of_nat)

definition stored_admission ::
  "'s registry_store_ops \<Rightarrow> agent_handle \<Rightarrow> admit_outcome \<Rightarrow> 's agent_registry \<Rightarrow> (registry_error + admit_outcome) \<times> 's agent_registry" where
  "stored_admission ops h oc r =
     (let h' = admitted_handle oc h; (res, s') = rs_upsert ops h' (rg_store r);
          r1 = (put_entry (ah_goal_id h) (handle_entry h') r)\<lparr>rg_store := s'\<rparr>
      in (case res of Inl e \<Rightarrow> (Inl e, r1) | Inr _ \<Rightarrow> (Inr oc, r1)))"

lemma admit_cases:
  "admit ops h enqueue r =
     (if rg_cap r \<le> count_running r then
        if enqueue then stored_admission ops h (QueuedAt (Suc (length (rg_queue r)))) (r\<lparr>rg_queue := rg_queue r @ [ah_goal_id h]\<rparr>)
        else (Inr Rejected, r)
      else stored_admission ops h Admitted r)"
  by (auto simp: admit_def admit_decision_def stored_admission_def Let_def split: prod.split sum.split)

lemma handle_entry_status [simp]: "hm_status (re_meta (handle_entry h)) = ah_status h"
  by (simp add: handle_entry_def)

lemma admitted_handle_select [simp]:
  "ah_goal_id (admitted_handle oc h) = ah_goal_id h" "ah_kind (admitted_handle oc h) = ah_kind h"
  "ah_status (admitted_handle oc h) = (if oc = Admitted then AgRunning else AgQueued)"
  by (simp_all add: admitted_handle_def)

lemma stored_admission_shape:
  assumes "stored_admission ops h oc r = (res, r')"
  shows "\<exists>s' x. rs_upsert ops (admitted_handle oc h) (rg_store r) = (x, s') \<and>
      r' = (put_entry (ah_goal_id h) (handle_entry (admitted_handle oc h)) r)\<lparr>rg_store := s'\<rparr> \<and>
      (case x of Inl e \<Rightarrow> res = Inl e | Inr _ \<Rightarrow> res = Inr oc)"
  using assms by (auto simp: stored_admission_def Let_def split: prod.splits sum.splits)

lemma stored_admission_effect:
  assumes "stored_admission ops h oc r = (res, r')"
  shows "status_of r' = (status_of r)(ah_goal_id h \<mapsto> if oc = Admitted then AgRunning else AgQueued)"
    "rg_queue r' = rg_queue r" "rg_cap r' = rg_cap r"
    "occupying r' + slot_at r (ah_goal_id h) = occupying r + (if oc = Admitted then 1 else 0)"
    "\<And>oc'. res = Inr oc' \<Longrightarrow> oc' = oc"
proof -
  obtain s' x where x: "rs_upsert ops (admitted_handle oc h) (rg_store r) = (x, s')"
    and r': "r' = (put_entry (ah_goal_id h) (handle_entry (admitted_handle oc h)) r)\<lparr>rg_store := s'\<rparr>"
    and res: "case x of Inl e \<Rightarrow> res = Inl e | Inr _ \<Rightarrow> res = Inr oc"
    using stored_admission_shape [OF assms] by blast
  from r' show "status_of r' = (status_of r)(ah_goal_id h \<mapsto> if oc = Admitted then AgRunning else AgQueued)"
    "rg_queue r' = rg_queue r" "rg_cap r' = rg_cap r"
    "occupying r' + slot_at r (ah_goal_id h) = occupying r + (if oc = Admitted then 1 else 0)"
    by (auto simp: occupying_put slot_of_def occupies_def)
  show "oc' = oc" if "res = Inr oc'" for oc' using res that by (cases x) auto
qed

text \<open>Admission: a goal is started only below the cap and then takes one slot at most; at the cap it is queued behind
  all others, or rejected with nothing changed.\<close>

theorem admit_respects_cap:
  assumes "occupying r < 2 ^ 32" and "admit ops h enqueue r = (Inr oc, r')"
  shows "case oc of
      Admitted \<Rightarrow> occupying r < unat (rg_cap r) \<and> occupying r' \<le> unat (rg_cap r) \<and> rg_queue r' = rg_queue r \<and>
        status_of r' = (status_of r)(ah_goal_id h \<mapsto> AgRunning)
    | QueuedAt n \<Rightarrow> enqueue \<and> unat (rg_cap r) \<le> occupying r \<and> occupying r' \<le> occupying r \<and>
        rg_queue r' = rg_queue r @ [ah_goal_id h] \<and> n = length (rg_queue r') \<and>
        status_of r' = (status_of r)(ah_goal_id h \<mapsto> AgQueued)
    | Rejected \<Rightarrow> \<not> enqueue \<and> unat (rg_cap r) \<le> occupying r \<and> r' = r"
proof (cases "unat (rg_cap r) \<le> occupying r")
  case True
  let ?q = "r\<lparr>rg_queue := rg_queue r @ [ah_goal_id h]\<rparr>"
  show ?thesis
  proof (cases enqueue)
    case True
    then have adm: "stored_admission ops h (QueuedAt (Suc (length (rg_queue r)))) ?q = (Inr oc, r')"
      using assms \<open>unat (rg_cap r) \<le> occupying r\<close> by (simp add: admit_cases cap_reached_iff)
    have "oc = QueuedAt (Suc (length (rg_queue r)))" using stored_admission_effect(5) [OF adm] by blast
    with stored_admission_effect(1-4) [OF adm] True \<open>unat (rg_cap r) \<le> occupying r\<close> show ?thesis by simp
  qed (use assms True in \<open>auto simp: admit_cases cap_reached_iff\<close>)
next
  case False
  then have adm: "stored_admission ops h Admitted r = (Inr oc, r')"
    using assms by (simp add: admit_cases cap_reached_iff)
  have "oc = Admitted" using stored_admission_effect(5) [OF adm] by blast
  with stored_admission_effect(1-4) [OF adm] False show ?thesis by simp
qed

subsection \<open>The cap over a run\<close>

text \<open>
  \<open>reg_step\<close> is one operation on the registry, with any store and any result of it.  The operations
  that do not look at the cap are restricted to where they are meant to be used: a status change or a sleep takes a slot only when the
  goal already has one or one is free, a promotion happens only when one is free, and the operator does not lower the cap.
\<close>

definition may_occupy :: "'s agent_registry \<Rightarrow> uuid \<Rightarrow> bool" where
  "may_occupy r i \<longleftrightarrow> slot_at r i = 1 \<or> occupying r < unat (rg_cap r)"

inductive reg_step :: "('d \<Rightarrow> string option) \<Rightarrow> 's registry_store_ops \<Rightarrow> 's agent_registry \<Rightarrow> 's agent_registry \<Rightarrow> bool" for render ops where
  step_admit: "admit ops h enqueue r = (res, r') \<Longrightarrow> reg_step render ops r r'"
| step_release: "release ops now i st r = (res, r') \<Longrightarrow> reg_step render ops r r'"
| step_set_status: "set_status ops now i st r = (res, r') \<Longrightarrow> occupies st \<Longrightarrow> may_occupy r i \<Longrightarrow> reg_step render ops r r'"
| step_stop: "set_status ops now i st r = (res, r') \<Longrightarrow> \<not> occupies st \<Longrightarrow> reg_step render ops r r'"
| step_promote: "promote_queued ops now i r = (res, r') \<Longrightarrow> may_occupy r i \<Longrightarrow> reg_step render ops r r'"
| step_sleep: "set_sleeping ops now i sl r = (res, r') \<Longrightarrow> may_occupy r i \<Longrightarrow> reg_step render ops r r'"
| step_wake: "clear_sleeping ops now i r = (res, r') \<Longrightarrow> reg_step render ops r r'"
| step_ask: "set_ask_pending ops i p r = (res, r') \<Longrightarrow> reg_step render ops r r'"
| step_attempt: "apply_attempt render ops now ev r = (res, r') \<Longrightarrow> reg_step render ops r r'"
| step_flush: "flush_queue ops now r = (res, r') \<Longrightarrow> reg_step render ops r r'"
| step_evict: "reg_evict_terminal_older_than ops cutoff r = (res, r') \<Longrightarrow> reg_step render ops r r'"
| step_turns: "reg_step render ops r (set_max_turns i n r)"
| step_accept: "reg_step render ops r (set_acceptance now i v r)"
| step_cap: "set_cap c r = (c, r') \<Longrightarrow> rg_cap r \<le> c \<Longrightarrow> reg_step render ops r r'"

text \<open>What each operation does to the slots.\<close>

definition within_cap :: "'s agent_registry \<Rightarrow> bool" where
  "within_cap r \<longleftrightarrow> occupying r \<le> unat (rg_cap r)"

lemma set_sleeping_some:
  "map_of (rg_inner r) i = Some e \<Longrightarrow> set_sleeping ops now i sl r =
     persisted ops i (e\<lparr>re_meta := (re_meta e)\<lparr>hm_status := AgSleeping\<rparr>,
               re_snapshot := (re_snapshot e)\<lparr>sn_sleep := Some sl, sn_last_event_at := now\<rparr>\<rparr>) r"
  by (simp add: set_sleeping_def persist_put)

definition woken_entry :: "timestamp \<Rightarrow> registry_entry \<Rightarrow> registry_entry" where
  "woken_entry now e = clear_entry_sleep now
     (if hm_status (re_meta e) = AgSleeping then e\<lparr>re_meta := (re_meta e)\<lparr>hm_status := AgRunning\<rparr>\<rparr> else e)"

lemma clear_sleeping_some:
  "map_of (rg_inner r) i = Some e \<Longrightarrow> clear_sleeping ops now i r = persisted ops i (woken_entry now e) r"
  by (simp add: clear_sleeping_def clear_sleep_put persist_put woken_entry_def Let_def)

lemma set_ask_pending_some:
  "map_of (rg_inner r) i = Some e \<Longrightarrow> set_ask_pending ops i p r =
     persisted ops i (e\<lparr>re_snapshot := (re_snapshot e)\<lparr>sn_ask_pending := p\<rparr>\<rparr>) r"
  by (simp add: set_ask_pending_def persist_put)

lemma apply_attempt_some:
  "map_of (rg_inner r) (at_goal_id ev) = Some e \<Longrightarrow> \<not> at_turn_index ev < sn_turn_index (re_snapshot e) \<Longrightarrow>
     apply_attempt render ops now ev r =
     persisted ops (at_goal_id ev) (e\<lparr>re_snapshot := attempt_snapshot render now ev (re_snapshot e)\<rparr>) r"
  by (simp add: apply_attempt_def persist_put)

lemma slot_at_some: "map_of (rg_inner r) i = Some e \<Longrightarrow> slot_at r i = slot_of e"
  by (simp add: slot_at_def)

lemma persisted_within:
  assumes "persisted ops i e r = (res, r')" and "within_cap r" and "slot_of e \<le> slot_at r i \<or> may_occupy r i"
  shows "within_cap r'"
  using persisted_occupying [OF assms(1)] persisted_same [OF assms(1)] assms(2,3) slot_of_le [of e]
  by (auto simp: within_cap_def may_occupy_def)

lemma set_status_within:
  assumes "set_status ops now i st r = (res, r')" and "within_cap r" and "occupies st \<longrightarrow> may_occupy r i"
  shows "within_cap r'"
proof (cases "map_of (rg_inner r) i")
  case (Some e)
  then have "persisted ops i (moved_entry now st e) r = (res, r')" using assms(1) by (simp add: set_status_some)
  then show ?thesis using assms(2,3) by (rule_tac persisted_within) (auto simp: slot_of_def)
qed (use assms in \<open>simp add: set_status_none\<close>)

lemma set_sleeping_within:
  "set_sleeping ops now i sl r = (res, r') \<Longrightarrow> within_cap r \<Longrightarrow> may_occupy r i \<Longrightarrow> within_cap r'"
  by (cases "map_of (rg_inner r) i") (auto simp: set_sleeping_some elim: persisted_within, simp add: set_sleeping_def)

lemma woken_slot: "slot_of (woken_entry now e) = slot_of e"
  by (auto simp: woken_entry_def slot_of_def occupies_def)

lemma clear_sleeping_within: "clear_sleeping ops now i r = (res, r') \<Longrightarrow> within_cap r \<Longrightarrow> within_cap r'"
  by (cases "map_of (rg_inner r) i")
    (auto simp: clear_sleeping_some woken_slot slot_at_some elim: persisted_within, simp add: clear_sleeping_def)

lemma slot_of_snapshot [simp]: "slot_of (e\<lparr>re_snapshot := s\<rparr>) = slot_of e"
  by (simp add: slot_of_def)

lemma set_ask_pending_within: "set_ask_pending ops i p r = (res, r') \<Longrightarrow> within_cap r \<Longrightarrow> within_cap r'"
  by (cases "map_of (rg_inner r) i")
    (auto simp: set_ask_pending_some slot_at_some elim: persisted_within, simp add: set_ask_pending_def)

lemma apply_attempt_within:
  assumes "apply_attempt render ops now ev r = (res, r')" and "within_cap r"
  shows "within_cap r'"
proof (cases "map_of (rg_inner r) (at_goal_id ev)")
  case (Some e)
  then show ?thesis
  proof (cases "at_turn_index ev < sn_turn_index (re_snapshot e)")
    case True
    then show ?thesis using assms Some by (simp add: apply_attempt_def)
  next
    case False
    then show ?thesis using assms Some by (auto simp: apply_attempt_some slot_at_some elim: persisted_within)
  qed
qed (use assms in \<open>simp add: apply_attempt_def\<close>)

lemma put_same_slot_within:
  "map_of (rg_inner r) i = Some e \<Longrightarrow> slot_of e' = slot_of e \<Longrightarrow> within_cap r \<Longrightarrow> within_cap (put_entry i e' r)"
  using occupying_put [of i e' r] by (simp add: slot_at_some within_cap_def)

lemma cancel_all_within: "cancel_all ops now gs r = (res, r') \<Longrightarrow> within_cap r \<Longrightarrow> within_cap r'"
proof (induction gs arbitrary: r)
  case (Cons g gs)
  obtain x r1 where s: "set_status ops now g AgCancelled r = (x, r1)" by fastforce
  then have "within_cap r1" using Cons.prems(2) by (rule set_status_within) (simp add: occupies_def)
  with Cons s show ?case by (cases x) auto
qed simp

lemma flush_queue_within: "flush_queue ops now r = (res, r') \<Longrightarrow> within_cap r \<Longrightarrow> within_cap r'"
  by (auto simp: flush_queue_def within_cap_def split: prod.splits sum.splits dest!: cancel_all_within)

lemma admit_within:
  assumes "admit ops h enqueue r = (res, r')" and "within_cap r"
  shows "within_cap r'"
proof -
  have small: "occupying r < 2 ^ 32" using assms(2) unsigned_less [where ?'a = nat, of "rg_cap r"] by (simp add: within_cap_def)
  from assms(1) consider (queue) "stored_admission ops h (QueuedAt (Suc (length (rg_queue r)))) (r\<lparr>rg_queue := rg_queue r @ [ah_goal_id h]\<rparr>) = (res, r')"
    | (same) "r' = r" | (go) "occupying r < unat (rg_cap r)" "stored_admission ops h Admitted r = (res, r')"
    using cap_reached_iff [OF small] by (auto simp: admit_cases split: if_splits)
  then show ?thesis
  proof cases
    case queue
    then show ?thesis using stored_admission_effect(3,4) [OF queue] assms(2) by (simp add: within_cap_def)
  next
    case go
    then show ?thesis using stored_admission_effect(3,4) [OF go(2)] by (simp add: within_cap_def)
  qed (use assms in simp)
qed

definition released_entry :: "timestamp \<Rightarrow> agent_run_status \<Rightarrow> registry_entry \<Rightarrow> registry_entry" where
  "released_entry now st e =
     clear_entry_sleep now (e\<lparr>re_meta := (re_meta e)\<lparr>hm_status := st, hm_finished_at := Some now\<rparr>\<rparr>)"

lemma released_entry_meta [simp]:
  "hm_status (re_meta (released_entry now st e)) = st" "hm_finished_at (re_meta (released_entry now st e)) = Some now"
  "sn_sleep (re_snapshot (released_entry now st e)) = None"
  by (simp_all add: released_entry_def)

lemma terminal_no_slot: "agent_terminal st \<Longrightarrow> \<not> occupies st"
  by (auto simp: agent_terminal_def occupies_def)

lemma release_some:
  "map_of (rg_inner r) i = Some e \<Longrightarrow> agent_terminal st \<Longrightarrow>
     release ops now i st r =
       (case persisted ops i (released_entry now st e) r of
          (Inl err, r1) \<Rightarrow> (Inl err, r1)
        | (Inr _, r1) \<Rightarrow> (case pop_queue r1 of (g, r2) \<Rightarrow> (Inr g, r2)))"
  by (simp add: release_def clear_sleep_put persist_put released_entry_def)

lemma pop_queue_effect:
  "pop_queue r = (g, r') \<Longrightarrow> rg_inner r' = rg_inner r \<and> rg_cap r' = rg_cap r \<and> rg_store r' = rg_store r \<and>
     rg_queue r' = tl (rg_queue r) \<and> g = (case rg_queue r of [] \<Rightarrow> None | x # _ \<Rightarrow> Some x)"
  by (auto simp: pop_queue_def split: list.splits)

lemma release_within:
  assumes "release ops now i st r = (res, r')" and "within_cap r"
  shows "within_cap r'"
proof (cases "\<exists>e. agent_terminal st \<and> map_of (rg_inner r) i = Some e")
  case True
  then obtain e where st: "agent_terminal st" and e: "map_of (rg_inner r) i = Some e" by blast
  obtain x r1 where p: "persisted ops i (released_entry now st e) r = (x, r1)" by fastforce
  have "within_cap r1"
    using persisted_within [OF p assms(2)] st by (simp add: slot_of_def terminal_no_slot)
  moreover have "rg_inner r' = rg_inner r1 \<and> rg_cap r' = rg_cap r1"
    using assms(1) p by (auto simp: release_some [OF e st] split: sum.splits prod.splits dest!: pop_queue_effect)
  ultimately show ?thesis by (simp add: within_cap_def occupying_def)
qed (use assms in \<open>auto simp: release_def split: if_splits option.splits\<close>)

lemma promote_within:
  assumes "promote_queued ops now i r = (res, r')" and "within_cap r" and "may_occupy r i"
  shows "within_cap r'"
proof (cases "i \<in> set (rg_queue r)")
  case True
  let ?q = "r\<lparr>rg_queue := filter (\<lambda>g. g \<noteq> i) (rg_queue r)\<rparr>"
  obtain x r1 where s: "set_status ops now i AgRunning ?q = (x, r1)" by fastforce
  have "within_cap ?q" "may_occupy ?q i" using assms(2,3) by (simp_all add: within_cap_def may_occupy_def slot_at_def)
  then have "within_cap r1" using set_status_within [OF s] by blast
  then show ?thesis using assms(1) s True by (auto simp: promote_queued_def split: sum.splits)
qed (use assms in \<open>simp add: promote_queued_def\<close>)

lemma foldl_delete_slots: "slots_in (foldl (\<lambda>m i. AList.delete i m) m is) \<le> slots_in m"
proof (induction "is" arbitrary: m)
  case (Cons i "is")
  have "slots_in (AList.delete i m) \<le> slots_in m" by (induction m) (auto simp: slots_in_Cons)
  with Cons [of "AList.delete i m"] show ?case by simp
qed simp

lemma evict_within: "reg_evict_terminal_older_than ops cutoff r = (res, r') \<Longrightarrow> within_cap r \<Longrightarrow> within_cap r'"
  by (auto simp: reg_evict_terminal_older_than_def Let_def within_cap_def occupying_slots
      intro: order_trans [OF foldl_delete_slots] split: prod.splits sum.splits)

lemma set_max_turns_within: "within_cap r \<Longrightarrow> within_cap (set_max_turns i n r)"
  by (auto simp: set_max_turns_def intro: put_same_slot_within split: option.split)

lemma set_acceptance_within: "within_cap r \<Longrightarrow> within_cap (set_acceptance now i v r)"
  by (auto simp: set_acceptance_def intro: put_same_slot_within split: option.split)



theorem admit_respects_cap_witness:
  "admit memory_ops (sample_goal 2 AgRunning Interactive) True (snd (admit memory_ops (sample_goal 1 AgRunning Bg) True (new_registry [] 1)))
     = (Inr (QueuedAt 1), snd (admit memory_ops (sample_goal 2 AgRunning Interactive) True
          (snd (admit memory_ops (sample_goal 1 AgRunning Bg) True (new_registry [] 1))))) \<and>
   rg_queue (snd (admit memory_ops (sample_goal 2 AgRunning Interactive) True
          (snd (admit memory_ops (sample_goal 1 AgRunning Bg) True (new_registry [] 1))))) = [Uuid 2]"
proof -
  let ?r = "snd (admit memory_ops (sample_goal 1 AgRunning Bg) True (new_registry [] 1))"
  let ?h = "sample_goal 2 AgRunning Interactive"
  have "occupying ?r = 1" by code_simp
  then have n: "occupying ?r < 2 ^ 32" by simp
  have q: "rg_queue ?r = []" "ah_goal_id ?h = Uuid 2" by code_simp+
  have "fst (admit memory_ops ?h True ?r) = Inr (QueuedAt 1)" by code_simp
  then have a: "admit memory_ops ?h True ?r = (Inr (QueuedAt 1), snd (admit memory_ops ?h True ?r))" by (rule pair_of_fst)
  have "rg_queue (snd (admit memory_ops ?h True ?r)) = [Uuid 2]"
    using admit_respects_cap [OF n a] by (simp only: q admit_outcome.case append_Nil)
  with a show ?thesis by blast
qed

subsection \<open>Release\<close>

lemma release_pops_the_queue_parts:
  assumes rel: "release ops now i st r = (Inr g, r')"
  shows "agent_terminal st" and "status_of r' = (status_of r)(i \<mapsto> st)" and "rg_queue r' = tl (rg_queue r)"
    and "occupying r' + slot_at r i = occupying r"
    and "case g of None \<Rightarrow> rg_queue r = []
         | Some n \<Rightarrow> rg_queue r = n # rg_queue r' \<and>
             (distinct (rg_queue r) \<longrightarrow> promote_queued ops now' n r' = (Inr False, r'))"
proof -
  obtain e where st: "agent_terminal st" and e: "map_of (rg_inner r) i = Some e"
    using rel by (auto simp: release_def split: if_splits option.splits)
  obtain r1 where p: "persisted ops i (released_entry now st e) r = (Inr (), r1)" and q: "pop_queue r1 = (g, r')"
    using rel by (auto simp: release_some [OF e st] split: prod.splits sum.splits)
  note pop = pop_queue_effect [OF q] and same = persisted_same [OF p]
  show "agent_terminal st" by (rule st)
  show "status_of r' = (status_of r)(i \<mapsto> st)" using persisted_status [OF p] pop by (simp add: status_of_def fun_eq_iff)
  show "rg_queue r' = tl (rg_queue r)" using pop same by simp
  show "occupying r' + slot_at r i = occupying r"
    using persisted_occupying [OF p] pop st by (simp add: occupying_def slot_of_def terminal_no_slot)
  show "case g of None \<Rightarrow> rg_queue r = []
         | Some n \<Rightarrow> rg_queue r = n # rg_queue r' \<and>
             (distinct (rg_queue r) \<longrightarrow> promote_queued ops now' n r' = (Inr False, r'))"
    using pop same by (cases "rg_queue r") (auto simp: promote_queued_def)
qed

text \<open>Releasing a goal ends it, frees its slot and hands out the head of the queue; because the head is popped there, promoting
  it afterwards does nothing and the goal stays queued.\<close>

theorem release_pops_the_queue:
  assumes rel: "release ops now i st r = (Inr g, r')"
  shows "agent_terminal st \<and> status_of r' = (status_of r)(i \<mapsto> st) \<and> rg_queue r' = tl (rg_queue r) \<and>
     occupying r' + slot_at r i = occupying r \<and>
     (case g of None \<Rightarrow> rg_queue r = []
      | Some n \<Rightarrow> rg_queue r = n # rg_queue r' \<and>
          (distinct (rg_queue r) \<longrightarrow> promote_queued ops now' n r' = (Inr False, r')))"
  by (intro conjI release_pops_the_queue_parts [OF rel])

text \<open>Two goals under a cap of one: the first runs, the second is queued.\<close>

definition two_goals :: "memory_store agent_registry" where
  "two_goals = snd (admit memory_ops (sample_goal 2 AgRunning Interactive) True
     (snd (admit memory_ops (sample_goal 1 AgRunning Bg) True (new_registry [] 1))))"

theorem release_pops_the_queue_witness:
  "fst (release memory_ops 9 (Uuid 1) AgDone two_goals) = Inr (Some (Uuid 2)) \<and>
   promote_queued memory_ops 10 (Uuid 2) (snd (release memory_ops 9 (Uuid 1) AgDone two_goals))
     = (Inr False, snd (release memory_ops 9 (Uuid 1) AgDone two_goals))"
proof -
  have f: "fst (release memory_ops 9 (Uuid 1) AgDone two_goals) = Inr (Some (Uuid 2))" by code_simp
  then have rel: "release memory_ops 9 (Uuid 1) AgDone two_goals = (Inr (Some (Uuid 2)), snd (release memory_ops 9 (Uuid 1) AgDone two_goals))"
    by (rule pair_of_fst)
  have d: "distinct (rg_queue two_goals)" by code_simp
  have "promote_queued memory_ops 10 (Uuid 2) (snd (release memory_ops 9 (Uuid 1) AgDone two_goals))
     = (Inr False, snd (release memory_ops 9 (Uuid 1) AgDone two_goals))"
    using release_pops_the_queue [OF rel, where now' = 10] d unfolding option.case by blast
  with f show ?thesis by simp
qed

subsection \<open>Turn results\<close>

lemma apply_attempt_is_idempotent_parts:
  assumes e: "map_of (rg_inner r) (at_goal_id ev) = Some e"
  shows "at_turn_index ev < sn_turn_index (re_snapshot e) \<longrightarrow> apply_attempt render ops now ev r = (Inr (), r)"
    and "sn_turn_index (re_snapshot e) \<le> at_turn_index ev \<longrightarrow>
      (let r1 = snd (apply_attempt render ops now ev r); r2 = snd (apply_attempt render ops now' ev r1)
       in reg_snapshot (at_goal_id ev) r1 = Some (attempt_snapshot render now ev (re_snapshot e)) \<and>
          reg_snapshot (at_goal_id ev) r2 = Some ((attempt_snapshot render now ev (re_snapshot e))\<lparr>sn_last_event_at := now'\<rparr>) \<and>
          status_of r2 = status_of r)"
proof -
  show "at_turn_index ev < sn_turn_index (re_snapshot e) \<longrightarrow> apply_attempt render ops now ev r = (Inr (), r)"
    using e by (simp add: apply_attempt_def)
  show "sn_turn_index (re_snapshot e) \<le> at_turn_index ev \<longrightarrow>
      (let r1 = snd (apply_attempt render ops now ev r); r2 = snd (apply_attempt render ops now' ev r1)
       in reg_snapshot (at_goal_id ev) r1 = Some (attempt_snapshot render now ev (re_snapshot e)) \<and>
          reg_snapshot (at_goal_id ev) r2 = Some ((attempt_snapshot render now ev (re_snapshot e))\<lparr>sn_last_event_at := now'\<rparr>) \<and>
          status_of r2 = status_of r)"
  proof
    assume le: "sn_turn_index (re_snapshot e) \<le> at_turn_index ev"
    let ?e1 = "e\<lparr>re_snapshot := attempt_snapshot render now ev (re_snapshot e)\<rparr>"
    let ?e2 = "?e1\<lparr>re_snapshot := attempt_snapshot render now' ev (re_snapshot ?e1)\<rparr>"
    obtain x1 r1 where a1: "apply_attempt render ops now ev r = (x1, r1)" by fastforce
    then have p1: "persisted ops (at_goal_id ev) ?e1 r = (x1, r1)" using e le by (simp add: apply_attempt_some)
    have e1: "map_of (rg_inner r1) (at_goal_id ev) = Some ?e1" using persisted_shape [OF p1] by auto
    obtain x2 r2 where a2: "apply_attempt render ops now' ev r1 = (x2, r2)" by fastforce
    then have p2: "persisted ops (at_goal_id ev) ?e2 r1 = (x2, r2)"
      using apply_attempt_some [OF e1, where render = render and now = now' and ops = ops]
      by (simp add: attempt_snapshot_def)
    have e2: "map_of (rg_inner r2) (at_goal_id ev) = Some ?e2" using persisted_shape [OF p2] by auto
    have twice: "re_snapshot ?e2 = (attempt_snapshot render now ev (re_snapshot e))\<lparr>sn_last_event_at := now'\<rparr>"
      by (simp add: attempt_snapshot_def or_else_def split: option.split)
    have st: "status_of r2 = status_of r"
    proof
      fix j show "status_of r2 j = status_of r j"
        using persisted_status [OF p1] persisted_status [OF p2] e by (simp add: status_of_def)
    qed
    have s1: "reg_snapshot (at_goal_id ev) r1 = Some (attempt_snapshot render now ev (re_snapshot e))"
      and s2: "reg_snapshot (at_goal_id ev) r2 = Some (re_snapshot ?e2)"
      by (simp_all only: reg_snapshot_def e1 e2 option.map registry_entry.select_convs registry_entry.update_convs)
        (simp_all add: reg_snapshot_def)
    show "let r1 = snd (apply_attempt render ops now ev r); r2 = snd (apply_attempt render ops now' ev r1)
       in reg_snapshot (at_goal_id ev) r1 = Some (attempt_snapshot render now ev (re_snapshot e)) \<and>
          reg_snapshot (at_goal_id ev) r2 = Some ((attempt_snapshot render now ev (re_snapshot e))\<lparr>sn_last_event_at := now'\<rparr>) \<and>
          status_of r2 = status_of r"
      unfolding a1 Let_def snd_conv a2 s1 s2 st twice by simp
  qed
qed

text \<open>A turn result older than the snapshot is ignored; any other is written to memory and store, keeps the sleep, question and turn
  limit, and applying it a second time changes nothing in memory but the time of the last event.\<close>

theorem apply_attempt_is_idempotent:
  assumes e: "map_of (rg_inner r) (at_goal_id ev) = Some e"
  shows "(at_turn_index ev < sn_turn_index (re_snapshot e) \<longrightarrow> apply_attempt render ops now ev r = (Inr (), r)) \<and>
    (sn_turn_index (re_snapshot e) \<le> at_turn_index ev \<longrightarrow>
      (let r1 = snd (apply_attempt render ops now ev r); r2 = snd (apply_attempt render ops now' ev r1)
       in reg_snapshot (at_goal_id ev) r1 = Some (attempt_snapshot render now ev (re_snapshot e)) \<and>
          reg_snapshot (at_goal_id ev) r2 = Some ((attempt_snapshot render now ev (re_snapshot e))\<lparr>sn_last_event_at := now'\<rparr>) \<and>
          status_of r2 = status_of r))"
  by (intro conjI apply_attempt_is_idempotent_parts [OF e])

subsection \<open>Memory and store\<close>

text \<open>Every goal in memory is in the store with its status.\<close>

definition mirrored :: "('s \<Rightarrow> uuid \<Rightarrow> agent_handle option) \<Rightarrow> ('s \<Rightarrow> bool) \<Rightarrow> 's agent_registry \<Rightarrow> bool" where
  "mirrored stored ok r \<longleftrightarrow> ok (rg_store r) \<and>
     (\<forall>i s. status_of r i = Some s \<longrightarrow> (\<exists>h. stored (rg_store r) i = Some h \<and> ah_status h = s))"

context handle_store
begin

lemma persisted_stored:
  assumes "ok (rg_store r)" and "persisted ops i e r = (Inr (), r')"
  shows "ok (rg_store r')" and "\<exists>h. stored (rg_store r') i = Some h \<and> norm h = norm (entry_handle i e)"
    and "\<And>j. j \<noteq> i \<Longrightarrow> stored (rg_store r') j = stored (rg_store r) j"
proof -
  obtain s' where s': "r' = (put_entry i e r)\<lparr>rg_store := s'\<rparr>" and up: "rs_upsert ops (entry_handle i e) (rg_store r) = (Inr (), s')"
    using persisted_shape [OF assms(2)] by blast
  have g: "ah_goal_id (entry_handle i e) = i" by (simp add: entry_handle_def)
  show "ok (rg_store r')" and "\<exists>h. stored (rg_store r') i = Some h \<and> norm h = norm (entry_handle i e)"
    using upsert_ok [OF assms(1) up] g s' by simp_all
  show "stored (rg_store r') j = stored (rg_store r) j" if "j \<noteq> i" for j
    using upsert_ok [OF assms(1) up] g s' that by simp
qed

lemma persisted_mirrors:
  assumes "mirrored stored ok r" and "persisted ops i e r = (Inr (), r')"
  shows "mirrored stored ok r'"
proof -
  have ok: "ok (rg_store r)" using assms(1) by (simp add: mirrored_def)
  note p = persisted_stored [OF ok assms(2)]
  obtain h where h: "stored (rg_store r') i = Some h" and n: "norm h = norm (entry_handle i e)"
    using p(2) by blast
  have hst: "ah_status h = hm_status (re_meta e)" using norm_status [OF n] by (simp add: entry_handle_def)
  have "\<exists>h. stored (rg_store r') j = Some h \<and> ah_status h = s" if "status_of r' j = Some s" for j s
  proof (cases "j = i")
    case True
    then show ?thesis using that h hst persisted_status [OF assms(2)] by simp
  next
    case False
    then show ?thesis using that p(3) [OF False] persisted_status [OF assms(2)] assms(1) by (simp add: mirrored_def)
  qed
  with p(1) show ?thesis by (simp add: mirrored_def)
qed

lemma admission_mirrors:
  assumes "mirrored stored ok r" and "stored_admission ops h oc r = (Inr oc', r')"
  shows "mirrored stored ok r'"
proof -
  obtain s' x where up0: "rs_upsert ops (admitted_handle oc h) (rg_store r) = (x, s')"
    and r': "r' = (put_entry (ah_goal_id h) (handle_entry (admitted_handle oc h)) r)\<lparr>rg_store := s'\<rparr>"
    and x: "case x of Inl e \<Rightarrow> (Inr oc' :: registry_error + admit_outcome) = Inl e
        | Inr _ \<Rightarrow> (Inr oc' :: registry_error + admit_outcome) = Inr oc"
    using stored_admission_shape [OF assms(2)] by blast
  have up: "rs_upsert ops (admitted_handle oc h) (rg_store r) = (Inr (), s')" using up0 x by (cases x) auto
  have ok: "ok (rg_store r)" using assms(1) by (simp add: mirrored_def)
  have st: "status_of r' = (status_of r)(ah_goal_id h \<mapsto> ah_status (admitted_handle oc h))" using r' by simp
  note u = upsert_ok [OF ok up]
  obtain g where g1: "stored s' (ah_goal_id h) = Some g" and n: "norm g = norm (admitted_handle oc h)"
    using u by auto
  have g2: "ah_status g = ah_status (admitted_handle oc h)" using norm_status [OF n] by simp
  have "\<exists>g. stored s' j = Some g \<and> ah_status g = s" if "status_of r' j = Some s" for j s
  proof (cases "j = ah_goal_id h")
    case True
    then show ?thesis using that g1 g2 st r' by simp
  next
    case False
    then show ?thesis using that u st r' assms(1) by (simp add: mirrored_def)
  qed
  with u r' show ?thesis by (simp add: mirrored_def)
qed

lemma set_status_mirrors:
  "mirrored stored ok r \<Longrightarrow> set_status ops now i st r = (Inr (), r') \<Longrightarrow> mirrored stored ok r'"
  by (cases "map_of (rg_inner r) i") (auto simp: set_status_none set_status_some elim: persisted_mirrors)

lemma mirrored_queue [simp]: "mirrored stored ok (r\<lparr>rg_queue := q\<rparr>) = mirrored stored ok r"
  by (simp add: mirrored_def)

lemma admit_mirrors:
  "mirrored stored ok r \<Longrightarrow> admit ops h enqueue r = (Inr oc, r') \<Longrightarrow> mirrored stored ok r'"
  by (auto simp: admit_cases split: if_splits elim: admission_mirrors [rotated])

lemma release_mirrors:
  assumes "mirrored stored ok r" and "release ops now i st r = (Inr g, r')"
  shows "mirrored stored ok r'"
proof -
  obtain e where st: "agent_terminal st" and e: "map_of (rg_inner r) i = Some e"
    using assms(2) by (auto simp: release_def split: if_splits option.splits)
  obtain r1 where p: "persisted ops i (released_entry now st e) r = (Inr (), r1)" and q: "pop_queue r1 = (g, r')"
    using assms(2) by (auto simp: release_some [OF e st] split: prod.splits sum.splits)
  have "mirrored stored ok r1" by (rule persisted_mirrors [OF assms(1) p])
  then show ?thesis using pop_queue_effect [OF q] by (simp add: mirrored_def status_of_def)
qed

lemma promote_mirrors:
  assumes "mirrored stored ok r" and "promote_queued ops now i r = (Inr b, r')"
  shows "mirrored stored ok r'"
proof (cases "i \<in> set (rg_queue r)")
  case True
  let ?q = "r\<lparr>rg_queue := filter (\<lambda>g. g \<noteq> i) (rg_queue r)\<rparr>"
  have "set_status ops now i AgRunning ?q = (Inr (), r')"
    using assms(2) True by (auto simp: promote_queued_def split: prod.splits sum.splits)
  then show ?thesis using set_status_mirrors [of ?q] assms(1) by simp
qed (use assms in \<open>simp add: promote_queued_def\<close>)

lemma cancel_all_mirrors:
  "mirrored stored ok r \<Longrightarrow> cancel_all ops now gs r = (Inr (), r') \<Longrightarrow> mirrored stored ok r'"
proof (induction gs arbitrary: r)
  case (Cons g gs)
  obtain r1 where "set_status ops now g AgCancelled r = (Inr (), r1)" "cancel_all ops now gs r1 = (Inr (), r')"
    using Cons.prems(2) by (auto split: prod.splits sum.splits)
  then show ?case using Cons.IH [of r1] set_status_mirrors [OF Cons.prems(1)] by blast
qed simp

lemma flush_mirrors:
  "mirrored stored ok r \<Longrightarrow> flush_queue ops now r = (Inr n, r') \<Longrightarrow> mirrored stored ok r'"
  using cancel_all_mirrors [of "r\<lparr>rg_queue := []\<rparr>"] by (auto simp: flush_queue_def split: prod.splits sum.splits)

lemma set_sleeping_mirrors:
  "mirrored stored ok r \<Longrightarrow> set_sleeping ops now i sl r = (Inr (), r') \<Longrightarrow> mirrored stored ok r'"
  by (cases "map_of (rg_inner r) i") (auto simp: set_sleeping_some elim: persisted_mirrors, simp add: set_sleeping_def)

lemma clear_sleeping_mirrors:
  "mirrored stored ok r \<Longrightarrow> clear_sleeping ops now i r = (Inr (), r') \<Longrightarrow> mirrored stored ok r'"
  by (cases "map_of (rg_inner r) i") (auto simp: clear_sleeping_some elim: persisted_mirrors, simp add: clear_sleeping_def)

lemma apply_attempt_mirrors:
  "mirrored stored ok r \<Longrightarrow> apply_attempt render ops now ev r = (Inr (), r') \<Longrightarrow> mirrored stored ok r'"
  by (cases "map_of (rg_inner r) (at_goal_id ev)")
    (auto simp: apply_attempt_def persist_put split: if_splits elim: persisted_mirrors)

end

text \<open>A run in which every operation reports success.\<close>

inductive done_step :: "('d \<Rightarrow> string option) \<Rightarrow> 's registry_store_ops \<Rightarrow> 's agent_registry \<Rightarrow> 's agent_registry \<Rightarrow> bool"
  for render ops where
  done_admit: "admit ops h enqueue r = (Inr oc, r') \<Longrightarrow> done_step render ops r r'"
| done_release: "release ops now i st r = (Inr g, r') \<Longrightarrow> done_step render ops r r'"
| done_status: "set_status ops now i st r = (Inr (), r') \<Longrightarrow> done_step render ops r r'"
| done_promote: "promote_queued ops now i r = (Inr b, r') \<Longrightarrow> done_step render ops r r'"
| done_flush: "flush_queue ops now r = (Inr n, r') \<Longrightarrow> done_step render ops r r'"
| done_sleep: "set_sleeping ops now i sl r = (Inr (), r') \<Longrightarrow> done_step render ops r r'"
| done_wake: "clear_sleeping ops now i r = (Inr (), r') \<Longrightarrow> done_step render ops r r'"
| done_attempt: "apply_attempt render ops now ev r = (Inr (), r') \<Longrightarrow> done_step render ops r r'"

context handle_store
begin

lemma done_step_mirrors:
  "done_step render ops r r' \<Longrightarrow> mirrored stored ok r \<Longrightarrow> mirrored stored ok r'"
  by (induction rule: done_step.induct)
    (blast intro: admit_mirrors release_mirrors set_status_mirrors promote_mirrors flush_mirrors set_sleeping_mirrors
      clear_sleeping_mirrors apply_attempt_mirrors)+

end



lemma kind_aware_row:
  assumes "reattach_running_kind_aware db now s = (Inr n, s')" and "find (\<lambda>r. ar_goal_id r = i) s = Some r0"
  shows "find (\<lambda>r. ar_goal_id r = i) s' =
     Some (if flips r0 then r0\<lparr>ar_status := ''lost_on_restart'', ar_finished_at := Some (to_unix now)\<rparr> else r0)"
proof -
  have "s' = map (\<lambda>r. if flips r then r\<lparr>ar_status := ''lost_on_restart'', ar_finished_at := Some (to_unix now)\<rparr> else r) s"
    using assms(1) by (simp add: reattach_running_kind_aware_def split: if_splits)
  then show ?thesis using assms(2) by (simp add: find_map_same_key)
qed

lemma written_row:
  assumes "rs_upsert (agent_sql_ops db) h s = (Inr (), s')"
  shows "\<exists>t. find (\<lambda>r. ar_goal_id r = ah_goal_id h) s' = Some ((handle_to_row h)\<lparr>ar_started_at := t\<rparr>)"
  using assms upsert_row_same [of "handle_to_row h" s]
  by (auto simp: agent_sql_ops_def sql_upsert_def split: if_splits)

lemma flips_written:
  "flips ((handle_to_row h)\<lparr>ar_started_at := t\<rparr>) \<longleftrightarrow> ah_status h = AgRunning \<and> ah_kind h = Interactive"
  using agent_status_str_inject [of "ah_status h" AgRunning] session_kind_str_inject [of "ah_kind h" Interactive]
  by (auto simp: flips_def handle_to_row_def)

lemma kind_aware_written:
  assumes up: "rs_upsert (agent_sql_ops db) h s = (Inr (), s1)"
    and re: "reattach_running_kind_aware db2 now s1 = (Inr n, s2)"
  shows "\<exists>g. stored_row s2 (ah_goal_id h) = Some g \<and> ah_kind g = ah_kind h \<and>
     ah_status g = (if ah_status h = AgRunning \<and> ah_kind h = Interactive then AgLostOnRestart else ah_status h)"
proof -
  obtain t where t: "find (\<lambda>r. ar_goal_id r = ah_goal_id h) s1 = Some ((handle_to_row h)\<lparr>ar_started_at := t\<rparr>)"
    using written_row [OF up] by blast
  note f = kind_aware_row [OF re t, unfolded flips_written]
  show ?thesis
  proof (cases "ah_status h = AgRunning \<and> ah_kind h = Interactive")
    case True
    have p: "parse_status ''lost_on_restart'' = Inr AgLostOnRestart" by (simp add: parse_status_def)
    from True f show ?thesis
      by (simp add: stored_row_def row_to_handle_def p handle_to_row_def session_kind_of_str_def)
  next
    case False
    then show ?thesis using f by (auto simp: stored_row_def row_to_handle_written coarse_from_def)
  qed
qed

lemma persisting_forgets_the_kind_parts:
  assumes re: "reattach_running_kind_aware db2 now2 (rg_store r') = (Inr n, s2)"
  shows "admit (agent_sql_ops db) h enqueue r = (Inr Admitted, r') \<Longrightarrow> survives_restart (ah_kind h) \<Longrightarrow>
      \<exists>g. stored_row s2 (ah_goal_id h) = Some g \<and> ah_status g = AgRunning \<and> ah_kind g = ah_kind h"
    and "set_status (agent_sql_ops db) now i AgRunning r = (Inr (), r') \<Longrightarrow>
      \<exists>g. stored_row s2 i = Some g \<and> ah_status g = AgLostOnRestart"
proof -
  assume a: "admit (agent_sql_ops db) h enqueue r = (Inr Admitted, r')" and k: "survives_restart (ah_kind h)"
  have "stored_admission (agent_sql_ops db) h Admitted r = (Inr Admitted, r')"
    using a by (auto simp: admit_cases split: if_splits dest: stored_admission_effect(5))
  then have up: "rs_upsert (agent_sql_ops db) (admitted_handle Admitted h) (rg_store r) = (Inr (), rg_store r')"
    by (auto simp: stored_admission_def Let_def split: prod.splits sum.splits)
  have "ah_kind h \<noteq> Interactive" using k by (auto simp: survives_restart_def)
  then show "\<exists>g. stored_row s2 (ah_goal_id h) = Some g \<and> ah_status g = AgRunning \<and> ah_kind g = ah_kind h"
    using kind_aware_written [OF up re] by auto
next
  assume s: "set_status (agent_sql_ops db) now i AgRunning r = (Inr (), r')"
  then obtain e where e: "map_of (rg_inner r) i = Some e" by (cases "map_of (rg_inner r) i") (auto simp: set_status_none)
  have p: "persisted (agent_sql_ops db) i (moved_entry now AgRunning e) r = (Inr (), r')" using s by (simp add: set_status_some [OF e])
  have up: "rs_upsert (agent_sql_ops db) (entry_handle i (moved_entry now AgRunning e)) (rg_store r) = (Inr (), rg_store r')"
    using persisted_shape [OF p] by auto
  show "\<exists>g. stored_row s2 i = Some g \<and> ah_status g = AgLostOnRestart"
    using kind_aware_written [OF up re] by (auto simp: entry_handle_def)
qed

text \<open>A goal of a kind that survives a restart does so right after its admission; once any later status change or turn result was
  persisted, the row says \<open>interactive\<close>, and the next restart marks the goal lost.\<close>

theorem persisting_forgets_the_kind:
  assumes re: "reattach_running_kind_aware db2 now2 (rg_store r') = (Inr n, s2)"
  shows "(admit (agent_sql_ops db) h enqueue r = (Inr Admitted, r') \<and> survives_restart (ah_kind h) \<longrightarrow>
      (\<exists>g. stored_row s2 (ah_goal_id h) = Some g \<and> ah_status g = AgRunning \<and> ah_kind g = ah_kind h)) \<and>
    (set_status (agent_sql_ops db) now i AgRunning r = (Inr (), r') \<longrightarrow>
      (\<exists>g. stored_row s2 i = Some g \<and> ah_status g = AgLostOnRestart))"
  using persisting_forgets_the_kind_parts [OF re] by blast

theorem persisting_forgets_the_kind_witness:
  "\<exists>g. stored_row (snd (reattach_running_kind_aware (\<lambda>_. True) 9 (rg_store (snd (set_status (agent_sql_ops (\<lambda>_. True)) 5 (Uuid 1) AgRunning
      (snd (admit (agent_sql_ops (\<lambda>_. True)) (sample_goal 1 AgQueued Bg) True (new_registry [] 1)))))))) (Uuid 1) = Some g \<and>
      ah_status g = AgLostOnRestart"
proof -
  let ?r = "snd (admit (agent_sql_ops (\<lambda>_. True)) (sample_goal 1 AgQueued Bg) True (new_registry [] 1))"
  let ?s = "set_status (agent_sql_ops (\<lambda>_. True)) 5 (Uuid 1) AgRunning ?r"
  let ?k = "reattach_running_kind_aware (\<lambda>_. True) 9 (rg_store (snd ?s))"
  have "fst ?s = Inr ()" by code_simp
  then have s: "?s = (Inr (), snd ?s)" by (rule pair_of_fst)
  have "fst ?k = Inr 1" by code_simp
  then have k: "?k = (Inr 1, snd ?k)" by (rule pair_of_fst)
  show ?thesis using persisting_forgets_the_kind [OF k] s by blast
qed

definition sample_attempt :: "u32 \<Rightarrow> unit attempt_result" where
  "sample_attempt turn = \<lparr>at_goal_id = Uuid 1, at_turn_index = turn, at_decisions = [], at_usage_after = no_usage,
     at_acceptance = None, at_final_text = Some ''working'', at_harness_extras = []\<rparr>"

theorem apply_attempt_is_idempotent_witness:
  "apply_attempt (\<lambda>_. None) memory_ops 5 (sample_attempt 3)
     (snd (apply_attempt (\<lambda>_. None) memory_ops 4 (sample_attempt 7) two_goals))
   = (Inr (), snd (apply_attempt (\<lambda>_. None) memory_ops 4 (sample_attempt 7) two_goals))"
proof -
  let ?r = "snd (apply_attempt (\<lambda>_. None) memory_ops 4 (sample_attempt 7) two_goals)"
  have g: "at_goal_id (sample_attempt 3) = Uuid 1" and t: "at_turn_index (sample_attempt 3) = 3"
    by (simp_all add: sample_attempt_def)
  have "map_option (\<lambda>e. sn_turn_index (re_snapshot e)) (map_of (rg_inner ?r) (Uuid 1)) = Some 7" by code_simp
  then obtain e where e: "map_of (rg_inner ?r) (at_goal_id (sample_attempt 3)) = Some e" and n: "sn_turn_index (re_snapshot e) = 7"
    unfolding g by blast
  have "at_turn_index (sample_attempt 3) < sn_turn_index (re_snapshot e)" by (simp add: n t)
  with apply_attempt_is_idempotent [OF e] show ?thesis by blast
qed

subsection \<open>Reattach\<close>

lemma admit_effect:
  assumes "admit ops h True r = (Inr oc, r')"
  shows "status_of r' (ah_goal_id h) = Some (if oc = Admitted then AgRunning else AgQueued)"
    and "j \<noteq> ah_goal_id h \<Longrightarrow> map_of (rg_inner r') j = map_of (rg_inner r) j"
proof -
  obtain r0 oc0 where a: "stored_admission ops h oc0 r0 = (Inr oc, r')" and i: "rg_inner r0 = rg_inner r"
    using assms by (auto simp: admit_cases split: if_splits)
  have oc: "oc0 = oc" using stored_admission_effect(5) [OF a] by simp
  show "status_of r' (ah_goal_id h) = Some (if oc = Admitted then AgRunning else AgQueued)"
    using stored_admission_effect(1) [OF a] oc by simp
  show "map_of (rg_inner r') j = map_of (rg_inner r) j" if "j \<noteq> ah_goal_id h"
    using stored_admission_shape [OF a] that i by auto
qed

lemma set_status_effect:
  assumes "set_status ops now i st r = (Inr (), r')"
  shows "status_of r' i = Some st" and "j \<noteq> i \<Longrightarrow> map_of (rg_inner r') j = map_of (rg_inner r) j"
    and "rg_queue r' = rg_queue r"
proof -
  obtain e where e: "map_of (rg_inner r) i = Some e" using assms by (cases "map_of (rg_inner r) i") (auto simp: set_status_none)
  have p: "persisted ops i (moved_entry now st e) r = (Inr (), r')" using assms by (simp add: set_status_some [OF e])
  show "status_of r' i = Some st" using persisted_status [OF p] by simp
  show "map_of (rg_inner r') j = map_of (rg_inner r) j" if "j \<noteq> i" using persisted_shape [OF p] that by auto
  show "rg_queue r' = rg_queue r" using persisted_same [OF p] by simp
qed

lemma set_sleeping_effect:
  assumes "set_sleeping ops now i sl r = (Inr (), r')"
  shows "status_of r' i = Some AgSleeping" and "j \<noteq> i \<Longrightarrow> map_of (rg_inner r') j = map_of (rg_inner r) j"
proof -
  obtain e where e: "map_of (rg_inner r) i = Some e" using assms by (cases "map_of (rg_inner r) i") (auto simp: set_sleeping_def)
  note p = assms [unfolded set_sleeping_some [OF e]]
  show "status_of r' i = Some AgSleeping" using persisted_status [OF p] by simp
  show "map_of (rg_inner r') j = map_of (rg_inner r) j" if "j \<noteq> i" using persisted_shape [OF p] that by auto
qed

lemma admit_with_status_effect:
  assumes "admit_with_status ops now st h outcome r = (Inr oc, r')"
  shows "status_of r' (ah_goal_id h) = Some st" and "j \<noteq> ah_goal_id h \<Longrightarrow> map_of (rg_inner r') j = map_of (rg_inner r) j"
    and "oc = outcome"
proof -
  obtain x r1 where a: "admit ops h True r = (Inr x, r1)" and s: "set_status ops now (ah_goal_id h) st r1 = (Inr (), r')" and "oc = outcome"
    using assms by (auto simp: admit_with_status_def chain_Inr)
  then show "status_of r' (ah_goal_id h) = Some st" "oc = outcome" using set_status_effect(1) [OF s] by simp_all
  show "map_of (rg_inner r') j = map_of (rg_inner r) j" if "j \<noteq> ah_goal_id h"
    using set_status_effect(2) [OF s that] admit_effect(2) [OF a that] by simp
qed

text \<open>What the policy makes of a row: the outcome reported and the status in memory.\<close>

definition too_old :: "timestamp \<Rightarrow> reattach_options \<Rightarrow> agent_handle \<Rightarrow> bool" where
  "too_old now opts h \<longleftrightarrow> (case ah_finished_at h of Some t \<Rightarrow> t < reattach_cutoff now opts | None \<Rightarrow> False)"

definition settled :: "timestamp \<Rightarrow> reattach_options \<Rightarrow> agent_handle \<Rightarrow> reattach_outcome \<Rightarrow> agent_run_status option \<Rightarrow> bool" where
  "settled now opts h oc st \<longleftrightarrow>
     (case ah_status h of
        AgRunning \<Rightarrow>
          if ro_resume_running opts then oc = Requeued h \<and> st = Some AgQueued \<or> oc = Resume h \<and> st = Some AgRunning
          else oc = MarkedLost (h\<lparr>ah_status := AgLostOnRestart, ah_finished_at := Some now\<rparr>) \<and> st = Some AgLostOnRestart
      | AgSleeping \<Rightarrow> oc = ReSleeping h \<and> st = Some (if sn_sleep (ah_snapshot h) = None then AgRunning else AgSleeping)
      | AgQueued \<Rightarrow> oc = Requeued h \<and> st = Some AgQueued
      | AgPaused \<Rightarrow> oc = Recorded h \<and> st = Some AgPaused
      | _ \<Rightarrow> if too_old now opts h then oc = SkippedRow (ah_goal_id h) (ah_status h) \<and> st = None
             else oc = Recorded h \<and> st = Some (ah_status h))"

lemma terminal_row_settled:
  assumes "agent_terminal (ah_status h)" and "reattach_row ops now opts h r = (Inr oc, r')" and "status_of r (ah_goal_id h) = None"
  shows "settled now opts h oc (status_of r' (ah_goal_id h)) \<and>
    (\<forall>j. j \<noteq> ah_goal_id h \<longrightarrow> map_of (rg_inner r') j = map_of (rg_inner r) j)"
proof -
  have row: "reattach_row ops now opts h r =
     (if too_old now opts h
      then (case rs_remove ops (ah_goal_id h) (rg_store r) of
              (Inl e, s') \<Rightarrow> (Inl e, r\<lparr>rg_store := s'\<rparr>)
            | (Inr _, s') \<Rightarrow> (Inr (SkippedRow (ah_goal_id h) (ah_status h)), r\<lparr>rg_store := s'\<rparr>))
      else admit_with_status ops now (ah_status h) h (Recorded h) r)"
    using assms(1) by (auto simp: reattach_row_def too_old_def agent_terminal_def)
  have set: "settled now opts h x st \<longleftrightarrow>
      (if too_old now opts h then x = SkippedRow (ah_goal_id h) (ah_status h) \<and> st = None
       else x = Recorded h \<and> st = Some (ah_status h))" for st x
    using assms(1) by (auto simp: settled_def agent_terminal_def)
  show ?thesis
  proof (cases "too_old now opts h")
    case True
    then show ?thesis using assms(2,3) by (auto simp: row set split: prod.splits sum.splits)
  next
    case False
    then have "admit_with_status ops now (ah_status h) h (Recorded h) r = (Inr oc, r')" using assms(2) by (simp add: row)
    from admit_with_status_effect [OF this] False show ?thesis by (simp add: set)
  qed
qed

lemma running_row_settled:
  assumes st: "ah_status h = AgRunning" and row: "reattach_row ops now opts h r = (Inr oc, r')"
  shows "settled now opts h oc (status_of r' (ah_goal_id h)) \<and>
    (\<forall>j. j \<noteq> ah_goal_id h \<longrightarrow> map_of (rg_inner r') j = map_of (rg_inner r) j)"
proof (cases "ro_resume_running opts")
  case True
  then obtain x where a: "admit ops h True r = (Inr x, r')"
    and oc: "oc = (case x of QueuedAt _ \<Rightarrow> Requeued h | _ \<Rightarrow> Resume (h\<lparr>ah_status := AgRunning\<rparr>))"
    using row st by (auto simp: reattach_row_def chain_Inr)
  have "h\<lparr>ah_status := AgRunning\<rparr> = h" using st by (cases h) simp
  moreover have "x \<noteq> Rejected"
    using a by (auto simp: admit_cases split: if_splits dest: stored_admission_effect(5))
  ultimately show ?thesis using True st oc admit_effect [OF a] by (cases x) (auto simp: settled_def)
next
  case False
  let ?lost = "h\<lparr>ah_status := AgLostOnRestart, ah_finished_at := Some now\<rparr>"
  obtain s' where "admit_with_status ops now AgLostOnRestart ?lost (MarkedLost ?lost) (r\<lparr>rg_store := s'\<rparr>) = (Inr oc, r')"
    using row st False by (auto simp: reattach_row_def Let_def split: prod.splits sum.splits)
  from admit_with_status_effect [OF this] False st show ?thesis by (auto simp: settled_def)
qed

lemma sleeping_row_settled:
  assumes st: "ah_status h = AgSleeping" and row: "reattach_row ops now opts h r = (Inr oc, r')"
  shows "settled now opts h oc (status_of r' (ah_goal_id h)) \<and>
    (\<forall>j. j \<noteq> ah_goal_id h \<longrightarrow> map_of (rg_inner r') j = map_of (rg_inner r) j)"
proof -
  obtain x r1 where a: "admit ops h True r = (Inr x, r1)" and oc: "oc = ReSleeping h"
    and s: "(case sn_sleep (ah_snapshot h) of Some sl \<Rightarrow> set_sleeping ops now (ah_goal_id h) sl r1
             | None \<Rightarrow> set_status ops now (ah_goal_id h) AgRunning r1) = (Inr (), r')"
    using row st by (auto simp: reattach_row_def chain_Inr)
  show ?thesis
  proof (cases "sn_sleep (ah_snapshot h)")
    case None
    then have "set_status ops now (ah_goal_id h) AgRunning r1 = (Inr (), r')" using s by simp
    from set_status_effect [OF this] admit_effect(2) [OF a] None oc st show ?thesis by (simp add: settled_def)
  next
    case (Some sl)
    then have "set_sleeping ops now (ah_goal_id h) sl r1 = (Inr (), r')" using s by simp
    from set_sleeping_effect [OF this] admit_effect(2) [OF a] Some oc st show ?thesis by (simp add: settled_def)
  qed
qed

lemma row_settled:
  assumes "reattach_row ops now opts h r = (Inr oc, r')" and "status_of r (ah_goal_id h) = None"
  shows "settled now opts h oc (status_of r' (ah_goal_id h)) \<and>
    (\<forall>j. j \<noteq> ah_goal_id h \<longrightarrow> map_of (rg_inner r') j = map_of (rg_inner r) j)"
proof -
  consider "ah_status h = AgRunning" | "ah_status h = AgSleeping" | "ah_status h = AgQueued" | "ah_status h = AgPaused"
    | "agent_terminal (ah_status h)"
    by (cases "ah_status h") (auto simp: agent_terminal_def)
  then show ?thesis
  proof cases
    case 3
    then have "admit_with_status ops now AgQueued h (Requeued h) r = (Inr oc, r')" using assms(1) by (simp add: reattach_row_def)
    from admit_with_status_effect [OF this] 3 show ?thesis by (simp add: settled_def)
  next
    case 4
    then have "admit_with_status ops now AgPaused h (Recorded h) r = (Inr oc, r')" using assms(1) by (simp add: reattach_row_def)
    from admit_with_status_effect [OF this] 4 show ?thesis by (simp add: settled_def)
  next
    case 5
    then show ?thesis using terminal_row_settled [OF _ assms(1,2)] by blast
  qed (use running_row_settled [OF _ assms(1)] sleeping_row_settled [OF _ assms(1)] in blast)+
qed

lemma rows_settled:
  assumes "reattach_rows ops now opts rows r = (Inr ocs, r')" and "distinct (map ah_goal_id rows)"
    and "\<forall>h \<in> set rows. status_of r (ah_goal_id h) = None"
  shows "length ocs = length rows \<and>
    (\<forall>k < length rows. settled now opts (rows ! k) (ocs ! k) (status_of r' (ah_goal_id (rows ! k)))) \<and>
    (\<forall>j. j \<notin> ah_goal_id ` set rows \<longrightarrow> status_of r' j = status_of r j)"
  using assms
proof (induction rows arbitrary: r ocs)
  case (Cons h rows)
  obtain oc r1 ocs' where row: "reattach_row ops now opts h r = (Inr oc, r1)"
    and rows: "reattach_rows ops now opts rows r1 = (Inr ocs', r')" and ocs: "ocs = oc # ocs'"
    using Cons.prems(1) by (auto simp: chain_Inr)
  have st: "settled now opts h oc (status_of r1 (ah_goal_id h))"
    and fr: "status_of r1 j = status_of r j" if "j \<noteq> ah_goal_id h" for j
    using row_settled [OF row] Cons.prems(3) that by (auto simp: status_of_def)
  have st1: "settled now opts h oc (status_of r1 (ah_goal_id h))"
    using row_settled [OF row] Cons.prems(3) by simp
  have "\<forall>g \<in> set rows. status_of r1 (ah_goal_id g) = None"
    using Cons.prems(2,3) fr by (force simp: image_iff)
  from Cons.IH [OF rows _ this] Cons.prems(2)
  have IH: "length ocs' = length rows"
    "\<And>k. k < length rows \<Longrightarrow> settled now opts (rows ! k) (ocs' ! k) (status_of r' (ah_goal_id (rows ! k)))"
    "\<And>j. j \<notin> ah_goal_id ` set rows \<Longrightarrow> status_of r' j = status_of r1 j"
    by simp_all
  have h: "status_of r' (ah_goal_id h) = status_of r1 (ah_goal_id h)" using IH(3) Cons.prems(2) by simp
  have "settled now opts ((h # rows) ! k) (ocs ! k) (status_of r' (ah_goal_id ((h # rows) ! k)))"
    if "k < length (h # rows)" for k
    using that st1 h IH(2) ocs by (cases k) auto
  with IH(1,3) fr ocs show ?case by auto
qed simp

lemma reattach_settles_every_goal_parts:
  assumes "agent_rows_ok s" and "rs_list (agent_sql_ops db) s = Inr rows"
    and "reattach (agent_sql_ops db) now opts (new_registry s cap) = (Inr ocs, r')"
  shows "length ocs = length rows"
    and "k < length rows \<Longrightarrow> settled now opts (rows ! k) (ocs ! k) (status_of r' (ah_goal_id (rows ! k)))"
    and "stored_row s i = None \<Longrightarrow> status_of r' i = None"
proof -
  have rows: "reattach_rows (agent_sql_ops db) now opts rows (new_registry s cap) = (Inr ocs, r')"
    using assms(2,3) by (simp add: reattach_def new_registry_def)
  have empty: "status_of (new_registry s cap) j = None" for j by (simp add: status_of_def new_registry_def)
  note ls = asql_list.list_stored [OF assms(1,2)]
  note all = rows_settled [OF rows conjunct1 [OF ls]]
  show "length ocs = length rows" using all empty by blast
  show "settled now opts (rows ! k) (ocs ! k) (status_of r' (ah_goal_id (rows ! k)))" if "k < length rows"
    using all empty that by blast
  show "status_of r' i = None" if "stored_row s i = None"
  proof -
    have "i \<notin> ah_goal_id ` set rows" using ls that by force
    then show ?thesis using all empty by simp
  qed
qed

text \<open>C18. A restart walks every stored goal once and settles it by its status: paused, queued and recent terminal goals come back
  as they were, running goals are resumed or, at the cap or when resuming is off, queued or lost, sleeping goals sleep on, old terminal goals are
  forgotten; nothing else enters the registry.\<close>

theorem reattach_settles_every_goal:
  assumes "agent_rows_ok s" and "rs_list (agent_sql_ops db) s = Inr rows"
    and "reattach (agent_sql_ops db) now opts (new_registry s cap) = (Inr ocs, r')"
  shows "length ocs = length rows \<and>
    (\<forall>k < length rows. settled now opts (rows ! k) (ocs ! k) (status_of r' (ah_goal_id (rows ! k)))) \<and>
    (\<forall>i. stored_row s i = None \<longrightarrow> status_of r' i = None)"
  using reattach_settles_every_goal_parts [OF assms] by blast

definition short_options :: reattach_options where
  "short_options = \<lparr>ro_resume_running = True, ro_keep_terminal_for = 5\<rparr>"

definition paused_db :: agent_db where
  "paused_db = [handle_to_row (sample_goal 4 AgPaused Interactive)]"

theorem reattach_settles_every_goal_witness:
  "settled 5 short_options (sample_goal 4 AgPaused Interactive) (Recorded (sample_goal 4 AgPaused Interactive))
     (status_of (snd (reattach (agent_sql_ops (\<lambda>_. True)) 5 short_options (new_registry paused_db 1))) (Uuid 4))"
proof -
  let ?h = "sample_goal 4 AgPaused Interactive" and ?ops = "agent_sql_ops (\<lambda>_. True)"
  let ?re = "reattach ?ops 5 short_options (new_registry paused_db 1)"
  have row: "row_to_handle (handle_to_row ?h) = Inr ?h" by code_simp
  have ok: "agent_rows_ok paused_db" by (simp add: agent_rows_ok_def paused_db_def row)
  have ls: "rs_list ?ops paused_db = Inr [?h]"
    by (simp add: agent_sql_ops_def sql_list_def sql_list_where_def paused_db_def row)
  have "fst ?re = Inr [Recorded ?h]" by code_simp
  then have re: "?re = (Inr [Recorded ?h], snd ?re)" by (rule pair_of_fst)
  have g: "ah_goal_id ?h = Uuid 4" by (simp add: sample_goal_def)
  show ?thesis proof -
    have "\<forall>k < length [?h]. settled 5 short_options ([?h] ! k) ([Recorded ?h] ! k)
        (status_of (snd ?re) (ah_goal_id ([?h] ! k)))"
      using reattach_settles_every_goal [OF ok ls re] by blast
    then show ?thesis unfolding g [symmetric] by (metis length_Cons nth_Cons_0 zero_less_Suc)
  qed
qed

text \<open>A queued goal that is reattached while a slot is free is marked queued but is not in the queue: neither a promotion nor a later
  release will ever start it.\<close>

theorem requeued_goal_is_not_in_the_queue:
  assumes "ah_status h = AgQueued" and "count_running r < rg_cap r" and "ah_goal_id h \<notin> set (rg_queue r)"
    and "reattach_row ops now opts h r = (Inr oc, r')"
  shows "oc = Requeued h \<and> status_of r' (ah_goal_id h) = Some AgQueued \<and> ah_goal_id h \<notin> set (rg_queue r') \<and>
    promote_queued ops now' (ah_goal_id h) r' = (Inr False, r')"
proof -
  have re: "admit_with_status ops now AgQueued h (Requeued h) r = (Inr oc, r')"
    using assms(1,4) by (simp add: reattach_row_def)
  obtain x r1 where a: "admit ops h True r = (Inr x, r1)" and s: "set_status ops now (ah_goal_id h) AgQueued r1 = (Inr (), r')"
    using re by (auto simp: admit_with_status_def chain_Inr)
  have "stored_admission ops h Admitted r = (Inr x, r1)" using a assms(2) by (simp add: admit_cases not_le [symmetric])
  then have "rg_queue r1 = rg_queue r" by (rule stored_admission_effect(2))
  then have q: "ah_goal_id h \<notin> set (rg_queue r')" using set_status_effect(3) [OF s] assms(3) by simp
  then show ?thesis using admit_with_status_effect [OF re] by (simp add: promote_queued_def)
qed

theorem requeued_goal_is_not_in_the_queue_witness:
  "promote_queued memory_ops 9 (Uuid 3)
     (snd (reattach_row memory_ops 5 short_options (sample_goal 3 AgQueued Interactive) (new_registry [] 2)))
   = (Inr False, snd (reattach_row memory_ops 5 short_options (sample_goal 3 AgQueued Interactive) (new_registry [] 2)))"
proof -
  let ?h = "sample_goal 3 AgQueued Interactive" and ?r = "new_registry ([] :: memory_store) 2"
  let ?re = "reattach_row memory_ops 5 short_options ?h ?r"
  have h: "ah_status ?h = AgQueued" "ah_goal_id ?h = Uuid 3" by (simp_all add: sample_goal_def)
  have r: "count_running ?r < rg_cap ?r" "ah_goal_id ?h \<notin> set (rg_queue ?r)"
    by (simp_all add: new_registry_def count_running_def occupying_def)
  have "fst ?re = Inr (Requeued ?h)" by code_simp
  then have re: "?re = (Inr (Requeued ?h), snd ?re)" by (rule pair_of_fst)
  from requeued_goal_is_not_in_the_queue [OF h(1) r re, of 9] show ?thesis by (simp only: h)
qed

subsection \<open>Looking goals up\<close>

text \<open>A reply is routed to the newest paused goal of its channel, instance and sender, and to none exactly when there is none.\<close>

theorem reply_reaches_newest_paused_goal:
  assumes "wf_table (rg_inner r)"
  shows "case find_paused_by_origin plugin inst sender r of
      None \<Rightarrow> \<forall>i e. map_of (rg_inner r) i = Some e \<longrightarrow> \<not> from_origin plugin inst sender e
    | Some i \<Rightarrow> \<exists>e. map_of (rg_inner r) i = Some e \<and> from_origin plugin inst sender e \<and>
        (\<forall>j f. map_of (rg_inner r) j = Some f \<longrightarrow> from_origin plugin inst sender f \<longrightarrow>
           hm_started_at (re_meta f) \<le> hm_started_at (re_meta e))"
proof (cases "max_by_key (\<lambda>(i, e). hm_started_at (re_meta e)) (filter (\<lambda>(i, e). from_origin plugin inst sender e) (rg_inner r))")
  case None
  then have "filter (\<lambda>(i, e). from_origin plugin inst sender e) (rg_inner r) = []" by simp
  then have "\<not> from_origin plugin inst sender e" if "map_of (rg_inner r) i = Some e" for i e
    using map_of_SomeD [OF that] by (auto simp: filter_empty_conv)
  with None show ?thesis by (simp add: find_paused_by_origin_def)
next
  case (Some p)
  obtain i e where p: "p = (i, e)" by (cases p)
  have mem: "(i, e) \<in> set (rg_inner r)" "from_origin plugin inst sender e"
    using max_by_key_in [OF Some] p by auto
  have "hm_started_at (re_meta f) \<le> hm_started_at (re_meta e)"
    if "map_of (rg_inner r) j = Some f" "from_origin plugin inst sender f" for j f
    using max_by_key_greatest [OF Some, of "(j, f)"] map_of_SomeD [OF that(1)] that(2) p by auto
  then show ?thesis using Some p mem assms by (auto simp: find_paused_by_origin_def map_of_in_table)
qed

definition asking_goal :: "128 word \<Rightarrow> timestamp \<Rightarrow> uuid \<times> registry_entry" where
  "asking_goal n t =
     (Uuid n, handle_entry ((sample_goal n AgPaused Interactive)\<lparr>ah_started_at := t,
        ah_origin := Some \<lparr>oc_plugin = ''telegram'', oc_instance = ''main'', oc_sender_id = ''42'', oc_correlation_id = None\<rparr>\<rparr>))"

theorem reply_reaches_newest_paused_goal_witness:
  "find_paused_by_origin ''telegram'' ''main'' ''42''
     ((new_registry ([] :: memory_store) 1)\<lparr>rg_inner := [asking_goal 1 30, asking_goal 2 50]\<rparr>) = Some (Uuid 2) \<and>
   (\<exists>e. map_of (rg_inner ((new_registry ([] :: memory_store) 1)\<lparr>rg_inner := [asking_goal 1 30, asking_goal 2 50]\<rparr>)) (Uuid 2) = Some e \<and>
      from_origin ''telegram'' ''main'' ''42'' e)"
proof -
  let ?r = "(new_registry ([] :: memory_store) 1)\<lparr>rg_inner := [asking_goal 1 30, asking_goal 2 50]\<rparr>"
  have "wf_table (rg_inner ?r)" by (simp add: asking_goal_def wf_table_def)
  note newest = reply_reaches_newest_paused_goal [OF this, of "''telegram''" "''main''" "''42''"]
  have "find_paused_by_origin ''telegram'' ''main'' ''42'' ?r = Some (Uuid 2)" by code_simp
  with newest show ?thesis by (simp only: option.case) blast
qed

end
