(* ===== verification/Session.thy ===== *)
theory Session
  imports Json
begin

section \<open>Sessions (\<open>crates/core/src/session/types.rs\<close> and \<open>manager.rs\<close>)\<close>

text \<open>
  A session is one conversation with its bounded history; the manager keeps the live sessions in a map, evicts the
  one idle longest when the map is full and sweeps the ones idle for the time to live.  The callbacks of \<open>on_expire\<close> run on tasks of
  their own: what the manager does is spawn them, and \<open>sm_spawned\<close> is the list of the calls it spawned, a callback being any
  value of type \<open>'c\<close>.
\<close>

datatype role = User | Assistant | Tool

record interaction =
  in_role :: role
  in_content :: string
  in_timestamp :: timestamp

record session =
  se_id :: uuid
  se_agent_id :: string
  se_history :: "interaction list"
  se_context :: json
  se_created_at :: timestamp
  se_last_access :: timestamp
  se_max_turns :: nat
  se_summary :: "string option"
  se_surfaced :: "uuid list"

definition session_with_id :: "timestamp \<Rightarrow> uuid \<Rightarrow> string \<Rightarrow> nat \<Rightarrow> session" where
  "session_with_id now i agent turns =
     \<lparr>se_id = i, se_agent_id = agent, se_history = [], se_context = JNull, se_created_at = now, se_last_access = now,
      se_max_turns = turns, se_summary = None, se_surfaced = []\<rparr>"

definition apply_compaction :: "string \<Rightarrow> nat \<Rightarrow> session \<Rightarrow> session" where
  "apply_compaction summary tail_start s =
     (let cap = min tail_start (length (se_history s))
      in s\<lparr>se_history := drop cap (se_history s), se_summary := Some summary\<rparr>)"

definition session_push :: "timestamp \<Rightarrow> interaction \<Rightarrow> session \<Rightarrow> session" where
  "session_push now x s =
     (let h = se_history s @ [x]
      in s\<lparr>se_history := (if se_max_turns s < length h then tl h else h), se_last_access := now\<rparr>)"

text \<open>The set of surfaced memories, as a list without duplicates.\<close>

definition mark_surfaced :: "uuid \<Rightarrow> session \<Rightarrow> session" where
  "mark_surfaced m s = s\<lparr>se_surfaced := List.insert m (se_surfaced s)\<rparr>"

definition is_surfaced :: "uuid \<Rightarrow> session \<Rightarrow> bool" where
  "is_surfaced m s \<longleftrightarrow> m \<in> set (se_surfaced s)"

subsection \<open>The manager\<close>

record 'c session_manager =
  sm_sessions :: "(uuid, session) table"
  sm_ttl :: duration
  sm_max_turns :: nat
  sm_max_sessions :: nat
  sm_callbacks :: "'c list"
  sm_spawned :: "('c \<times> uuid) list"

definition default_max_sessions :: nat where "default_max_sessions = 10000"

definition with_cap :: "duration \<Rightarrow> nat \<Rightarrow> nat \<Rightarrow> 'c session_manager" where
  "with_cap ttl turns cap =
     \<lparr>sm_sessions = [], sm_ttl = ttl, sm_max_turns = turns, sm_max_sessions = cap, sm_callbacks = [], sm_spawned = []\<rparr>"

definition new_manager :: "duration \<Rightarrow> nat \<Rightarrow> 'c session_manager" where
  "new_manager ttl turns = with_cap ttl turns default_max_sessions"

definition on_expire :: "'c \<Rightarrow> 'c session_manager \<Rightarrow> 'c session_manager" where
  "on_expire cb m = m\<lparr>sm_callbacks := sm_callbacks m @ [cb]\<rparr>"

definition fire_expire :: "uuid \<Rightarrow> 'c session_manager \<Rightarrow> 'c session_manager" where
  "fire_expire i m = m\<lparr>sm_spawned := sm_spawned m @ map (\<lambda>cb. (cb, i)) (sm_callbacks m)\<rparr>"

definition drop_session :: "uuid \<Rightarrow> 'c session_manager \<Rightarrow> 'c session_manager" where
  "drop_session i m = fire_expire i (m\<lparr>sm_sessions := AList.delete i (sm_sessions m)\<rparr>)"

definition oldest_idle :: "(uuid, session) table \<Rightarrow> uuid option" where
  "oldest_idle t = map_option fst (min_by_key (\<lambda>(i, s). se_last_access s) t)"

lemma oldest_idle_present: "oldest_idle t = Some i \<Longrightarrow> map_of t i \<noteq> None"
  by (auto simp: oldest_idle_def map_of_eq_None_iff image_iff dest!: min_by_key_in) force

lemma drop_session_sessions [simp]: "sm_sessions (drop_session i m) = AList.delete i (sm_sessions m)"
  by (simp add: drop_session_def fire_expire_def)

lemma drop_session_config [simp]:
  "sm_ttl (drop_session i m) = sm_ttl m" "sm_max_turns (drop_session i m) = sm_max_turns m"
  "sm_max_sessions (drop_session i m) = sm_max_sessions m" "sm_callbacks (drop_session i m) = sm_callbacks m"
  "sm_spawned (drop_session i m) = sm_spawned m @ map (\<lambda>cb. (cb, i)) (sm_callbacks m)"
  by (simp_all add: drop_session_def fire_expire_def)

lemma length_delete_less: "map_of m k \<noteq> None \<Longrightarrow> length (AList.delete k m) < length m"
proof (induction m)
  case (Cons p m)
  have "length (AList.delete k m) \<le> length m" by simp
  then have "length (AList.delete k m) < Suc (length m)" by (rule le_imp_less_Suc)
  with Cons show ?case by (cases p) auto
qed simp

text \<open>The loop of \<open>enforce_cap\<close> ends because every round removes a session that is there.\<close>

function evict_to_cap :: "'c session_manager \<Rightarrow> 'c session_manager" where
  "evict_to_cap m =
     (if length (sm_sessions m) < sm_max_sessions m then m
      else (case oldest_idle (sm_sessions m) of None \<Rightarrow> m | Some i \<Rightarrow> evict_to_cap (drop_session i m)))"
  by pat_completeness auto
termination
  by (relation "measure (\<lambda>m. length (sm_sessions m))")
    (auto dest!: oldest_idle_present intro!: length_delete_less)

declare evict_to_cap.simps [simp del]

definition enforce_cap :: "'c session_manager \<Rightarrow> 'c session_manager" where
  "enforce_cap m = (if sm_max_sessions m = 0 then m else evict_to_cap m)"

definition put_session :: "uuid \<Rightarrow> session \<Rightarrow> 'c session_manager \<Rightarrow> 'c session_manager" where
  "put_session i s m = m\<lparr>sm_sessions := AList.update i s (sm_sessions m)\<rparr>"

text \<open>\<open>create\<close>; the identifier is the one \<open>Uuid::new_v4\<close> drew.\<close>

definition session_create :: "timestamp \<Rightarrow> uuid \<Rightarrow> string \<Rightarrow> 'c session_manager \<Rightarrow> session \<times> 'c session_manager" where
  "session_create now i agent m =
     (let m1 = enforce_cap m; s = session_with_id now i agent (sm_max_turns m1) in (s, put_session i s m1))"

definition session_get :: "timestamp \<Rightarrow> uuid \<Rightarrow> 'c session_manager \<Rightarrow> session option \<times> 'c session_manager" where
  "session_get now i m =
     (case map_of (sm_sessions m) i of
        None \<Rightarrow> (None, m)
      | Some s \<Rightarrow> let s' = s\<lparr>se_last_access := now\<rparr> in (Some s', put_session i s' m))"

definition get_or_create :: "timestamp \<Rightarrow> uuid \<Rightarrow> string \<Rightarrow> 'c session_manager \<Rightarrow> session \<times> 'c session_manager" where
  "get_or_create now i agent m =
     (let m1 = (if map_of (sm_sessions m) i = None then enforce_cap m else m);
          s = (case map_of (sm_sessions m1) i of None \<Rightarrow> session_with_id now i agent (sm_max_turns m1) | Some s \<Rightarrow> s);
          s' = s\<lparr>se_last_access := now\<rparr>
      in (s', put_session i s' m1))"

definition session_update :: "session \<Rightarrow> 'c session_manager \<Rightarrow> bool \<times> 'c session_manager" where
  "session_update s m =
     (case map_of (sm_sessions m) (se_id s) of None \<Rightarrow> (False, m) | Some _ \<Rightarrow> (True, put_session (se_id s) s m))"

definition push_message :: "timestamp \<Rightarrow> uuid \<Rightarrow> interaction \<Rightarrow> 'c session_manager \<Rightarrow> bool \<times> 'c session_manager" where
  "push_message now i x m =
     (case map_of (sm_sessions m) i of None \<Rightarrow> (False, m) | Some s \<Rightarrow> (True, put_session i (session_push now x s) m))"

definition session_delete :: "uuid \<Rightarrow> 'c session_manager \<Rightarrow> bool \<times> 'c session_manager" where
  "session_delete i m =
     (if map_of (sm_sessions m) i = None then (False, m) else (True, drop_session i m))"

definition active_count :: "'c session_manager \<Rightarrow> nat" where
  "active_count m = length (sm_sessions m)"

text \<open>One round of the sweeper; \<open>chrono::Duration::from_std\<close> refuses what does not fit \<open>i64\<close> milliseconds.\<close>

definition sweep_ttl :: "duration \<Rightarrow> int" where
  "sweep_ttl ttl = (if int ttl \<le> (2 ^ 63 - 1) * 1000000 then int ttl else 86400 * 1000000000)"

definition sweep_interval :: "duration \<Rightarrow> duration" where
  "sweep_interval ttl = max (ttl div 4) 10000000"

definition is_expired :: "timestamp \<Rightarrow> duration \<Rightarrow> session \<Rightarrow> bool" where
  "is_expired now ttl s \<longleftrightarrow> sweep_ttl ttl \<le> now - se_last_access s"

definition expired_ids :: "timestamp \<Rightarrow> 'c session_manager \<Rightarrow> uuid list" where
  "expired_ids now m = map fst (filter (\<lambda>(i, s). is_expired now (sm_ttl m) s) (sm_sessions m))"

definition sweep :: "timestamp \<Rightarrow> 'c session_manager \<Rightarrow> 'c session_manager" where
  "sweep now m =
     (let ids = expired_ids now m;
          m1 = m\<lparr>sm_sessions := foldl (\<lambda>t i. AList.delete i t) (sm_sessions m) ids\<rparr>
      in if sm_callbacks m1 = [] then m1 else foldl (\<lambda>m i. fire_expire i m) m1 ids)"

subsection \<open>Bounds\<close>

definition histories_bounded :: "'c session_manager \<Rightarrow> bool" where
  "histories_bounded m \<longleftrightarrow>
     (\<forall>(i, s) \<in> set (sm_sessions m). length (se_history s) \<le> se_max_turns s \<and> se_max_turns s = sm_max_turns m)"

definition manager_ok :: "'c session_manager \<Rightarrow> bool" where
  "manager_ok m \<longleftrightarrow> wf_table (sm_sessions m) \<and> histories_bounded m \<and>
     (0 < sm_max_sessions m \<longrightarrow> length (sm_sessions m) \<le> sm_max_sessions m)"

text \<open>\<open>session_step\<close> is one operation of the manager; a session handed to \<open>update\<close> keeps its bound.\<close>

inductive session_step :: "'c session_manager \<Rightarrow> 'c session_manager \<Rightarrow> bool" where
  "session_step m (snd (session_create now i agent m))"
| "session_step m (snd (session_get now i m))"
| "session_step m (snd (get_or_create now i agent m))"
| "length (se_history s) \<le> se_max_turns s \<Longrightarrow> se_max_turns s = sm_max_turns m \<Longrightarrow> session_step m (snd (session_update s m))"
| "session_step m (snd (push_message now i x m))"
| "session_step m (snd (session_delete i m))"
| "session_step m (sweep now m)"
| "session_step m (on_expire cb m)"

lemma set_update_subset: "set (AList.update k v t) \<subseteq> insert (k, v) (set t)"
  by (induction t) auto

lemma histories_put:
  "histories_bounded m \<Longrightarrow> length (se_history s) \<le> se_max_turns s \<Longrightarrow> se_max_turns s = sm_max_turns m \<Longrightarrow>
     histories_bounded (put_session i s m)"
  using set_update_subset [of i s "sm_sessions m"] by (fastforce simp: histories_bounded_def put_session_def)

lemma histories_drop: "histories_bounded m \<Longrightarrow> histories_bounded (drop_session i m)"
  by (auto simp: histories_bounded_def table_simps)

lemma evict_to_cap_induct [case_names stop evict]:
  assumes "\<And>m. length (sm_sessions m) < sm_max_sessions m \<or> oldest_idle (sm_sessions m) = None \<Longrightarrow> P m m"
    and "\<And>m i. sm_max_sessions m \<le> length (sm_sessions m) \<Longrightarrow> oldest_idle (sm_sessions m) = Some i \<Longrightarrow>
           P (drop_session i m) (evict_to_cap (drop_session i m)) \<Longrightarrow> P m (evict_to_cap (drop_session i m))"
  shows "P m (evict_to_cap m)"
proof (induction m rule: evict_to_cap.induct)
  case (1 m)
  show ?case
  proof (cases "length (sm_sessions m) < sm_max_sessions m")
    case True
    then show ?thesis using assms(1) [of m] by (simp add: evict_to_cap.simps [of m])
  next
    case False
    then show ?thesis using assms(1) [of m] assms(2) [of m] 1
      by (cases "oldest_idle (sm_sessions m)") (simp_all add: evict_to_cap.simps [of m])
  qed
qed

lemma evict_to_cap_config:
  "sm_ttl (evict_to_cap m) = sm_ttl m \<and> sm_max_turns (evict_to_cap m) = sm_max_turns m \<and>
   sm_max_sessions (evict_to_cap m) = sm_max_sessions m \<and> sm_callbacks (evict_to_cap m) = sm_callbacks m"
  by (rule evict_to_cap_induct) auto

lemma evict_to_cap_keeps:
  "wf_table (sm_sessions m) \<and> histories_bounded m \<longrightarrow>
     wf_table (sm_sessions (evict_to_cap m)) \<and> histories_bounded (evict_to_cap m)"
  by (rule evict_to_cap_induct) (auto simp: histories_drop)

lemma evict_to_cap_room: "0 < sm_max_sessions m \<longrightarrow> length (sm_sessions (evict_to_cap m)) < sm_max_sessions m"
  by (rule evict_to_cap_induct) (auto simp: oldest_idle_def)

lemma enforce_cap_ok:
  assumes "manager_ok m"
  shows "wf_table (sm_sessions (enforce_cap m))" "histories_bounded (enforce_cap m)"
    "sm_max_turns (enforce_cap m) = sm_max_turns m" "sm_max_sessions (enforce_cap m) = sm_max_sessions m"
    "0 < sm_max_sessions m \<Longrightarrow> length (sm_sessions (enforce_cap m)) < sm_max_sessions m"
  using assms evict_to_cap_config [of m] evict_to_cap_keeps [of m] evict_to_cap_room [of m]
  by (auto simp: enforce_cap_def manager_ok_def)

lemma put_new_ok:
  assumes "wf_table (sm_sessions m)" "histories_bounded m" "0 < sm_max_sessions m \<longrightarrow> length (sm_sessions m) < sm_max_sessions m"
    and "length (se_history s) \<le> se_max_turns s" "se_max_turns s = sm_max_turns m"
  shows "manager_ok (put_session i s m)"
proof -
  have "length (AList.update i s (sm_sessions m)) \<le> Suc (length (sm_sessions m))"
    by (cases "map_of (sm_sessions m) i") (simp_all add: length_update_new length_update_old)
  then show ?thesis using assms histories_put [OF assms(2,4,5)]
    by (auto simp: manager_ok_def) (simp_all add: put_session_def)
qed

lemma put_old_ok:
  assumes "manager_ok m" "map_of (sm_sessions m) i \<noteq> None"
    and "length (se_history s) \<le> se_max_turns s" "se_max_turns s = sm_max_turns m"
  shows "manager_ok (put_session i s m)"
  using assms histories_put [of m s i] by (auto simp: manager_ok_def put_session_def length_update_old)

lemma ok_entry: "manager_ok m \<Longrightarrow> map_of (sm_sessions m) i = Some s \<Longrightarrow>
    length (se_history s) \<le> se_max_turns s \<and> se_max_turns s = sm_max_turns m"
  by (auto simp: manager_ok_def histories_bounded_def dest!: map_of_SomeD)

lemma session_with_id_bounded [simp]:
  "se_history (session_with_id now i a n) = []" "se_max_turns (session_with_id now i a n) = n"
  by (simp_all add: session_with_id_def)

lemma session_push_bounded:
  "length (se_history s) \<le> se_max_turns s \<Longrightarrow>
     length (se_history (session_push now x s)) \<le> se_max_turns s \<and> se_max_turns (session_push now x s) = se_max_turns s"
  by (auto simp: session_push_def Let_def)

lemma session_create_ok: "manager_ok m \<Longrightarrow> manager_ok (snd (session_create now i agent m))"
  using enforce_cap_ok [of m] by (simp add: session_create_def Let_def put_new_ok)

lemma session_get_ok: "manager_ok m \<Longrightarrow> manager_ok (snd (session_get now i m))"
  by (auto simp: session_get_def Let_def split: option.split intro!: put_old_ok dest: ok_entry)

lemma get_or_create_ok:
  assumes "manager_ok m"
  shows "manager_ok (snd (get_or_create now i agent m))"
proof (cases "map_of (sm_sessions m) i")
  case None
  let ?m = "enforce_cap m"
  have "length (se_history s) \<le> se_max_turns s \<and> se_max_turns s = sm_max_turns ?m"
    if "map_of (sm_sessions ?m) i = Some s" for s
    using enforce_cap_ok(2) [OF assms] map_of_SomeD [OF that] by (auto simp: histories_bounded_def)
  then show ?thesis using None enforce_cap_ok [OF assms]
    by (auto simp: get_or_create_def Let_def split: option.split intro!: put_new_ok)
next
  case (Some s)
  then show ?thesis using assms ok_entry [OF assms Some] by (auto simp: get_or_create_def Let_def intro!: put_old_ok)
qed

lemma session_update_ok:
  "manager_ok m \<Longrightarrow> length (se_history s) \<le> se_max_turns s \<Longrightarrow> se_max_turns s = sm_max_turns m \<Longrightarrow>
     manager_ok (snd (session_update s m))"
  by (auto simp: session_update_def split: option.split intro!: put_old_ok)

lemma push_message_ok: "manager_ok m \<Longrightarrow> manager_ok (snd (push_message now i x m))"
proof (cases "map_of (sm_sessions m) i")
  case (Some s)
  assume ok: "manager_ok m"
  note e = ok_entry [OF ok Some]
  have "manager_ok (put_session i (session_push now x s) m)"
    using Some session_push_bounded [of s now x] e by (intro put_old_ok [OF ok]) simp_all
  then show ?thesis using Some by (simp add: push_message_def)
qed (simp add: push_message_def)

lemma drop_ok: "manager_ok m \<Longrightarrow> manager_ok (drop_session i m)"
  using histories_drop [of m i] by (auto simp: manager_ok_def intro: order_trans [OF length_delete_le])

lemma session_delete_ok: "manager_ok m \<Longrightarrow> manager_ok (snd (session_delete i m))"
  by (simp add: session_delete_def drop_ok)

lemma fire_all:
  "foldl (\<lambda>m i. fire_expire i m) m ids =
     m\<lparr>sm_spawned := sm_spawned m @ concat (map (\<lambda>i. map (\<lambda>cb. (cb, i)) (sm_callbacks m)) ids)\<rparr>"
  by (induction ids arbitrary: m) (simp_all add: fire_expire_def)

lemma foldl_delete_filter: "foldl (\<lambda>t i. AList.delete i t) t ids = filter (\<lambda>p. fst p \<notin> set ids) t"
proof (induction ids arbitrary: t)
  case (Cons i ids)
  have "AList.delete i t = filter (\<lambda>p. fst p \<noteq> i) t" by (induction t) auto
  with Cons show ?case by (simp add: conj_commute)
qed simp

lemma sweep_shape:
  "sweep now m = m\<lparr>sm_sessions := filter (\<lambda>p. fst p \<notin> set (expired_ids now m)) (sm_sessions m),
     sm_spawned := sm_spawned m @ concat (map (\<lambda>i. map (\<lambda>cb. (cb, i)) (sm_callbacks m)) (expired_ids now m))\<rparr>"
  by (simp add: sweep_def Let_def fire_all foldl_delete_filter)

lemma sweep_ok: "manager_ok m \<Longrightarrow> manager_ok (sweep now m)"
  by (auto simp: manager_ok_def sweep_shape histories_bounded_def intro: order_trans [OF length_filter_le])

lemma on_expire_ok: "manager_ok m \<Longrightarrow> manager_ok (on_expire cb m)"
  by (simp add: on_expire_def manager_ok_def histories_bounded_def)

lemma sessions_and_histories_bounded_parts:
  assumes "session_step\<^sup>*\<^sup>* (with_cap ttl turns cap) m"
  shows "0 < cap \<longrightarrow> active_count m \<le> cap"
    and "map_of (sm_sessions m) i = Some s \<Longrightarrow> length (se_history s) \<le> turns"
proof -
  have step: "manager_ok m2 \<and> sm_max_sessions m2 = sm_max_sessions m1 \<and> sm_max_turns m2 = sm_max_turns m1"
    if "session_step m1 m2" "manager_ok m1" for m1 m2 :: "'a session_manager"
    using that
    by (cases rule: session_step.cases)
      (simp_all add: session_create_ok session_get_ok get_or_create_ok session_update_ok push_message_ok session_delete_ok
        sweep_ok on_expire_ok,
       auto simp: session_create_def session_get_def get_or_create_def session_update_def push_message_def session_delete_def
        put_session_def Let_def sweep_shape on_expire_def enforce_cap_ok split: option.split)
  have "manager_ok m \<and> sm_max_sessions m = cap \<and> sm_max_turns m = turns"
    using assms
  proof induction
    case base
    show ?case by (simp add: with_cap_def manager_ok_def histories_bounded_def)
  qed (use step in auto)
  then show "0 < cap \<longrightarrow> active_count m \<le> cap"
    and "map_of (sm_sessions m) i = Some s \<Longrightarrow> length (se_history s) \<le> turns"
    using ok_entry [of m i s] by (auto simp: manager_ok_def active_count_def)
qed



subsection \<open>Eviction and expiry\<close>

lemma enforce_full:
  assumes "0 < sm_max_sessions m" "length (sm_sessions m) = sm_max_sessions m"
  shows "\<exists>i. oldest_idle (sm_sessions m) = Some i \<and> enforce_cap m = drop_session i m"
proof -
  have "sm_sessions m \<noteq> []" using assms by auto
  then obtain i where i: "oldest_idle (sm_sessions m) = Some i"
    by (cases "oldest_idle (sm_sessions m)") (auto simp: oldest_idle_def)
  have "length (AList.delete i (sm_sessions m)) < length (sm_sessions m)"
    using oldest_idle_present [OF i] by (rule length_delete_less)
  then have "evict_to_cap (drop_session i m) = drop_session i m"
    using assms by (simp add: evict_to_cap.simps [of "drop_session i m"])
  then have "enforce_cap m = drop_session i m"
    using assms i by (simp add: enforce_cap_def evict_to_cap.simps [of m])
  with i show ?thesis by blast
qed

text \<open>A new conversation at a full manager takes the place of the one idle longest, whose callbacks are all spawned once; every other
  session is untouched.\<close>

theorem new_session_evicts_oldest_idle:
  assumes "wf_table (sm_sessions m)" and "0 < sm_max_sessions m" and "active_count m = sm_max_sessions m"
    and new: "map_of (sm_sessions m) i = None"
  shows "\<exists>old s0. map_of (sm_sessions m) old = Some s0 \<and>
     (\<forall>j s. map_of (sm_sessions m) j = Some s \<longrightarrow> se_last_access s0 \<le> se_last_access s) \<and>
     map_of (sm_sessions (snd (get_or_create now i agent m))) =
       (map_of (sm_sessions m))(old := None, i \<mapsto> session_with_id now i agent (sm_max_turns m)) \<and>
     sm_spawned (snd (get_or_create now i agent m)) = sm_spawned m @ map (\<lambda>cb. (cb, old)) (sm_callbacks m)"
proof -
  obtain old where old: "oldest_idle (sm_sessions m) = Some old" and ev: "enforce_cap m = drop_session old m"
    using enforce_full assms(2,3) unfolding active_count_def by blast
  obtain s0 where s0: "min_by_key (\<lambda>(i, s). se_last_access s) (sm_sessions m) = Some (old, s0)"
    using old by (auto simp: oldest_idle_def)
  have mem: "map_of (sm_sessions m) old = Some s0"
    using min_by_key_in [OF s0] assms(1) by (simp add: map_of_in_table)
  have least: "se_last_access s0 \<le> se_last_access s" if "map_of (sm_sessions m) j = Some s" for j s
    using min_by_key_least [OF s0, of "(j, s)"] map_of_SomeD [OF that] by simp
  have "map_of (sm_sessions (drop_session old m)) i = None" using new by (simp add: table_simps)
  then have "snd (get_or_create now i agent m) = put_session i (session_with_id now i agent (sm_max_turns m)) (drop_session old m)"
    using new ev by (simp add: get_or_create_def Let_def session_with_id_def)
  then show ?thesis using mem least by (intro exI [of _ old] exI [of _ s0]) (simp add: put_session_def table_simps)
qed

lemma sweep_drops_exactly_idle_sessions_parts:
  assumes "wf_table (sm_sessions m)"
  shows "map_of (sm_sessions (sweep now m)) i =
      (case map_of (sm_sessions m) i of
         Some s \<Rightarrow> if is_expired now (sm_ttl m) s then None else Some s | None \<Rightarrow> None)"
    and "sm_spawned (sweep now m) = sm_spawned m @ concat (map (\<lambda>i. map (\<lambda>cb. (cb, i)) (sm_callbacks m)) (expired_ids now m))"
    and "distinct (expired_ids now m)"
    and "i \<in> set (expired_ids now m) \<Longrightarrow> push_message t i x (sweep now m) = (False, sweep now m)"
proof -
  have mem: "i \<in> set (expired_ids now m) \<longleftrightarrow> (\<exists>s. map_of (sm_sessions m) i = Some s \<and> is_expired now (sm_ttl m) s)" for i
    using assms by (force simp: expired_ids_def map_of_in_table)
  have f: "map_of (filter (\<lambda>p. fst p \<notin> S) t) i = (if i \<in> S then None else map_of t i)" for S and t :: "(uuid, session) table" and i
    by (induction t) auto
  have map: "map_of (sm_sessions (sweep now m)) i =
      (case map_of (sm_sessions m) i of
         Some s \<Rightarrow> if is_expired now (sm_ttl m) s then None else Some s | None \<Rightarrow> None)" for i
    using mem [of i] by (simp add: sweep_shape f split: option.split)
  show "map_of (sm_sessions (sweep now m)) i =
      (case map_of (sm_sessions m) i of
         Some s \<Rightarrow> if is_expired now (sm_ttl m) s then None else Some s | None \<Rightarrow> None)"
    by (rule map)
  show "sm_spawned (sweep now m) = sm_spawned m @ concat (map (\<lambda>i. map (\<lambda>cb. (cb, i)) (sm_callbacks m)) (expired_ids now m))"
    by (simp add: sweep_shape)
  show "distinct (expired_ids now m)"
    using assms by (simp add: expired_ids_def wf_table_def distinct_map_filter)
  show "push_message t i x (sweep now m) = (False, sweep now m)" if "i \<in> set (expired_ids now m)"
    using that map [of i] mem [of i] by (auto simp: push_message_def)
qed

text \<open>The sweeper drops exactly the sessions idle for the time to live and spawns every callback once for each of them; a message to a dropped
  session is refused rather than bringing it back.\<close>

theorem sweep_drops_exactly_idle_sessions:
  assumes "wf_table (sm_sessions m)"
  shows "(\<forall>i. map_of (sm_sessions (sweep now m)) i =
      (case map_of (sm_sessions m) i of
         Some s \<Rightarrow> if is_expired now (sm_ttl m) s then None else Some s | None \<Rightarrow> None)) \<and>
    sm_spawned (sweep now m) = sm_spawned m @ concat (map (\<lambda>i. map (\<lambda>cb. (cb, i)) (sm_callbacks m)) (expired_ids now m)) \<and>
    distinct (expired_ids now m) \<and>
    (\<forall>i \<in> set (expired_ids now m). push_message t i x (sweep now m) = (False, sweep now m))"
  using sweep_drops_exactly_idle_sessions_parts [OF assms] by blast

definition idle_manager :: "string session_manager" where
  "idle_manager = snd (get_or_create 9 (Uuid 2) ''b'' (snd (get_or_create 1 (Uuid 1) ''a'' (on_expire ''bye'' (with_cap 5 3 2)))))"

theorem new_session_evicts_oldest_idle_witness:
  "sm_spawned (snd (get_or_create 10 (Uuid 3) ''c'' idle_manager)) = [(''bye'', Uuid 1)]"
proof -
  have wf: "wf_table (sm_sessions idle_manager)" by code_simp
  have cap: "0 < sm_max_sessions idle_manager" by code_simp
  have full: "active_count idle_manager = sm_max_sessions idle_manager" by code_simp
  have new: "map_of (sm_sessions idle_manager) (Uuid 3) = None" by code_simp
  obtain old s0 where old: "map_of (sm_sessions idle_manager) old = Some s0"
      "\<forall>j s. map_of (sm_sessions idle_manager) j = Some s \<longrightarrow> se_last_access s0 \<le> se_last_access s"
    and sp: "sm_spawned (snd (get_or_create 10 (Uuid 3) ''c'' idle_manager)) =
      sm_spawned idle_manager @ map (\<lambda>cb. (cb, old)) (sm_callbacks idle_manager)"
    using new_session_evicts_oldest_idle [OF wf cap full new] by blast
  have t: "map (\<lambda>(i, s). (i, se_last_access s)) (sm_sessions idle_manager) = [(Uuid 1, 1), (Uuid 2, 9)]" by code_simp
  obtain sa sb where "sm_sessions idle_manager = [(Uuid 1, sa), (Uuid 2, sb)]" "se_last_access sa = 1" "se_last_access sb = 9"
    using t by (auto simp: map_eq_Cons_conv)
  then have "old = Uuid 1" using old by (auto split: if_splits)
  moreover have "sm_spawned idle_manager = []" "sm_callbacks idle_manager = [''bye'']" by code_simp+
  ultimately show ?thesis using sp by simp
qed

theorem sweep_drops_exactly_idle_sessions_witness:
  "push_message 11 (Uuid 1) \<lparr>in_role = User, in_content = ''hi'', in_timestamp = 11\<rparr> (sweep 10 idle_manager) = (False, sweep 10 idle_manager)"
proof -
  have "wf_table (sm_sessions idle_manager)" "Uuid 1 \<in> set (expired_ids 10 idle_manager)" by code_simp+
  then show ?thesis using sweep_drops_exactly_idle_sessions by blast
qed

end
