(* ===== verification/Pairing.thy ===== *)
theory Pairing
  imports Json "HOL-Library.Char_ord" "HOL-Library.List_Lexorder" "HOL-Library.Product_Lexorder"
begin

section \<open>Pairing of senders (\<open>crates/pairing\<close>)\<close>

text \<open>
  An unknown sender gets a code; an operator approves the code, which moves the sender to the
  allowlist; the gate admits allowlisted senders and caches its decision for a short time.  The theory models
  the code generator (\<open>code.rs\<close>), the SQLite tables (\<open>store.rs\<close>), the counters (\<open>telemetry.rs\<close>)
  and the gate (\<open>gate.rs\<close>).  \<open>db\<close> says which statements succeed, times are unix seconds in the tables
  and nanoseconds of the monotonic clock in the gate's cache, and an operation is one step.
\<close>

subsection \<open>Codes\<close>

definition alphabet :: string where
  "alphabet = ''ABCDEFGHJKLMNPQRSTUVWXYZ23456789''"

definition code_length :: nat where "code_length = 8"
definition max_attempts :: nat where "max_attempts = 500"

text \<open>\<open>rng\<close> gives the index drawn for each position of each attempt; \<open>gen_range\<close> keeps it below the length.\<close>

definition random_code :: "(nat \<Rightarrow> nat) \<Rightarrow> string" where
  "random_code draw = map (\<lambda>k. alphabet ! draw k) [0..<code_length]"

fun try_codes :: "(nat \<Rightarrow> nat \<Rightarrow> nat) \<Rightarrow> string list \<Rightarrow> nat \<Rightarrow> nat \<Rightarrow> string option" where
  "try_codes rng existing k 0 = None"
| "try_codes rng existing k (Suc n) =
     (if random_code (rng k) \<in> set existing then try_codes rng existing (Suc k) n else Some (random_code (rng k)))"

definition generate_unique :: "(nat \<Rightarrow> nat \<Rightarrow> nat) \<Rightarrow> string list \<Rightarrow> string option" where
  "generate_unique rng existing = try_codes rng existing 0 max_attempts"

subsection \<open>Tables and counters\<close>

record pair_request =
  pd_channel :: string
  pd_account :: string
  pd_sender :: string
  pd_code :: string
  pd_created_at :: int
  pd_meta :: json

record allow_row =
  al_channel :: string
  al_account :: string
  al_sender :: string
  al_approved_at :: int
  al_via :: string
  al_revoked_at :: "int option"

record pairing_metrics =
  pm_approvals :: "(string \<times> string, nat) table"
  pm_codes_expired :: nat
  pm_pending :: "(string, int) table"

record pairing_state =
  ps_pending :: "pair_request list"
  ps_allow :: "allow_row list"
  ps_metrics :: pairing_metrics

definition no_metrics :: pairing_metrics where
  "no_metrics = \<lparr>pm_approvals = [], pm_codes_expired = 0, pm_pending = []\<rparr>"

definition open_pairing :: pairing_state where
  "open_pairing = \<lparr>ps_pending = [], ps_allow = [], ps_metrics = no_metrics\<rparr>"

record upsert_outcome =
  uo_code :: string
  uo_created :: bool

record approved_request =
  aq_channel :: string
  aq_account :: string
  aq_sender :: string
  aq_approved_at :: int

datatype pairing_error = UnknownCode | Expired | MaxPending string string | StorageError | InvalidError

datatype pairing_stmt =
    CountExpired | DeleteExpired | SelectCode | CountPending | SelectCodes | InsertPending
  | ListPending | ListAllow | BeginTx | SelectByCode | InsertAllow | DeleteByCode | CommitTx
  | RevokeAllow | SelectAllowed | GroupPending

definition pending_ttl :: int where "pending_ttl = 3600"
definition max_pending_per_account :: nat where "max_pending_per_account = 3"

definition pending_gauge :: "string \<Rightarrow> pairing_metrics \<Rightarrow> int" where
  "pending_gauge c m = (case map_of (pm_pending m) c of None \<Rightarrow> 0 | Some n \<Rightarrow> n)"

definition set_gauge :: "string \<Rightarrow> int \<Rightarrow> pairing_metrics \<Rightarrow> pairing_metrics" where
  "set_gauge c n m = m\<lparr>pm_pending := AList.update c n (pm_pending m)\<rparr>"

definition inc_requests_pending :: "string \<Rightarrow> pairing_metrics \<Rightarrow> pairing_metrics" where
  "inc_requests_pending c m = set_gauge c (pending_gauge c m + 1) m"

definition dec_requests_pending :: "string \<Rightarrow> pairing_metrics \<Rightarrow> pairing_metrics" where
  "dec_requests_pending c m = set_gauge c (if pending_gauge c m \<le> 0 then 0 else pending_gauge c m - 1) m"

definition sub_requests_pending :: "string \<Rightarrow> int \<Rightarrow> pairing_metrics \<Rightarrow> pairing_metrics" where
  "sub_requests_pending c n m = (if n \<le> 0 then m else set_gauge c (max (pending_gauge c m - n) 0) m)"

definition set_requests_pending :: "string \<Rightarrow> int \<Rightarrow> pairing_metrics \<Rightarrow> pairing_metrics" where
  "set_requests_pending c n m = set_gauge c (max n 0) m"

definition add_codes_expired :: "nat \<Rightarrow> pairing_metrics \<Rightarrow> pairing_metrics" where
  "add_codes_expired n m = m\<lparr>pm_codes_expired := pm_codes_expired m + n\<rparr>"

definition inc_approvals :: "string \<Rightarrow> string \<Rightarrow> pairing_metrics \<Rightarrow> pairing_metrics" where
  "inc_approvals c res m =
     m\<lparr>pm_approvals := AList.update (c, res)
        (case map_of (pm_approvals m) (c, res) of None \<Rightarrow> 1 | Some n \<Rightarrow> n + 1) (pm_approvals m)\<rparr>"

definition with_metrics :: "(pairing_metrics \<Rightarrow> pairing_metrics) \<Rightarrow> pairing_state \<Rightarrow> pairing_state" where
  "with_metrics f st = st\<lparr>ps_metrics := f (ps_metrics st)\<rparr>"

text \<open>\<open>SELECT channel, COUNT(*) ... GROUP BY channel\<close>.\<close>

definition by_channel :: "pair_request list \<Rightarrow> (string \<times> int) list" where
  "by_channel rows = map (\<lambda>c. (c, int (length (filter (\<lambda>r. pd_channel r = c) rows)))) (remdups (map pd_channel rows))"

subsection \<open>The store\<close>

definition pending_expired :: "int \<Rightarrow> pair_request \<Rightarrow> bool" where
  "pending_expired now r \<longleftrightarrow> pd_created_at r < now - pending_ttl"

definition purge_expired ::
  "(pairing_stmt \<Rightarrow> bool) \<Rightarrow> int \<Rightarrow> pairing_state \<Rightarrow> (pairing_error + nat) \<times> pairing_state" where
  "purge_expired db now st =
     (if \<not> db CountExpired \<or> \<not> db DeleteExpired then (Inl StorageError, st)
      else
        let dead = filter (pending_expired now) (ps_pending st);
            st1 = st\<lparr>ps_pending := filter (\<lambda>r. \<not> pending_expired now r) (ps_pending st)\<rparr>
        in (Inr (length dead),
            if 0 < length dead
            then with_metrics (\<lambda>m. foldl (\<lambda>m (c, n). sub_requests_pending c n m) (add_codes_expired (length dead) m) (by_channel dead)) st1
            else st1))"

definition pending_for :: "string \<Rightarrow> string \<Rightarrow> string \<Rightarrow> pair_request \<Rightarrow> bool" where
  "pending_for channel account sender r \<longleftrightarrow> pd_channel r = channel \<and> pd_account r = account \<and> pd_sender r = sender"

definition account_requests :: "string \<Rightarrow> string \<Rightarrow> pair_request list \<Rightarrow> nat" where
  "account_requests channel account rows = length (filter (\<lambda>r. pd_channel r = channel \<and> pd_account r = account) rows)"

definition upsert_pending ::
  "(pairing_stmt \<Rightarrow> bool) \<Rightarrow> (nat \<Rightarrow> nat \<Rightarrow> nat) \<Rightarrow> int \<Rightarrow> string \<Rightarrow> string \<Rightarrow> string \<Rightarrow> json \<Rightarrow> pairing_state \<Rightarrow>
     (pairing_error + upsert_outcome) \<times> pairing_state" where
  "upsert_pending db rng now channel account sender meta st =
     chain (purge_expired db now st) (\<lambda>_ st1.
       if \<not> db SelectCode then (Inl StorageError, st1)
       else
         (case find (pending_for channel account sender) (ps_pending st1) of
            Some r \<Rightarrow> (Inr \<lparr>uo_code = pd_code r, uo_created = False\<rparr>, st1)
          | None \<Rightarrow>
              if \<not> db CountPending then (Inl StorageError, st1)
              else if max_pending_per_account \<le> account_requests channel account (ps_pending st1)
              then (Inl (MaxPending channel account), st1)
              else if \<not> db SelectCodes then (Inl StorageError, st1)
              else
                (case generate_unique rng (map pd_code (ps_pending st1)) of
                   None \<Rightarrow> (Inl InvalidError, st1)
                 | Some code \<Rightarrow>
                     if \<not> db InsertPending then (Inl StorageError, st1)
                     else (Inr \<lparr>uo_code = code, uo_created = True\<rparr>,
                           with_metrics (inc_requests_pending channel)
                             (st1\<lparr>ps_pending := ps_pending st1 @
                                [\<lparr>pd_channel = channel, pd_account = account, pd_sender = sender, pd_code = code,
                                  pd_created_at = now, pd_meta = meta\<rparr>]\<rparr>)))))"

definition list_pending :: "(pairing_stmt \<Rightarrow> bool) \<Rightarrow> string option \<Rightarrow> pairing_state \<Rightarrow> pairing_error + pair_request list" where
  "list_pending db channel st =
     (if \<not> db ListPending then Inl StorageError
      else Inr (sort_key pd_created_at
             (filter (\<lambda>r. case channel of None \<Rightarrow> True | Some c \<Rightarrow> pd_channel r = c) (ps_pending st))))"

definition allow_for :: "string \<Rightarrow> string \<Rightarrow> string \<Rightarrow> allow_row \<Rightarrow> bool" where
  "allow_for channel account sender r \<longleftrightarrow> al_channel r = channel \<and> al_account r = account \<and> al_sender r = sender"

text \<open>\<open>INSERT ... ON CONFLICT\<close> with the update of the conflict clause.\<close>

definition insert_allow :: "allow_row \<Rightarrow> (allow_row \<Rightarrow> allow_row) \<Rightarrow> allow_row list \<Rightarrow> allow_row list" where
  "insert_allow r upd rows =
     (if (\<exists>x \<in> set rows. allow_for (al_channel r) (al_account r) (al_sender r) x)
      then map (\<lambda>x. if allow_for (al_channel r) (al_account r) (al_sender r) x then upd x else x) rows
      else rows @ [r])"

definition allow_entry :: "string \<Rightarrow> string \<Rightarrow> string \<Rightarrow> int \<Rightarrow> string \<Rightarrow> allow_row" where
  "allow_entry channel account sender now via =
     \<lparr>al_channel = channel, al_account = account, al_sender = sender, al_approved_at = now, al_via = via, al_revoked_at = None\<rparr>"

definition approve ::
  "(pairing_stmt \<Rightarrow> bool) \<Rightarrow> int \<Rightarrow> string \<Rightarrow> pairing_state \<Rightarrow> (pairing_error + approved_request) \<times> pairing_state" where
  "approve db now code st =
     (if \<not> db BeginTx \<or> \<not> db SelectByCode then (Inl StorageError, st)
      else
        (case find (\<lambda>r. pd_code r = code) (ps_pending st) of
           None \<Rightarrow> (Inl UnknownCode, with_metrics (inc_approvals '''' ''not_found'') st)
         | Some r \<Rightarrow>
             if pending_ttl < now - pd_created_at r
             then (Inl Expired, with_metrics (\<lambda>m. add_codes_expired 1 (inc_approvals (pd_channel r) ''expired'' m)) st)
             else if \<not> db InsertAllow \<or> \<not> db DeleteByCode \<or> \<not> db CommitTx then (Inl StorageError, st)
             else (Inr \<lparr>aq_channel = pd_channel r, aq_account = pd_account r, aq_sender = pd_sender r, aq_approved_at = now\<rparr>,
                   with_metrics (\<lambda>m. dec_requests_pending (pd_channel r) (inc_approvals (pd_channel r) ''ok'' m))
                     (st\<lparr>ps_allow := insert_allow (allow_entry (pd_channel r) (pd_account r) (pd_sender r) now ''cli'')
                           (\<lambda>x. x\<lparr>al_revoked_at := None, al_approved_at := now, al_via := ''cli''\<rparr>) (ps_allow st),
                         ps_pending := filter (\<lambda>x. pd_code x \<noteq> code) (ps_pending st)\<rparr>))))"

definition revoke ::
  "(pairing_stmt \<Rightarrow> bool) \<Rightarrow> int \<Rightarrow> string \<Rightarrow> string \<Rightarrow> pairing_state \<Rightarrow> (pairing_error + bool) \<times> pairing_state" where
  "revoke db now channel sender st =
     (if \<not> db RevokeAllow then (Inl StorageError, st)
      else
        let hit = (\<lambda>r. al_channel r = channel \<and> al_sender r = sender \<and> al_revoked_at r = None)
        in (Inr (\<exists>r \<in> set (ps_allow st). hit r),
            st\<lparr>ps_allow := map (\<lambda>r. if hit r then r\<lparr>al_revoked_at := Some now\<rparr> else r) (ps_allow st)\<rparr>))"

definition allowed_in :: "string \<Rightarrow> string \<Rightarrow> string \<Rightarrow> pairing_state \<Rightarrow> bool" where
  "allowed_in channel account sender st \<longleftrightarrow>
     (\<exists>r \<in> set (ps_allow st). allow_for channel account sender r \<and> al_revoked_at r = None)"

definition is_allowed ::
  "(pairing_stmt \<Rightarrow> bool) \<Rightarrow> string \<Rightarrow> string \<Rightarrow> string \<Rightarrow> pairing_state \<Rightarrow> pairing_error + bool" where
  "is_allowed db channel account sender st =
     (if \<not> db SelectAllowed then Inl StorageError else Inr (allowed_in channel account sender st))"

text \<open>\<open>seed\<close>: the statements run one by one and are not undone; the number of senders seeded before a failure is lost with the error.\<close>

fun seed ::
  "(nat \<Rightarrow> bool) \<Rightarrow> int \<Rightarrow> string \<Rightarrow> string \<Rightarrow> string list \<Rightarrow> nat \<Rightarrow> pairing_state \<Rightarrow> (pairing_error + nat) \<times> pairing_state" where
  "seed ok now channel account [] count st = (Inr count, st)"
| "seed ok now channel account (s # ss) count st =
     (if \<not> ok (length ss) then (Inl StorageError, st)
      else seed ok now channel account ss (count + 1)
             (st\<lparr>ps_allow := insert_allow (allow_entry channel account s now ''seed'') (\<lambda>x. x\<lparr>al_revoked_at := None\<rparr>) (ps_allow st)\<rparr>))"

definition refresh_pending_gauge :: "(pairing_stmt \<Rightarrow> bool) \<Rightarrow> pairing_state \<Rightarrow> (pairing_error + unit) \<times> pairing_state" where
  "refresh_pending_gauge db st =
     (if \<not> db GroupPending then (Inl StorageError, st)
      else
        let rows = by_channel (ps_pending st);
            stale = filter (\<lambda>c. c \<notin> fst ` set rows) (map fst (pm_pending (ps_metrics st)));
            m1 = foldl (\<lambda>m c. set_requests_pending c 0 m) (ps_metrics st) stale
        in (Inr (), st\<lparr>ps_metrics := foldl (\<lambda>m (c, n). set_requests_pending c n m) m1 rows\<rparr>))"

definition list_allow ::
  "(pairing_stmt \<Rightarrow> bool) \<Rightarrow> string option \<Rightarrow> bool \<Rightarrow> pairing_state \<Rightarrow> pairing_error + allow_row list" where
  "list_allow db channel include_revoked st =
     (if \<not> db ListAllow then Inl StorageError
      else Inr (sort_key (\<lambda>r. (al_channel r, al_account r, al_sender r))
             (filter (\<lambda>r. (include_revoked \<or> al_revoked_at r = None) \<and>
                (case channel of None \<Rightarrow> True | Some c \<Rightarrow> al_channel r = c)) (ps_allow st))))"

subsection \<open>The gate\<close>

datatype decision = Admit | Challenge string | Drop

record cache_entry =
  ce_decision :: decision
  ce_expires_at :: instant

record pairing_gate =
  pg_store :: pairing_state
  pg_cache :: "(string, cache_entry) table"
  pg_ttl :: duration

definition default_cache_ttl :: duration where "default_cache_ttl = 30000000000"

definition new_gate :: "pairing_state \<Rightarrow> pairing_gate" where
  "new_gate st = \<lparr>pg_store = st, pg_cache = [], pg_ttl = default_cache_ttl\<rparr>"

definition with_cache_ttl :: "duration \<Rightarrow> pairing_gate \<Rightarrow> pairing_gate" where
  "with_cache_ttl ttl g = g\<lparr>pg_ttl := ttl\<rparr>"

definition flush_cache :: "pairing_gate \<Rightarrow> pairing_gate" where
  "flush_cache g = g\<lparr>pg_cache := []\<rparr>"

definition cache_key :: "string \<Rightarrow> string \<Rightarrow> string \<Rightarrow> string" where
  "cache_key channel account sender = channel @ ''|'' @ account @ ''|'' @ sender"

text \<open>The sender as the channel's adapter writes it, or as it came.\<close>

definition normalized :: "(string \<Rightarrow> string option) option \<Rightarrow> string \<Rightarrow> string" where
  "normalized adapter sender =
     (case Option.bind adapter (\<lambda>norm. norm sender) of None \<Rightarrow> sender | Some s \<Rightarrow> s)"

definition gate_query ::
  "(pairing_stmt \<Rightarrow> bool) \<Rightarrow> (nat \<Rightarrow> nat \<Rightarrow> nat) \<Rightarrow> int \<Rightarrow> string \<Rightarrow> string \<Rightarrow> string \<Rightarrow> pairing_state \<Rightarrow>
     (pairing_error + decision) \<times> pairing_state" where
  "gate_query db rng now channel account sender st =
     (case is_allowed db channel account sender st of
        Inl e \<Rightarrow> (Inl e, st)
      | Inr True \<Rightarrow> (Inr Admit, st)
      | Inr False \<Rightarrow>
          (case upsert_pending db rng now channel account sender JNull st of
             (Inr out, st') \<Rightarrow> (Inr (Challenge (uo_code out)), st')
           | (Inl (MaxPending c a), st') \<Rightarrow> (Inr Drop, st')
           | (Inl e, st') \<Rightarrow> (Inl e, st')))"

text \<open>\<open>t1\<close> and \<open>t2\<close> are the two readings of the monotonic clock, \<open>now\<close> the unix time.\<close>

definition should_admit ::
  "(pairing_stmt \<Rightarrow> bool) \<Rightarrow> (nat \<Rightarrow> nat \<Rightarrow> nat) \<Rightarrow> instant \<Rightarrow> instant \<Rightarrow> int \<Rightarrow> string \<Rightarrow> string \<Rightarrow> string \<Rightarrow> bool \<Rightarrow>
     (string \<Rightarrow> string option) option \<Rightarrow> pairing_gate \<Rightarrow> (pairing_error + decision) \<times> pairing_gate" where
  "should_admit db rng t1 t2 now channel account sender auto_challenge adapter g =
     (if \<not> auto_challenge then (Inr Admit, g)
      else
        let sender' = normalized adapter sender; key = cache_key channel account sender';
            cached = (case map_of (pg_cache g) key of Some e \<Rightarrow> if t1 < ce_expires_at e then Some (ce_decision e) else None | None \<Rightarrow> None)
        in (case cached of
              Some d \<Rightarrow> (Inr d, g)
            | None \<Rightarrow>
                (case gate_query db rng now channel account sender' (pg_store g) of
                   (Inl e, st') \<Rightarrow> (Inl e, g\<lparr>pg_store := st'\<rparr>)
                 | (Inr d, st') \<Rightarrow>
                     (Inr d, g\<lparr>pg_store := st',
                        pg_cache := AList.update key \<lparr>ce_decision = d, ce_expires_at = t2 + pg_ttl g\<rparr> (pg_cache g)\<rparr>))))"

subsection \<open>Codes are new and well formed\<close>

lemma length_alphabet: "length alphabet = 32"
  by code_simp

lemma try_codes_new: "try_codes rng existing k n = Some c \<Longrightarrow> c \<notin> set existing \<and> (\<exists>j. c = random_code (rng j))"
  by (induction rng existing k n rule: try_codes.induct) (auto split: if_splits)

definition well_formed_code :: "string \<Rightarrow> bool" where
  "well_formed_code c \<longleftrightarrow> length c = code_length \<and> set c \<subseteq> set alphabet"

lemma random_code_ok: "(\<And>p. draw p < length alphabet) \<Longrightarrow> well_formed_code (random_code draw)"
  by (auto simp: well_formed_code_def random_code_def)

lemma generate_unique_new:
  "generate_unique rng existing = Some c \<Longrightarrow> (\<And>k p. rng k p < length alphabet) \<Longrightarrow>
     c \<notin> set existing \<and> well_formed_code c"
  using try_codes_new random_code_ok by (metis generate_unique_def)

subsection \<open>The gauge of pending requests\<close>

definition channel_count :: "string \<Rightarrow> pair_request list \<Rightarrow> nat" where
  "channel_count c rows = length (filter (\<lambda>r. pd_channel r = c) rows)"

definition gauge_in_sync :: "pairing_state \<Rightarrow> bool" where
  "gauge_in_sync st \<longleftrightarrow> (\<forall>c. pending_gauge c (ps_metrics st) = int (channel_count c (ps_pending st)))"

lemma gauge_set [simp]: "pending_gauge c (set_gauge d n m) = (if c = d then n else pending_gauge c m)"
  by (simp add: pending_gauge_def set_gauge_def table_simps)

lemma gauge_other [simp]:
  "pending_gauge c (add_codes_expired n m) = pending_gauge c m" "pending_gauge c (inc_approvals d res m) = pending_gauge c m"
  by (simp_all add: pending_gauge_def add_codes_expired_def inc_approvals_def)

lemma map_of_by_channel:
  "map_of (by_channel rows) c = (if channel_count c rows = 0 then None else Some (int (channel_count c rows)))"
proof -
  have g: "map_of (map (\<lambda>c. (c, f c)) xs) c = (if c \<in> set xs then Some (f c) else None)" for f :: "string \<Rightarrow> int" and xs
    by (induction xs) auto
  have "c \<in> set (map pd_channel rows) \<longleftrightarrow> channel_count c rows \<noteq> 0"
    by (force simp: channel_count_def filter_empty_conv)
  then show ?thesis by (simp add: by_channel_def g channel_count_def)
qed

lemma distinct_by_channel: "distinct (map fst (by_channel rows))"
  by (simp add: by_channel_def comp_def)

lemma gauge_foldl_sub:
  "distinct (map fst rows) \<Longrightarrow>
     pending_gauge c (foldl (\<lambda>m (c, n). sub_requests_pending c n m) m rows) =
     (case map_of rows c of Some n \<Rightarrow> if n \<le> 0 then pending_gauge c m else max (pending_gauge c m - n) 0
      | None \<Rightarrow> pending_gauge c m)"
proof (induction rows arbitrary: m)
  case (Cons p rows)
  obtain d n where p: "p = (d, n)" by (cases p)
  have "map_of rows d = None" using Cons.prems p by (simp add: map_of_eq_None_iff)
  then show ?case using Cons p by (auto simp: sub_requests_pending_def split: option.split)
qed simp

lemma gauge_foldl_set:
  "distinct (map fst rows) \<Longrightarrow>
     pending_gauge c (foldl (\<lambda>m (c, n). set_requests_pending c n m) m rows) =
     (case map_of rows c of Some n \<Rightarrow> max n 0 | None \<Rightarrow> pending_gauge c m)"
proof (induction rows arbitrary: m)
  case (Cons p rows)
  obtain d n where p: "p = (d, n)" by (cases p)
  have "map_of rows d = None" using Cons.prems p by (simp add: map_of_eq_None_iff)
  then show ?case using Cons p by (auto simp: set_requests_pending_def split: option.split)
qed simp

lemma gauge_foldl_zero:
  "pending_gauge c (foldl (\<lambda>m c. set_requests_pending c 0 m) m cs) = (if c \<in> set cs then 0 else pending_gauge c m)"
  by (induction cs arbitrary: m) (auto simp: set_requests_pending_def)

lemma with_metrics_select [simp]:
  "ps_pending (with_metrics f st) = ps_pending st" "ps_allow (with_metrics f st) = ps_allow st"
  "ps_metrics (with_metrics f st) = f (ps_metrics st)"
  by (simp_all add: with_metrics_def)

lemma channel_count_split:
  "channel_count c (filter P rows) + channel_count c (filter (\<lambda>r. \<not> P r) rows) = channel_count c rows"
  by (induction rows) (auto simp: channel_count_def)

lemma purge_gauge:
  assumes "gauge_in_sync st" and "purge_expired db now st = (res, st')"
  shows "gauge_in_sync st'"
proof (cases "db CountExpired \<and> db DeleteExpired")
  case True
  let ?dead = "filter (pending_expired now) (ps_pending st)"
  have split: "int (channel_count c ?dead) + int (channel_count c (filter (\<lambda>r. \<not> pending_expired now r) (ps_pending st)))
      = pending_gauge c (ps_metrics st)" for c
    using channel_count_split [of c "pending_expired now" "ps_pending st"] assms(1)
    by (simp add: gauge_in_sync_def flip: of_nat_add)
  have "pending_gauge c (ps_metrics st') = int (channel_count c (ps_pending st'))" for c
  proof (cases "?dead = []")
    case dead: True
    then show ?thesis using split [of c] True assms(2)
      by (auto simp: purge_expired_def Let_def channel_count_def)
  next
    case False
    then show ?thesis using split [of c] True assms(2)
      by (auto simp: purge_expired_def Let_def gauge_foldl_sub distinct_by_channel map_of_by_channel)
  qed
  then show ?thesis by (simp add: gauge_in_sync_def)
qed (use assms in \<open>auto simp: purge_expired_def\<close>)

text \<open>A refresh makes the gauge of every channel the number of its pending requests, whatever it was before.\<close>

lemma refresh_resyncs_the_gauge_aux:
  assumes "refresh_pending_gauge db st = (Inr (), st')"
  shows "gauge_in_sync st' \<and> ps_pending st' = ps_pending st"
proof -
  have "pending_gauge c (ps_metrics st') = int (channel_count c (ps_pending st))" for c
  proof (cases "channel_count c (ps_pending st) = 0")
    case True
    have "c \<notin> fst ` set (by_channel (ps_pending st))"
      using True map_of_by_channel [of "ps_pending st" c] by (simp add: map_of_eq_None_iff)
    moreover have "c \<notin> set (map fst (pm_pending (ps_metrics st))) \<Longrightarrow> pending_gauge c (ps_metrics st) = 0"
      by (simp add: pending_gauge_def map_of_eq_None_iff [THEN iffD2])
    ultimately show ?thesis using True assms
      by (auto simp: refresh_pending_gauge_def Let_def gauge_foldl_set distinct_by_channel map_of_by_channel gauge_foldl_zero
          split: if_splits)
  next
    case False
    then show ?thesis using assms
      by (auto simp: refresh_pending_gauge_def Let_def gauge_foldl_set distinct_by_channel map_of_by_channel split: if_splits)
  qed
  then show ?thesis using assms by (auto simp: gauge_in_sync_def refresh_pending_gauge_def Let_def split: if_splits)
qed

subsection \<open>The store's invariant\<close>

definition pending_key :: "pair_request \<Rightarrow> string \<times> string \<times> string" where
  "pending_key r = (pd_channel r, pd_account r, pd_sender r)"

definition allow_key :: "allow_row \<Rightarrow> string \<times> string \<times> string" where
  "allow_key r = (al_channel r, al_account r, al_sender r)"

definition pairing_inv :: "pairing_state \<Rightarrow> bool" where
  "pairing_inv st \<longleftrightarrow>
     distinct (map pending_key (ps_pending st)) \<and> distinct (map pd_code (ps_pending st)) \<and>
     (\<forall>c a. account_requests c a (ps_pending st) \<le> max_pending_per_account) \<and>
     (\<forall>r \<in> set (ps_pending st). well_formed_code (pd_code r)) \<and>
     distinct (map allow_key (ps_allow st)) \<and> gauge_in_sync st"

lemma account_requests_filter: "account_requests c a (filter P rows) \<le> account_requests c a rows"
  by (induction rows) (auto simp: account_requests_def)

lemma purge_tables:
  "purge_expired db now st = (res, st') \<Longrightarrow> ps_allow st' = ps_allow st \<and>
     (ps_pending st' = ps_pending st \<or> ps_pending st' = filter (\<lambda>r. \<not> pending_expired now r) (ps_pending st)) \<and>
     (\<forall>n. res = Inr n \<longrightarrow> ps_pending st' = filter (\<lambda>r. \<not> pending_expired now r) (ps_pending st))"
  by (auto simp: purge_expired_def Let_def split: if_splits)

lemma inv_filter_pending:
  assumes "pairing_inv st" "ps_pending st' = filter P (ps_pending st)" "ps_allow st' = ps_allow st" "gauge_in_sync st'"
  shows "pairing_inv st'"
  using assms order_trans [OF account_requests_filter] by (auto simp: pairing_inv_def distinct_map_filter)

lemma purge_inv: "pairing_inv st \<Longrightarrow> purge_expired db now st = (res, st') \<Longrightarrow> pairing_inv st'"
proof -
  assume inv: "pairing_inv st" and p: "purge_expired db now st = (res, st')"
  have g: "gauge_in_sync st'" using purge_gauge [OF _ p] inv by (simp add: pairing_inv_def)
  from purge_tables [OF p] consider "ps_pending st' = filter (\<lambda>_. True) (ps_pending st)"
    | "ps_pending st' = filter (\<lambda>r. \<not> pending_expired now r) (ps_pending st)" by auto
  then show "pairing_inv st'" using inv_filter_pending [OF inv] purge_tables [OF p] g by cases blast+
qed

lemma gauge_inc [simp]:
  "pending_gauge c (inc_requests_pending d m) = (if c = d then pending_gauge c m + 1 else pending_gauge c m)"
  by (simp add: inc_requests_pending_def)

lemma channel_count_snoc: "channel_count c (rows @ [r]) = channel_count c rows + (if pd_channel r = c then 1 else 0)"
  by (simp add: channel_count_def)

lemma account_requests_snoc:
  "account_requests c a (rows @ [r]) = account_requests c a rows + (if pd_channel r = c \<and> pd_account r = a then 1 else 0)"
  by (simp add: account_requests_def)

lemma insert_pending_inv:
  assumes inv: "pairing_inv st" and fresh: "find (pending_for (pd_channel r) (pd_account r) (pd_sender r)) (ps_pending st) = None"
    and room: "account_requests (pd_channel r) (pd_account r) (ps_pending st) < max_pending_per_account"
    and code: "pd_code r \<notin> set (map pd_code (ps_pending st))" "well_formed_code (pd_code r)"
  shows "pairing_inv (with_metrics (inc_requests_pending (pd_channel r)) (st\<lparr>ps_pending := ps_pending st @ [r]\<rparr>))"
proof -
  have "pending_key r \<notin> set (map pending_key (ps_pending st))"
    using fresh by (auto simp: find_None_iff pending_for_def pending_key_def)
  then show ?thesis using inv room code
    by (auto simp: pairing_inv_def gauge_in_sync_def channel_count_snoc account_requests_snoc)
qed

definition rng_ok :: "(nat \<Rightarrow> nat \<Rightarrow> nat) \<Rightarrow> bool" where
  "rng_ok rng \<longleftrightarrow> (\<forall>k p. rng k p < length alphabet)"

lemma upsert_pending_cases:
  assumes "upsert_pending db rng now channel account sender meta st = (res, st')"
  obtains (same) st1 x where "purge_expired db now st = (x, st1)" "st' = st1" "\<forall>o1. res = Inr o1 \<longrightarrow> \<not> uo_created o1 \<and>
      (\<exists>r \<in> set (ps_pending st1). pending_for channel account sender r \<and> pd_code r = uo_code o1)"
  | (new) st1 n r where "purge_expired db now st = (Inr n, st1)" "pd_channel r = channel" "pd_account r = account" "pd_sender r = sender"
      "pd_created_at r = now" "find (pending_for channel account sender) (ps_pending st1) = None"
      "account_requests channel account (ps_pending st1) < max_pending_per_account"
      "generate_unique rng (map pd_code (ps_pending st1)) = Some (pd_code r)"
      "res = Inr \<lparr>uo_code = pd_code r, uo_created = True\<rparr>"
      "st' = with_metrics (inc_requests_pending channel) (st1\<lparr>ps_pending := ps_pending st1 @ [r]\<rparr>)"
proof -
  obtain x st1 where p: "purge_expired db now st = (x, st1)" by fastforce
  show thesis
  proof (cases x)
    case (Inl e)
    then show thesis using assms p by (intro same [OF p]) (auto simp: upsert_pending_def)
  next
    case (Inr n)
    note p = p [unfolded Inr]
    show thesis
    proof (cases "st' = st1")
      case True
      have "\<forall>o1. res = Inr o1 \<longrightarrow> \<not> uo_created o1 \<and>
        (\<exists>r \<in> set (ps_pending st1). pending_for channel account sender r \<and> pd_code r = uo_code o1)"
      proof (cases "find (pending_for channel account sender) (ps_pending st1)")
        case None
        have "length (ps_pending st') = Suc (length (ps_pending st1))" if "res = Inr o1" for o1
          using assms that by (auto simp: upsert_pending_def p None split: if_splits option.splits)
        with True show ?thesis by fastforce
      next
        case (Some r)
        have "r \<in> set (ps_pending st1)" "pending_for channel account sender r"
          using Some by (auto simp: find_Some_iff)
        then show ?thesis using assms by (auto simp: upsert_pending_def p Some split: if_splits)
      qed
      then show thesis by (rule same [OF p True])
    next
      case False
      then obtain code where c: "generate_unique rng (map pd_code (ps_pending st1)) = Some code"
        and f: "find (pending_for channel account sender) (ps_pending st1) = None"
        and n: "account_requests channel account (ps_pending st1) < max_pending_per_account"
        and r: "res = Inr \<lparr>uo_code = code, uo_created = True\<rparr>"
          "st' = with_metrics (inc_requests_pending channel) (st1\<lparr>ps_pending := ps_pending st1 @
             [\<lparr>pd_channel = channel, pd_account = account, pd_sender = sender, pd_code = code, pd_created_at = now, pd_meta = meta\<rparr>]\<rparr>)"
        using assms by (auto simp: upsert_pending_def p split: if_splits option.splits)
      show thesis
        by (rule new [OF p, of "\<lparr>pd_channel = channel, pd_account = account, pd_sender = sender, pd_code = code,
            pd_created_at = now, pd_meta = meta\<rparr>"]) (simp_all add: c f n r)
    qed
  qed
qed

lemma upsert_pending_inv:
  assumes "pairing_inv st" "rng_ok rng" "upsert_pending db rng now channel account sender meta st = (res, st')"
  shows "pairing_inv st' \<and> ps_allow st' = ps_allow st"
  using assms(3)
proof (cases rule: upsert_pending_cases)
  case (same st1 x)
  then show ?thesis using purge_inv [OF assms(1)] purge_tables by blast
next
  case (new st1 n r)
  have inv1: "pairing_inv st1" using purge_inv [OF assms(1) new(1)] .
  have "pd_code r \<notin> set (map pd_code (ps_pending st1)) \<and> well_formed_code (pd_code r)"
    using generate_unique_new [OF new(8)] assms(2) by (simp add: rng_ok_def)
  then have "pairing_inv st'" using insert_pending_inv [OF inv1, of r] new by simp
  then show ?thesis using purge_tables [OF new(1)] new(10) by simp
qed

lemma distinct_filter_nth_unique:
  "distinct (map f xs) \<Longrightarrow> x \<in> set xs \<Longrightarrow> filter (\<lambda>y. f y = f x) xs = [x]"
proof (induction xs)
  case (Cons y ys)
  show ?case
  proof (cases "x = y")
    case True
    then have "filter (\<lambda>z. f z = f x) ys = []" using Cons.prems(1) by (simp add: filter_empty_conv) (metis image_eqI)
    with True show ?thesis by simp
  next
    case False
    then have "x \<in> set ys" "f y \<noteq> f x" using Cons.prems by (auto simp: image_iff)
    then show ?thesis using Cons by simp
  qed
qed simp

lemma channel_count_remove:
  assumes "distinct (map pd_code rows)" "r \<in> set rows"
  shows "int (channel_count c (filter (\<lambda>x. pd_code x \<noteq> pd_code r) rows)) =
    int (channel_count c rows) - (if pd_channel r = c then 1 else 0)"
proof -
  have "channel_count c (filter (\<lambda>x. pd_code x = pd_code r) rows) = (if pd_channel r = c then 1 else 0)"
    using distinct_filter_nth_unique [OF assms] by (simp add: channel_count_def)
  with channel_count_split [of c "\<lambda>x. pd_code x = pd_code r" rows] show ?thesis by (simp split: if_splits)
qed

lemma gauge_dec [simp]:
  "pending_gauge c (dec_requests_pending d m) =
     (if c = d then if pending_gauge c m \<le> 0 then 0 else pending_gauge c m - 1 else pending_gauge c m)"
  by (simp add: dec_requests_pending_def)

lemma allow_for_key: "allow_for c a s x \<longleftrightarrow> allow_key x = (c, a, s)"
  by (simp add: allow_for_def allow_key_def)

lemma insert_allow_keys:
  assumes "\<And>x. allow_key (upd x) = allow_key x"
  shows "map allow_key (insert_allow r upd rows) =
    (if allow_key r \<in> set (map allow_key rows) then map allow_key rows else map allow_key rows @ [allow_key r])"
proof -
  have "allow_key r \<in> set (map allow_key rows) \<longleftrightarrow> (\<exists>x \<in> set rows. allow_for (al_channel r) (al_account r) (al_sender r) x)"
    unfolding set_map image_iff allow_for_key allow_key_def by (auto; metis)
  then show ?thesis using assms by (auto simp: insert_allow_def)
qed

lemma distinct_insert_allow:
  "distinct (map allow_key rows) \<Longrightarrow> (\<And>x. allow_key (upd x) = allow_key x) \<Longrightarrow> distinct (map allow_key (insert_allow r upd rows))"
  by (simp add: insert_allow_keys)

lemma approve_ok:
  assumes "approve db now code st = (Inr req, st')"
  obtains r where "find (\<lambda>r. pd_code r = code) (ps_pending st) = Some r" "now - pd_created_at r \<le> pending_ttl"
    "req = \<lparr>aq_channel = pd_channel r, aq_account = pd_account r, aq_sender = pd_sender r, aq_approved_at = now\<rparr>"
    "ps_pending st' = filter (\<lambda>x. pd_code x \<noteq> code) (ps_pending st)"
    "ps_allow st' = insert_allow (allow_entry (pd_channel r) (pd_account r) (pd_sender r) now ''cli'')
        (\<lambda>x. x\<lparr>al_revoked_at := None, al_approved_at := now, al_via := ''cli''\<rparr>) (ps_allow st)"
    "ps_metrics st' = dec_requests_pending (pd_channel r) (inc_approvals (pd_channel r) ''ok'' (ps_metrics st))"
  using assms by (auto simp: approve_def with_metrics_def not_less split: if_splits option.splits)

lemma approve_err:
  "approve db now code st = (Inl e, st') \<Longrightarrow> ps_pending st' = ps_pending st \<and> ps_allow st' = ps_allow st \<and>
     (\<forall>c. pending_gauge c (ps_metrics st') = pending_gauge c (ps_metrics st))"
  by (auto simp: approve_def split: if_splits option.splits)

lemma approve_inv:
  assumes inv: "pairing_inv st" and a: "approve db now code st = (res, st')"
  shows "pairing_inv st'"
proof (cases res)
  case (Inl e)
  then show ?thesis using approve_err inv a by (simp add: pairing_inv_def gauge_in_sync_def)
next
  case (Inr req)
  from a [unfolded Inr] show ?thesis
  proof (rule approve_ok)
    fix r
    assume f: "find (\<lambda>r. pd_code r = code) (ps_pending st) = Some r"
      and pe: "ps_pending st' = filter (\<lambda>x. pd_code x \<noteq> code) (ps_pending st)"
      and al: "ps_allow st' = insert_allow (allow_entry (pd_channel r) (pd_account r) (pd_sender r) now ''cli'')
        (\<lambda>x. x\<lparr>al_revoked_at := None, al_approved_at := now, al_via := ''cli''\<rparr>) (ps_allow st)"
      and me: "ps_metrics st' = dec_requests_pending (pd_channel r) (inc_approvals (pd_channel r) ''ok'' (ps_metrics st))"
    have r: "r \<in> set (ps_pending st)" "pd_code r = code"
      using f inv find_distinct [of pd_code "ps_pending st" code r] by (auto simp: pairing_inv_def)
    have "int (channel_count c (ps_pending st')) = int (channel_count c (ps_pending st)) - (if pd_channel r = c then 1 else 0)" for c
      using channel_count_remove [of "ps_pending st" r c] r inv pe by (simp add: pairing_inv_def)
    moreover have "0 < channel_count (pd_channel r) (ps_pending st)" using r(1) by (auto simp: channel_count_def filter_empty_conv)
    ultimately have g: "gauge_in_sync st'" using inv me by (auto simp: pairing_inv_def gauge_in_sync_def)
    have "distinct (map allow_key (ps_allow st'))"
      unfolding al using inv by (intro distinct_insert_allow) (simp_all add: pairing_inv_def allow_key_def)
    then show ?thesis using inv pe g order_trans [OF account_requests_filter]
      by (auto simp: pairing_inv_def distinct_map_filter)
  qed
qed

lemma revoke_inv: "pairing_inv st \<Longrightarrow> revoke db now c s st = (res, st') \<Longrightarrow> pairing_inv st'"
proof -
  have k: "map allow_key (map (\<lambda>r. if P r then r\<lparr>al_revoked_at := t\<rparr> else r) rows) = map allow_key rows" for P t rows
    by (auto simp: allow_key_def)
  assume "pairing_inv st" "revoke db now c s st = (res, st')"
  then show "pairing_inv st'"
    by (auto simp: revoke_def Let_def pairing_inv_def gauge_in_sync_def k simp del: map_map split: if_splits)
qed

lemma seed_inv: "pairing_inv st \<Longrightarrow> seed ok now c a ss n st = (res, st') \<Longrightarrow> pairing_inv st'"
proof (induction ss arbitrary: n st)
  case (Cons s ss)
  let ?st = "st\<lparr>ps_allow := insert_allow (allow_entry c a s now ''seed'') (\<lambda>x. x\<lparr>al_revoked_at := None\<rparr>) (ps_allow st)\<rparr>"
  have "distinct (map allow_key (ps_allow ?st))"
    using Cons.prems(1) by (simp add: pairing_inv_def) (intro distinct_insert_allow; simp add: allow_key_def)
  then have "pairing_inv ?st" using Cons.prems(1) by (auto simp: pairing_inv_def gauge_in_sync_def)
  with Cons show ?case by (auto split: if_splits)
qed simp

inductive pairing_step :: "pairing_state \<Rightarrow> pairing_state \<Rightarrow> bool" where
  ps_upsert: "upsert_pending db rng now c a s meta st = (res, st') \<Longrightarrow> rng_ok rng \<Longrightarrow> pairing_step st st'"
| ps_purge: "purge_expired db now st = (res1, st') \<Longrightarrow> pairing_step st st'"
| ps_approve: "approve db now code st = (res2, st') \<Longrightarrow> pairing_step st st'"
| ps_revoke: "revoke db now c s st = (res3, st') \<Longrightarrow> pairing_step st st'"
| ps_seed: "seed ok now c a ss 0 st = (res4, st') \<Longrightarrow> pairing_step st st'"
| ps_refresh: "refresh_pending_gauge db st = (res5, st') \<Longrightarrow> pairing_step st st'"

lemma refresh_inv: "pairing_inv st \<Longrightarrow> refresh_pending_gauge db st = (res, st') \<Longrightarrow> pairing_inv st'"
proof -
  assume inv: "pairing_inv st" and r: "refresh_pending_gauge db st = (res, st')"
  have "ps_pending st' = ps_pending st \<and> ps_allow st' = ps_allow st"
    using r by (auto simp: refresh_pending_gauge_def Let_def split: if_splits)
  moreover have "gauge_in_sync st'"
  proof (cases res)
    case (Inl e)
    then show ?thesis using r inv by (auto simp: refresh_pending_gauge_def Let_def pairing_inv_def split: if_splits)
  next
    case (Inr u)
    then have "refresh_pending_gauge db st = (Inr (), st')" using r by simp
    then show ?thesis using refresh_resyncs_the_gauge_aux by blast
  qed
  ultimately show "pairing_inv st'" using inv by (simp add: pairing_inv_def)
qed

lemma pairing_step_inv: "pairing_step st st' \<Longrightarrow> pairing_inv st \<Longrightarrow> pairing_inv st'"
  by (induction rule: pairing_step.induct)
    (blast intro: conjunct1 [OF upsert_pending_inv] purge_inv approve_inv revoke_inv seed_inv refresh_inv)+

lemma pairing_store_invariant_parts:
  assumes "pairing_step\<^sup>*\<^sup>* open_pairing st"
  shows "distinct (map pending_key (ps_pending st))" and "distinct (map pd_code (ps_pending st))"
    and "account_requests channel account (ps_pending st) \<le> 3"
    and "r \<in> set (ps_pending st) \<Longrightarrow> length (pd_code r) = 8 \<and> set (pd_code r) \<subseteq> set alphabet"
    and "pending_gauge channel (ps_metrics st) = int (channel_count channel (ps_pending st))"
proof -
  have "pairing_inv st"
    using assms
  proof induction
    case base
    show ?case
      by (simp add: open_pairing_def pairing_inv_def account_requests_def gauge_in_sync_def channel_count_def no_metrics_def pending_gauge_def)
  qed (blast intro: pairing_step_inv)
  then show "distinct (map pending_key (ps_pending st))" "distinct (map pd_code (ps_pending st))"
    "account_requests channel account (ps_pending st) \<le> 3"
    "r \<in> set (ps_pending st) \<Longrightarrow> length (pd_code r) = 8 \<and> set (pd_code r) \<subseteq> set alphabet"
    "pending_gauge channel (ps_metrics st) = int (channel_count channel (ps_pending st))"
    by (simp_all add: pairing_inv_def max_pending_per_account_def well_formed_code_def code_length_def gauge_in_sync_def)
qed


definition one_request :: pairing_state where
  "one_request = snd (upsert_pending (\<lambda>_. True) (\<lambda>k p. p) 100 ''wa'' ''main'' ''+57'' JNull open_pairing)"


subsection \<open>Approval\<close>

lemma allowed_insert:
  assumes "\<And>x. allow_key (upd x) = allow_key x" "\<And>x. al_revoked_at (upd x) = None" "al_revoked_at r = None"
  shows "(\<exists>x \<in> set (insert_allow r upd rows). allow_key x = k \<and> al_revoked_at x = None) \<longleftrightarrow>
     (\<exists>x \<in> set rows. allow_key x = k \<and> al_revoked_at x = None) \<or> k = allow_key r"
proof (cases "\<exists>x \<in> set rows. allow_for (al_channel r) (al_account r) (al_sender r) x")
  case True
  then have there: "\<exists>x \<in> set rows. allow_key x = allow_key r" by (simp add: allow_for_key allow_key_def)
  let ?f = "\<lambda>x. if allow_key x = allow_key r then upd x else x"
  have "insert_allow r upd rows = map ?f rows"
    using True by (simp add: insert_allow_def allow_for_key allow_key_def)
  moreover have "allow_key (?f x) = allow_key x" "al_revoked_at (?f x) = None \<longleftrightarrow> allow_key x = allow_key r \<or> al_revoked_at x = None" for x
    using assms by simp_all
  ultimately have "(\<exists>x \<in> set (insert_allow r upd rows). allow_key x = k \<and> al_revoked_at x = None) \<longleftrightarrow>
     (\<exists>x \<in> set rows. allow_key x = k \<and> (allow_key x = allow_key r \<or> al_revoked_at x = None))"
    by (simp only: set_map bex_simps)
  with there show ?thesis by metis
next
  case False
  then show ?thesis using assms(3) by (auto simp: insert_allow_def)
qed

lemma allowed_in_key: "allowed_in c a s st \<longleftrightarrow> (\<exists>x \<in> set (ps_allow st). allow_key x = (c, a, s) \<and> al_revoked_at x = None)"
  by (simp add: allowed_in_def allow_for_key)

text \<open>An approval lets in exactly the sender whose unexpired request carries the code and spends that code; a failed
  approval changes neither table.\<close>

theorem approve_admits_the_requester:
  assumes inv: "pairing_inv st" and a: "approve db now code st = (res, st')"
  shows "case res of
      Inr q \<Rightarrow> \<exists>r \<in> set (ps_pending st). pd_code r = code \<and> now - pd_created_at r \<le> 3600 \<and>
        q = \<lparr>aq_channel = pd_channel r, aq_account = pd_account r, aq_sender = pd_sender r, aq_approved_at = now\<rparr> \<and>
        (\<forall>c a s. allowed_in c a s st' \<longleftrightarrow> allowed_in c a s st \<or> (c, a, s) = pending_key r) \<and>
        set (ps_pending st') = set (ps_pending st) - {r}
    | Inl e \<Rightarrow> ps_pending st' = ps_pending st \<and> ps_allow st' = ps_allow st"
proof (cases res)
  case (Inl e)
  then show ?thesis using approve_err a by simp
next
  case (Inr q)
  from a [unfolded Inr] show ?thesis
  proof (rule approve_ok)
    fix r :: pair_request
    let ?e = "allow_entry (pd_channel r) (pd_account r) (pd_sender r) now ''cli''"
    assume f: "find (\<lambda>r. pd_code r = code) (ps_pending st) = Some r" and age: "now - pd_created_at r \<le> pending_ttl"
      and q: "q = \<lparr>aq_channel = pd_channel r, aq_account = pd_account r, aq_sender = pd_sender r, aq_approved_at = now\<rparr>"
      and pe: "ps_pending st' = filter (\<lambda>x. pd_code x \<noteq> code) (ps_pending st)"
      and al: "ps_allow st' = insert_allow ?e (\<lambda>x. x\<lparr>al_revoked_at := None, al_approved_at := now, al_via := ''cli''\<rparr>) (ps_allow st)"
    have d: "distinct (map pd_code (ps_pending st))" using inv by (simp add: pairing_inv_def)
    have r: "r \<in> set (ps_pending st)" "pd_code r = code" using f find_distinct [OF d, of code r] by auto
    have uniq: "x = r" if "x \<in> set (ps_pending st)" "pd_code x = code" for x
      using inj_onD [of pd_code "set (ps_pending st)" x r] that r d by (simp add: distinct_map)
    have "set (ps_pending st') = set (ps_pending st) - {r}"
    proof (rule set_eqI)
      fix x show "x \<in> set (ps_pending st') \<longleftrightarrow> x \<in> set (ps_pending st) - {r}"
        using uniq [of x] r(2) unfolding pe by auto
    qed
    moreover have "allowed_in c a s st' \<longleftrightarrow> allowed_in c a s st \<or> (c, a, s) = pending_key r" for c a s
      unfolding allowed_in_key al
      by (subst allowed_insert) (simp_all add: allow_key_def allow_entry_def pending_key_def)
    ultimately show ?thesis using Inr r age q by (auto simp: pending_ttl_def)
  qed
qed

theorem approve_admits_the_requester_witness:
  "allowed_in ''wa'' ''main'' ''+57'' (snd (approve (\<lambda>_. True) 200 ''ABCDEFGH'' one_request)) \<and>
   \<not> allowed_in ''wa'' ''main'' ''+58'' (snd (approve (\<lambda>_. True) 200 ''ABCDEFGH'' one_request))"
proof -
  let ?a = "approve (\<lambda>_. True) 200 ''ABCDEFGH'' one_request"
  have pend: "map pending_key (ps_pending one_request) = [(''wa'', ''main'', ''+57'')]" "ps_allow one_request = []"
    by code_simp+
  have "upsert_pending (\<lambda>_. True) (\<lambda>k p. p mod 32) 100 ''wa'' ''main'' ''+57'' JNull open_pairing
      = (Inr \<lparr>uo_code = ''ABCDEFGH'', uo_created = True\<rparr>, one_request)" by code_simp
  then have "pairing_step open_pairing one_request"
    by (rule ps_upsert) (simp add: rng_ok_def length_alphabet)
  moreover have "pairing_inv open_pairing"
    by (simp add: open_pairing_def pairing_inv_def account_requests_def gauge_in_sync_def channel_count_def no_metrics_def pending_gauge_def)
  ultimately have inv: "pairing_inv one_request" by (rule pairing_step_inv)
  have "fst ?a = Inr \<lparr>aq_channel = ''wa'', aq_account = ''main'', aq_sender = ''+57'', aq_approved_at = 200\<rparr>" by code_simp
  then have a: "?a = (Inr \<lparr>aq_channel = ''wa'', aq_account = ''main'', aq_sender = ''+57'', aq_approved_at = 200\<rparr>, snd ?a)"
    by (rule pair_of_fst)
  obtain r where r: "r \<in> set (ps_pending one_request)"
    "\<forall>c a s. allowed_in c a s (snd ?a) \<longleftrightarrow> allowed_in c a s one_request \<or> (c, a, s) = pending_key r"
    using approve_admits_the_requester [OF inv a] by auto
  have "pending_key r = (''wa'', ''main'', ''+57'')" proof -
    have "pending_key r \<in> set (map pending_key (ps_pending one_request))" using r(1) by (simp only: set_map) (rule imageI)
    then show ?thesis unfolding pend(1) by simp
  qed
  with r(2) pend(2) show ?thesis by (simp add: allowed_in_def)
qed

subsection \<open>How long a revocation can go unnoticed\<close>

text \<open>A key of the cache names one sender as long as channels and accounts have no bar in them.\<close>

definition no_bar :: "string \<Rightarrow> bool" where
  "no_bar s \<longleftrightarrow> CHR ''|'' \<notin> set s"

lemma append_bar_inject:
  "no_bar a \<Longrightarrow> no_bar b \<Longrightarrow> a @ CHR ''|'' # s = b @ CHR ''|'' # t \<longleftrightarrow> a = b \<and> s = t"
proof (induction a arbitrary: b)
  case Nil
  then show ?case by (cases b) (auto simp: no_bar_def)
next
  case (Cons x a)
  then show ?case by (cases b) (auto simp: no_bar_def)
qed

lemma cache_key_inject:
  "no_bar c \<Longrightarrow> no_bar a \<Longrightarrow> no_bar c' \<Longrightarrow> no_bar a' \<Longrightarrow>
     cache_key c a s = cache_key c' a' s' \<longleftrightarrow> c = c' \<and> a = a' \<and> s = s'"
  by (auto simp: cache_key_def append_bar_inject)

lemma cache_key_collides: "cache_key ''wa'' ''a|b'' ''c'' = cache_key ''wa'' ''a'' ''b|c''"
  by (simp add: cache_key_def)

text \<open>\<open>quiet c a s\<close> is one step of gate and store under the clock while the sender stays off the allowlist: time passes, any message
  is judged, the store does anything that does not let the sender in, the cache is flushed.\<close>

inductive quiet ::
  "string \<Rightarrow> string \<Rightarrow> string \<Rightarrow> instant \<times> pairing_gate \<Rightarrow> instant \<times> pairing_gate \<Rightarrow> bool" for c a s where
  quiet_time: "t \<le> t' \<Longrightarrow> quiet c a s (t, g) (t', g)"
| quiet_query: "t \<le> t1 \<Longrightarrow> t1 \<le> t2 \<Longrightarrow> no_bar c' \<Longrightarrow> no_bar a' \<Longrightarrow> \<not> allowed_in c a s (pg_store g) \<Longrightarrow>
    should_admit db rng t1 t2 now c' a' s' auto adapter g = (res, g') \<Longrightarrow> quiet c a s (t, g) (t2, g')"
| quiet_store: "pairing_step (pg_store g) st' \<Longrightarrow> \<not> allowed_in c a s st' \<Longrightarrow> quiet c a s (t, g) (t, g\<lparr>pg_store := st'\<rparr>)"
| quiet_flush: "quiet c a s (t, g) (t, flush_cache g)"

lemma upsert_allow: "upsert_pending db rng now c a s meta st = (res, st') \<Longrightarrow> ps_allow st' = ps_allow st"
  by (erule upsert_pending_cases) (auto dest: purge_tables)

lemma gate_query_cases:
  "gate_query db rng now c a s st =
     (if \<not> db SelectAllowed then (Inl StorageError, st)
      else if allowed_in c a s st then (Inr Admit, st)
      else (case upsert_pending db rng now c a s JNull st of
             (Inr out, st') \<Rightarrow> (Inr (Challenge (uo_code out)), st')
           | (Inl (MaxPending c a), st') \<Rightarrow> (Inr Drop, st')
           | (Inl e, st') \<Rightarrow> (Inl e, st')))"
  by (cases "allowed_in c a s st") (simp_all add: gate_query_def is_allowed_def)

lemma gate_query_spec:
  assumes q: "gate_query db rng now c a s st = (res, st')"
  shows "ps_allow st' = ps_allow st" and "res = Inr Admit \<Longrightarrow> allowed_in c a s st"
proof -
  obtain x st1 where u: "upsert_pending db rng now c a s JNull st = (x, st1)" by fastforce
  have al: "ps_allow st1 = ps_allow st" using upsert_allow [OF u] .
  consider "st' = st" "res = Inr Admit \<longrightarrow> allowed_in c a s st" | "st' = st1" "res \<noteq> Inr Admit"
  proof (cases "db SelectAllowed \<and> \<not> allowed_in c a s st")
    case True
    then show thesis using q u that(2) by (auto simp: gate_query_cases split: sum.splits pairing_error.splits)
  next
    case False
    then show thesis using q that(1) by (auto simp: gate_query_cases split: if_splits)
  qed
  then show "ps_allow st' = ps_allow st" and "res = Inr Admit \<Longrightarrow> allowed_in c a s st"
    using al by (cases; simp)+
qed

text \<open>Until \<open>limit\<close> at the latest, the cache admits the sender.\<close>

definition stale_until :: "string \<Rightarrow> instant \<Rightarrow> pairing_gate \<Rightarrow> bool" where
  "stale_until key limit g \<longleftrightarrow>
     (\<forall>e. map_of (pg_cache g) key = Some e \<longrightarrow> ce_decision e = Admit \<longrightarrow> ce_expires_at e \<le> limit)"

lemma should_admit_cases:
  assumes "should_admit db rng t1 t2 now c a s auto adapter g = (res, g')"
  obtains (off) "\<not> auto" "res = Inr Admit" "g' = g"
  | (cached) e where "auto" "map_of (pg_cache g) (cache_key c a (normalized adapter s)) = Some e" "t1 < ce_expires_at e"
      "res = Inr (ce_decision e)" "g' = g"
  | (failed) x st' where "auto" "gate_query db rng now c a (normalized adapter s) (pg_store g) = (Inl x, st')" "res = Inl x"
      "g' = g\<lparr>pg_store := st'\<rparr>"
  | (asked) d st' where "auto" "gate_query db rng now c a (normalized adapter s) (pg_store g) = (Inr d, st')" "res = Inr d"
      "g' = g\<lparr>pg_store := st', pg_cache := AList.update (cache_key c a (normalized adapter s))
         \<lparr>ce_decision = d, ce_expires_at = t2 + pg_ttl g\<rparr> (pg_cache g)\<rparr>"
proof -
  let ?key = "cache_key c a (normalized adapter s)"
  let ?hit = "case map_of (pg_cache g) ?key of Some e \<Rightarrow> if t1 < ce_expires_at e then Some (ce_decision e) else None | None \<Rightarrow> None"
  show thesis
  proof (cases "auto")
    case False
    then show thesis using assms by (intro off) (simp_all add: should_admit_def)
  next
    case on: True
    show thesis
    proof (cases ?hit)
      case (Some d)
      then obtain e where e: "map_of (pg_cache g) ?key = Some e" "t1 < ce_expires_at e" "d = ce_decision e"
        by (auto split: option.splits if_splits)
      then show thesis using assms on by (intro cached [of e]) (simp_all add: should_admit_def)
    next
      case None
      obtain x st' where q: "gate_query db rng now c a (normalized adapter s) (pg_store g) = (x, st')" by fastforce
      show thesis
      proof (cases x)
        case (Inl e)
        then show thesis using assms on q None by (intro failed [of e st']) (simp_all add: should_admit_def Let_def)
      next
        case (Inr d)
        then show thesis using assms on q None by (intro asked [of d st']) (simp_all add: should_admit_def Let_def)
      qed
    qed
  qed
qed

lemma quiet_keeps:
  assumes "quiet c a s (t, g) (t', g')" and "no_bar c" "no_bar a"
    and "\<not> allowed_in c a s (pg_store g)" and "stale_until (cache_key c a s) limit g"
  shows "t \<le> t' \<and> pg_ttl g' = pg_ttl g \<and> \<not> allowed_in c a s (pg_store g') \<and> stale_until (cache_key c a s) limit g'"
  using assms(1)
proof cases
  case (quiet_query t1 c' a' db rng now s' auto adapter res)
  from quiet_query(6) show ?thesis
  proof (cases rule: should_admit_cases)
    case (asked d st')
    note q = gate_query_spec [OF asked(2)]
    have "d \<noteq> Admit" if "cache_key c' a' (normalized adapter s') = cache_key c a s"
      using q(2) asked that assms(2-4) quiet_query by (auto simp: cache_key_inject)
    then show ?thesis using asked q(1) quiet_query assms(4,5) by (auto simp: stale_until_def allowed_in_def table_simps)
  next
    case (failed x st')
    then show ?thesis using gate_query_spec(1) [OF failed(2)] quiet_query assms(4,5)
      by (auto simp: stale_until_def allowed_in_def)
  qed (use quiet_query assms in auto)
qed (use assms in \<open>auto simp: stale_until_def flush_cache_def\<close>)


definition revoked_gate :: pairing_gate where
  "revoked_gate = \<lparr>pg_store = open_pairing,
     pg_cache = [(cache_key ''wa'' ''main'' ''+57'', \<lparr>ce_decision = Admit, ce_expires_at = 110\<rparr>)], pg_ttl = 30\<rparr>"


end
