(* ===== verification/Poll_State.thy ===== *)
theory Poll_State
  imports Prelude "HOL-Library.List_Lexorder" "HOL-Library.Char_ord"
begin

section \<open>The pollers' state and leases (\<open>crates/poller/src/state.rs\<close>)\<close>

text \<open>
  Two SQLite tables: what is known of a job and who may run it until when.  \<open>db\<close> says which statements succeed.
  The leases are the only thing that keeps two processes from running one job at once, so the second half of the theory takes them as a
  transition system of processes under one clock.
\<close>

type_synonym bytes = "8 word list"

record job_row =
  jr_cursor :: "bytes option"
  jr_last_run_at :: "int option"
  jr_next_run_at :: "int option"
  jr_last_status :: "string option"
  jr_last_error :: "string option"
  jr_last_duration_ms :: "int option"
  jr_consecutive_errors :: int
  jr_items_seen_total :: int
  jr_items_dispatched_total :: int
  jr_paused :: int
  jr_last_failure_alert_at :: "int option"
  jr_updated_at :: int

record lease_row =
  lr_leaseholder :: string
  lr_running_until :: int

record poll_db =
  pb_jobs :: "(string, job_row) table"
  pb_leases :: "(string, lease_row) table"

definition empty_poll_db :: poll_db where
  "empty_poll_db = \<lparr>pb_jobs = [], pb_leases = []\<rparr>"

record job_snapshot =
  js_job_id :: string
  js_cursor :: "bytes option"
  js_last_run_at_ms :: "int option"
  js_next_run_at_ms :: "int option"
  js_last_status :: "string option"
  js_last_error :: "string option"
  js_last_duration_ms :: "int option"
  js_consecutive_errors :: int
  js_items_seen_total :: int
  js_items_dispatched_total :: int
  js_paused :: bool
  js_last_failure_alert_at_ms :: "int option"

definition default_job_snapshot :: job_snapshot where
  "default_job_snapshot =
     \<lparr>js_job_id = '''', js_cursor = None, js_last_run_at_ms = None, js_next_run_at_ms = None, js_last_status = None,
      js_last_error = None, js_last_duration_ms = None, js_consecutive_errors = 0, js_items_seen_total = 0,
      js_items_dispatched_total = 0, js_paused = False, js_last_failure_alert_at_ms = None\<rparr>"

definition snapshot_of_row :: "string \<Rightarrow> job_row \<Rightarrow> job_snapshot" where
  "snapshot_of_row j r =
     \<lparr>js_job_id = j, js_cursor = jr_cursor r, js_last_run_at_ms = jr_last_run_at r, js_next_run_at_ms = jr_next_run_at r,
      js_last_status = jr_last_status r, js_last_error = jr_last_error r, js_last_duration_ms = jr_last_duration_ms r,
      js_consecutive_errors = jr_consecutive_errors r, js_items_seen_total = jr_items_seen_total r,
      js_items_dispatched_total = jr_items_dispatched_total r, js_paused = (jr_paused r \<noteq> 0),
      js_last_failure_alert_at_ms = jr_last_failure_alert_at r\<rparr>"

text \<open>The row an \<open>INSERT\<close> makes of the columns it does not name.\<close>

definition blank_job :: "int \<Rightarrow> job_row" where
  "blank_job now =
     \<lparr>jr_cursor = None, jr_last_run_at = None, jr_next_run_at = None, jr_last_status = None, jr_last_error = None,
      jr_last_duration_ms = None, jr_consecutive_errors = 0, jr_items_seen_total = 0, jr_items_dispatched_total = 0,
      jr_paused = 0, jr_last_failure_alert_at = None, jr_updated_at = now\<rparr>"

datatype poll_stmt = LoadJob | ListJobs | SaveOk | SaveErr | SetPaused | ResetCursor | RecordAlert | AcquireLease | ReleaseLease

definition poll_load :: "(poll_stmt \<Rightarrow> bool) \<Rightarrow> string \<Rightarrow> poll_db \<Rightarrow> unit + job_snapshot option" where
  "poll_load db j s = (if \<not> db LoadJob then Inl () else Inr (map_option (snapshot_of_row j) (map_of (pb_jobs s) j)))"

text \<open>All rows by job id.\<close>

definition poll_list :: "(poll_stmt \<Rightarrow> bool) \<Rightarrow> poll_db \<Rightarrow> unit + job_snapshot list" where
  "poll_list db s =
     (if \<not> db ListJobs then Inl () else Inr (map (\<lambda>(j, r). snapshot_of_row j r) (sort_key fst (pb_jobs s))))"

text \<open>\<open>INSERT ... ON CONFLICT(job_id) DO UPDATE\<close>.\<close>

definition upsert_job :: "string \<Rightarrow> job_row \<Rightarrow> (job_row \<Rightarrow> job_row) \<Rightarrow> poll_db \<Rightarrow> poll_db" where
  "upsert_job j fresh upd s =
     s\<lparr>pb_jobs := AList.update j (case map_of (pb_jobs s) j of None \<Rightarrow> fresh | Some r \<Rightarrow> upd r) (pb_jobs s)\<rparr>"

definition save_tick_ok ::
  "(poll_stmt \<Rightarrow> bool) \<Rightarrow> string \<Rightarrow> bytes option \<Rightarrow> u32 \<Rightarrow> u32 \<Rightarrow> int \<Rightarrow> int \<Rightarrow> int \<Rightarrow> poll_db \<Rightarrow> (unit + unit) \<times> poll_db" where
  "save_tick_ok db j cursor seen dispatched duration next_run now s =
     (if \<not> db SaveOk then (Inl (), s)
      else (Inr (), upsert_job j
        ((blank_job now)\<lparr>jr_cursor := cursor, jr_last_run_at := Some now, jr_next_run_at := Some next_run,
           jr_last_status := Some ''ok'', jr_last_duration_ms := Some duration,
           jr_items_seen_total := uint seen, jr_items_dispatched_total := uint dispatched\<rparr>)
        (\<lambda>r. r\<lparr>jr_cursor := (case cursor of None \<Rightarrow> jr_cursor r | Some c \<Rightarrow> Some c), jr_last_run_at := Some now,
           jr_next_run_at := Some next_run, jr_last_status := Some ''ok'', jr_last_error := None,
           jr_last_duration_ms := Some duration, jr_consecutive_errors := 0,
           jr_items_seen_total := jr_items_seen_total r + uint seen,
           jr_items_dispatched_total := jr_items_dispatched_total r + uint dispatched, jr_updated_at := now\<rparr>) s))"

definition save_tick_err ::
  "(poll_stmt \<Rightarrow> bool) \<Rightarrow> string \<Rightarrow> string \<Rightarrow> string \<Rightarrow> int \<Rightarrow> int \<Rightarrow> int \<Rightarrow> bool \<Rightarrow> poll_db \<Rightarrow> (unit + unit) \<times> poll_db" where
  "save_tick_err db j status err next_run duration now bump_consecutive s =
     (if \<not> db SaveErr then (Inl (), s)
      else
        let bump = (if bump_consecutive then 1 else 0)
        in (Inr (), upsert_job j
          ((blank_job now)\<lparr>jr_last_run_at := Some now, jr_next_run_at := Some next_run, jr_last_status := Some status,
             jr_last_error := Some err, jr_last_duration_ms := Some duration, jr_consecutive_errors := bump\<rparr>)
          (\<lambda>r. r\<lparr>jr_last_run_at := Some now, jr_next_run_at := Some next_run, jr_last_status := Some status,
             jr_last_error := Some err, jr_last_duration_ms := Some duration,
             jr_consecutive_errors := jr_consecutive_errors r + bump, jr_updated_at := now\<rparr>) s))"

definition poll_set_paused :: "(poll_stmt \<Rightarrow> bool) \<Rightarrow> string \<Rightarrow> bool \<Rightarrow> int \<Rightarrow> poll_db \<Rightarrow> (unit + unit) \<times> poll_db" where
  "poll_set_paused db j paused now s =
     (if \<not> db SetPaused then (Inl (), s)
      else
        let p = (if paused then 1 else 0)
        in (Inr (), upsert_job j ((blank_job now)\<lparr>jr_paused := p\<rparr>) (\<lambda>r. r\<lparr>jr_paused := p, jr_updated_at := now\<rparr>) s))"

definition reset_cursor :: "(poll_stmt \<Rightarrow> bool) \<Rightarrow> string \<Rightarrow> int \<Rightarrow> poll_db \<Rightarrow> (unit + unit) \<times> poll_db" where
  "reset_cursor db j now s =
     (if \<not> db ResetCursor then (Inl (), s)
      else (Inr (), upsert_job j (blank_job now)
        (\<lambda>r. r\<lparr>jr_cursor := None, jr_consecutive_errors := 0, jr_last_error := None, jr_paused := 0, jr_updated_at := now\<rparr>) s))"

definition record_failure_alert :: "(poll_stmt \<Rightarrow> bool) \<Rightarrow> string \<Rightarrow> int \<Rightarrow> poll_db \<Rightarrow> (unit + unit) \<times> poll_db" where
  "record_failure_alert db j now s =
     (if \<not> db RecordAlert then (Inl (), s)
      else (Inr (),
        case map_of (pb_jobs s) j of
          None \<Rightarrow> s
        | Some r \<Rightarrow> s\<lparr>pb_jobs := AList.update j (r\<lparr>jr_last_failure_alert_at := Some now, jr_updated_at := now\<rparr>) (pb_jobs s)\<rparr>))"

text \<open>\<open>acquire_lease\<close>: insert, or take the lease over when its time is up.\<close>

definition acquire_lease ::
  "(poll_stmt \<Rightarrow> bool) \<Rightarrow> string \<Rightarrow> string \<Rightarrow> int \<Rightarrow> int \<Rightarrow> poll_db \<Rightarrow> (unit + bool) \<times> poll_db" where
  "acquire_lease db j holder until now s =
     (if \<not> db AcquireLease then (Inl (), s)
      else if (case map_of (pb_leases s) j of None \<Rightarrow> True | Some l \<Rightarrow> lr_running_until l \<le> now)
      then (Inr True, s\<lparr>pb_leases := AList.update j \<lparr>lr_leaseholder = holder, lr_running_until = until\<rparr> (pb_leases s)\<rparr>)
      else (Inr False, s))"

definition release_lease :: "(poll_stmt \<Rightarrow> bool) \<Rightarrow> string \<Rightarrow> string \<Rightarrow> poll_db \<Rightarrow> (unit + unit) \<times> poll_db" where
  "release_lease db j holder s =
     (if \<not> db ReleaseLease then (Inl (), s)
      else (Inr (), s\<lparr>pb_leases := filter (\<lambda>(k, l). \<not> (k = j \<and> lr_leaseholder l = holder)) (pb_leases s)\<rparr>))"

definition lease_holder :: "string \<Rightarrow> poll_db \<Rightarrow> (string \<times> int) option" where
  "lease_holder j s = map_option (\<lambda>l. (lr_leaseholder l, lr_running_until l)) (map_of (pb_leases s) j)"

subsection \<open>Tables\<close>

definition poll_wf :: "poll_db \<Rightarrow> bool" where
  "poll_wf s \<longleftrightarrow> wf_table (pb_jobs s) \<and> wf_table (pb_leases s)"

named_theorems poll_simps \<open>what the statements do to the two tables\<close>

lemma upsert_job_view [poll_simps]:
  "map_of (pb_jobs (upsert_job j fresh upd s)) =
     (map_of (pb_jobs s))(j \<mapsto> (case map_of (pb_jobs s) j of None \<Rightarrow> fresh | Some r \<Rightarrow> upd r))"
  "pb_leases (upsert_job j fresh upd s) = pb_leases s"
  by (simp_all add: upsert_job_def table_simps)

lemma upsert_job_wf: "poll_wf s \<Longrightarrow> poll_wf (upsert_job j fresh upd s)"
  by (simp add: poll_wf_def upsert_job_def)

lemma acquire_wf: "poll_wf s \<Longrightarrow> poll_wf (snd (acquire_lease db j h until now s))"
  by (simp add: acquire_lease_def poll_wf_def split: option.split)

lemma release_wf: "poll_wf s \<Longrightarrow> poll_wf (snd (release_lease db j h s))"
  by (simp add: release_lease_def poll_wf_def)

lemma release_view:
  assumes "poll_wf s" "release_lease db j h s = (Inr (), s')"
  shows "map_of (pb_leases s') k =
     (if k = j \<and> (\<exists>l. map_of (pb_leases s) j = Some l \<and> lr_leaseholder l = h) then None else map_of (pb_leases s) k)"
    and "pb_jobs s' = pb_jobs s"
proof -
  have s': "pb_leases s' = filter (\<lambda>(k, l). \<not> (k = j \<and> lr_leaseholder l = h)) (pb_leases s)" "pb_jobs s' = pb_jobs s"
    using assms(2) by (auto simp: release_lease_def split: if_splits)
  have "map_of (filter (\<lambda>(k, l). \<not> (k = j \<and> lr_leaseholder l = h)) m) k =
     (if k = j \<and> (\<exists>l. map_of m j = Some l \<and> lr_leaseholder l = h) then None else map_of m k)"
    if "distinct (map fst m)" for m :: "(string, lease_row) table"
    using that
  proof (induction m)
    case (Cons p m)
    obtain a l where p: "p = (a, l)" by (cases p)
    have "a \<notin> fst ` set m" using Cons.prems p by simp
    then have "map_of m a = None" by (simp add: map_of_eq_None_iff)
    with Cons p show ?case by auto
  qed simp
  with s' assms(1) show "map_of (pb_leases s') k =
     (if k = j \<and> (\<exists>l. map_of (pb_leases s) j = Some l \<and> lr_leaseholder l = h) then None else map_of (pb_leases s) k)"
    by (simp add: poll_wf_def wf_table_def)
  show "pb_jobs s' = pb_jobs s" by (rule s'(2))
qed

subsection \<open>Leases exclude\<close>

text \<open>
  Processes share the table and one clock.  \<open>claims\<close> are the leases that were handed out and not yet given back,
  with the time each was handed out for.  A process asks for a job only when it runs none of that name itself.
\<close>

record lease_world =
  lw_now :: int
  lw_db :: poll_db
  lw_claims :: "(string \<times> string \<times> int) list"

inductive lease_step :: "lease_world \<Rightarrow> lease_world \<Rightarrow> bool" where
  clock: "lw_now w \<le> t \<Longrightarrow> lease_step w (w\<lparr>lw_now := t\<rparr>)"
| acquired: "\<forall>(p, k, u) \<in> set (lw_claims w). \<not> (p = h \<and> k = j) \<Longrightarrow>
    acquire_lease db j h until (lw_now w) (lw_db w) = (Inr True, s') \<Longrightarrow>
    lease_step w (w\<lparr>lw_db := s', lw_claims := (h, j, until) # lw_claims w\<rparr>)"
| busy: "acquire_lease db j h until (lw_now w) (lw_db w) = (r, s') \<Longrightarrow> r \<noteq> Inr True \<Longrightarrow>
    lease_step w (w\<lparr>lw_db := s'\<rparr>)"
| released: "release_lease db j h (lw_db w) = (r, s') \<Longrightarrow>
    lease_step w (w\<lparr>lw_db := s', lw_claims := filter (\<lambda>(p, k, u). \<not> (p = h \<and> k = j)) (lw_claims w)\<rparr>)"

definition lease_inv :: "lease_world \<Rightarrow> bool" where
  "lease_inv w \<longleftrightarrow> poll_wf (lw_db w) \<and>
     (\<forall>(p, j, u) \<in> set (lw_claims w). lw_now w < u \<longrightarrow>
        map_of (pb_leases (lw_db w)) j = Some \<lparr>lr_leaseholder = p, lr_running_until = u\<rparr>)"

lemma acquire_true:
  "acquire_lease db j h until now s = (Inr True, s') \<Longrightarrow>
     (\<forall>l. map_of (pb_leases s) j = Some l \<longrightarrow> lr_running_until l \<le> now) \<and>
     map_of (pb_leases s') = (map_of (pb_leases s))(j \<mapsto> \<lparr>lr_leaseholder = h, lr_running_until = until\<rparr>) \<and> pb_jobs s' = pb_jobs s"
  by (auto simp: acquire_lease_def table_simps split: if_splits option.splits)

lemma acquire_other: "acquire_lease db j h until now s = (r, s') \<Longrightarrow> r \<noteq> Inr True \<Longrightarrow> s' = s"
  by (auto simp: acquire_lease_def split: if_splits)

lemma lease_step_inv: "lease_step w w' \<Longrightarrow> lease_inv w \<Longrightarrow> lease_inv w'"
proof (induction rule: lease_step.induct)
  case (clock w t)
  then show ?case by (force simp: lease_inv_def)
next
  case (acquired w h j db until s')
  have wf: "poll_wf s'"
    using acquire_wf [of "lw_db w" db j h until "lw_now w"] acquired by (simp add: lease_inv_def)
  note t = acquire_true [OF acquired(2)]
  have "map_of (pb_leases s') k = Some \<lparr>lr_leaseholder = p, lr_running_until = u\<rparr>"
    if c: "(p, k, u) \<in> set (lw_claims w)" and u: "lw_now w < u" for p k u
  proof -
    have old: "map_of (pb_leases (lw_db w)) k = Some \<lparr>lr_leaseholder = p, lr_running_until = u\<rparr>"
      using acquired(3) c u by (force simp: lease_inv_def)
    moreover have "k \<noteq> j" using t old u by force
    ultimately show ?thesis using t by simp
  qed
  then show ?case using wf t by (auto simp: lease_inv_def)
next
  case (busy db j h until w r s')
  then show ?case using acquire_other [OF busy(1,2)] by (simp add: lease_inv_def)
next
  case (released db j h w r s')
  show ?case
  proof (cases "db ReleaseLease")
    case True
    then have rel: "release_lease db j h (lw_db w) = (Inr (), s')" using released(1) by (simp add: release_lease_def)
    have wf: "poll_wf (lw_db w)" using released(2) by (simp add: lease_inv_def)
    have wf': "poll_wf s'" using release_wf [OF wf, of db j h] rel by simp
    have "map_of (pb_leases s') k = Some \<lparr>lr_leaseholder = p, lr_running_until = u\<rparr>"
      if c: "(p, k, u) \<in> set (lw_claims w)" and u: "lw_now w < u" and n: "\<not> (p = h \<and> k = j)" for p k u
    proof -
      have "map_of (pb_leases (lw_db w)) k = Some \<lparr>lr_leaseholder = p, lr_running_until = u\<rparr>"
        using released(2) c u by (force simp: lease_inv_def)
      then show ?thesis using release_view(1) [OF wf rel, of k] n by auto
    qed
    with wf' show ?thesis by (auto simp: lease_inv_def)
  next
    case False
    then show ?thesis using released by (auto simp: release_lease_def lease_inv_def)
  qed
qed



text \<open>A lease that ran out while its task was still at work can be handed to a later task of the same process; the release of
  the first task then gives the second one's lease away.\<close>

lemma late_release_drops_new_lease:
  assumes "acquire_lease db j h until now s = (Inr True, s1)" and "poll_wf s1" and "release_lease db j h s1 = (Inr (), s2)"
  shows "lease_holder j s1 = Some (h, until) \<and> lease_holder j s2 = None"
  using acquire_true [OF assms(1)] release_view(1) [OF assms(2,3), of j] by (simp add: lease_holder_def)

end
