(* ===== verification/Poll_Job.thy ===== *)
theory Poll_Job
  imports Poll_State Circuit_Breaker Json
begin

section \<open>A poller's task (\<open>crates/poller/src/schedule.rs\<close>, \<open>error.rs\<close>, \<open>runner.rs\<close>)\<close>

text \<open>
  One turn of the loop that runs a job: wait for the schedule, look whether the job is paused, take the lease, ask the breaker, call
  the poller, write the outcome, give the lease back.  A \<open>DateTime\<close> is an integer of nanoseconds, \<open>now_ms\<close> readings are
  milliseconds.  The poller itself, the cron and RFC 3339 parsers, the credential lookup, the broker and the \<open>f32\<close> product of the
  lease time are arguments.  \<open>env\<close> is what other tasks and processes do to the tables while the poller works.
\<close>

type_synonym u64 = "64 word"

subsection \<open>Schedules\<close>

datatype schedule =
    EverySchedule (every_secs: u64) (every_jitter: "u64 option")
  | CronSchedule (cron_expr: string) (cron_tz: "string option") (cron_jitter: "u64 option")
  | AtSchedule (at_time: string)

datatype poller_error =
    ConfigError string string
  | CredentialsMissing string string
  | TransientError string
  | PermanentError string
  | OtherError string

datatype error_class = ClassConfig | ClassTransient | ClassPermanent

fun classify :: "poller_error \<Rightarrow> error_class" where
  "classify (ConfigError _ _) = ClassConfig"
| "classify (CredentialsMissing _ _) = ClassPermanent"
| "classify (TransientError _) = ClassTransient"
| "classify (PermanentError _) = ClassPermanent"
| "classify (OtherError _) = ClassTransient"

fun poller_error_str :: "poller_error \<Rightarrow> string" where
  "poller_error_str (ConfigError job reason) = ''config invalid for job '' @ [CHR 0x27] @ job @ [CHR 0x27] @ '': '' @ reason"
| "poller_error_str (CredentialsMissing agent channel) =
     ''credentials missing: agent '' @ [CHR 0x27] @ agent @ [CHR 0x27] @ '' has no '' @ [CHR 0x27] @ channel @ [CHR 0x27] @ '' bound''"
| "poller_error_str (TransientError e) = ''transient: '' @ e"
| "poller_error_str (PermanentError e) = ''permanent: '' @ e"
| "poller_error_str (OtherError e) = e"

text \<open>Whole seconds.\<close>

fun nominal_interval :: "schedule \<Rightarrow> u64" where
  "nominal_interval (EverySchedule secs _) = max secs 1"
| "nominal_interval (CronSchedule _ _ _) = 60"
| "nominal_interval (AtSchedule _) = 0"

fun jitter_hint :: "schedule \<Rightarrow> u64 option" where
  "jitter_hint (EverySchedule _ j) = j"
| "jitter_hint (CronSchedule _ _ j) = j"
| "jitter_hint (AtSchedule _) = Some 0"

definition ns_per_ms :: int where "ns_per_ms = 1000000"
definition ns_per_sec :: int where "ns_per_sec = 1000000000"

text \<open>The parsers return the reason of a refusal; a parsed cron expression is the function \<open>after(t).next()\<close>.\<close>

record time_parsers =
  tp_at :: "string \<Rightarrow> string + int"
  tp_cron :: "string \<Rightarrow> string + (int \<Rightarrow> int option)"

definition next_cron :: "time_parsers \<Rightarrow> string \<Rightarrow> int \<Rightarrow> poller_error + int option" where
  "next_cron tp expr after =
     (case tp_cron tp expr of
        Inl e \<Rightarrow> Inl (ConfigError ''<schedule>'' (''invalid cron expression '' @ [CHR 0x27] @ expr @ [CHR 0x27] @ '': '' @ e))
      | Inr next \<Rightarrow> Inr (next after))"

fun next_run_at :: "time_parsers \<Rightarrow> schedule \<Rightarrow> int \<Rightarrow> poller_error + int option" where
  "next_run_at tp (EverySchedule secs _) after = Inr (Some (after + sint (max secs 1) * ns_per_sec))"
| "next_run_at tp (CronSchedule expr _ _) after = next_cron tp expr after"
| "next_run_at tp (AtSchedule at) after =
     (case tp_at tp at of
        Inl e \<Rightarrow> Inl (ConfigError ''<schedule>'' (''invalid at='' @ [CHR 0x27] @ at @ [CHR 0x27] @ '': '' @ e))
      | Inr ts \<Rightarrow> if after < ts then Inr (Some ts) else Inr None)"

definition jitter_offset :: "u64 \<Rightarrow> u64 \<Rightarrow> u64" where
  "jitter_offset jitter_ms seed = (seed * 2862933555777941757 + 3037000493) mod jitter_ms"

definition apply_jitter :: "int \<Rightarrow> u64 \<Rightarrow> u64 \<Rightarrow> int" where
  "apply_jitter base jitter_ms seed =
     (if jitter_ms = 0 then base else base + sint (jitter_offset jitter_ms seed) * ns_per_ms)"

subsection \<open>The task's context and what it does outside\<close>

record delivery_target =
  dt_channel :: string
  dt_to :: string

record 'y poller_job =
  pj_id :: string
  pj_kind :: string
  pj_agent :: string
  pj_schedule :: 'y
  pj_config :: 'y
  pj_failure_to :: "delivery_target option"
  pj_paused_on_boot :: bool
  pj_extra :: "(string, 'y) table"

record 'y pollers_config =
  pc_enabled :: bool
  pc_default_jitter_ms :: u64
  pc_failure_alert_cooldown_secs :: u64
  pc_breaker_threshold :: u32
  pc_jobs :: "'y poller_job list"

record tick_metrics =
  tm_items_seen :: u32
  tm_items_dispatched :: u32

definition default_tick_metrics :: tick_metrics where
  "default_tick_metrics = \<lparr>tm_items_seen = 0, tm_items_dispatched = 0\<rparr>"

record tick_ack =
  ta_next_cursor :: "bytes option"
  ta_next_interval_hint :: "u64 option"
  ta_metrics :: "tick_metrics option"

record poll_context =
  cx_job_id :: string
  cx_agent_id :: string
  cx_kind :: string
  cx_config :: json
  cx_cursor :: "bytes option"
  cx_now :: int
  cx_interval_hint :: u64

datatype breaker_gauge = GaugeClosed | GaugeHalfOpen | GaugeOpen

text \<open>What a task does that others see: its counters and gauges, the calls of the poller, and the failure alerts it sends.\<close>

datatype poll_effect =
    IncTick string
  | SetBreakerState breaker_gauge
  | SetConsecutiveErrors int
  | AddItemsSeen u32
  | AddItemsDispatched u32
  | ObserveLatency u64
  | Ticked poll_context
  | AlertPublished string json

record 'y task_ctx =
  tc_job :: "'y poller_job"
  tc_kind :: string
  tc_schedule :: schedule
  tc_ctx_cfg :: json
  tc_leaseholder :: string
  tc_cfg :: "'y pollers_config"

text \<open>The functions a task calls: the poller's \<open>tick\<close>, the credential lookup, the broker, the lease's length in seconds
  (\<open>interval as f32 * factor.max(1.0)\<close>, cast to \<open>i64\<close>), the parsers, the database.\<close>

record task_deps =
  td_tick :: "poll_context \<Rightarrow> poller_error + tick_ack"
  td_resolve :: "string \<Rightarrow> string \<Rightarrow> string option"
  td_publish :: "string \<Rightarrow> json \<Rightarrow> string + unit"
  td_scale :: "u64 \<Rightarrow> int"
  td_parsers :: time_parsers
  td_db :: "poll_stmt \<Rightarrow> bool"

record task_world =
  tw_db :: poll_db
  tw_breaker :: breaker
  tw_effects :: "poll_effect list"

definition emit :: "poll_effect list \<Rightarrow> task_world \<Rightarrow> task_world" where
  "emit es w = w\<lparr>tw_effects := tw_effects w @ es\<rparr>"

definition default_breaker :: "u32 \<Rightarrow> breaker_config" where
  "default_breaker threshold =
     \<lparr>failure_threshold = max threshold 1, success_threshold = 1, initial_backoff = 30 * 10 ^ 9, max_backoff = 300 * 10 ^ 9\<rparr>"

text \<open>A statement whose result the code drops (\<open>let _ = ...\<close>, \<open>.ok()\<close>).\<close>

definition run_stmt :: "(poll_db \<Rightarrow> ('e + 'a) \<times> poll_db) \<Rightarrow> task_world \<Rightarrow> task_world" where
  "run_stmt f w = w\<lparr>tw_db := snd (f (tw_db w))\<rparr>"

subsection \<open>A tick that failed\<close>

definition outbound_topic :: "string \<Rightarrow> string \<Rightarrow> string" where
  "outbound_topic channel account = ''plugin.outbound.'' @ channel @ ''.'' @ account"

definition alert_channels :: "string list" where
  "alert_channels = [''whatsapp'', ''telegram'', ''google'']"

text \<open>The warning sign at the front of the alert's text, in UTF-8.\<close>

definition warning_sign :: string where
  "warning_sign = [CHR 0xE2, CHR 0x9A, CHR 0xA0]"

definition alert_payload :: "'y task_ctx \<Rightarrow> delivery_target \<Rightarrow> string \<Rightarrow> json" where
  "alert_payload tc target err =
     JObject [(''to'', JString (dt_to target)),
       (''text'', JString (warning_sign @ '' poller `'' @ pj_id (tc_job tc) @ ''` (kind='' @ tc_kind tc @ '') failing: '' @ err))]"

definition send_failure_alert ::
  "task_deps \<Rightarrow> 'y task_ctx \<Rightarrow> delivery_target \<Rightarrow> string \<Rightarrow> task_world \<Rightarrow> (string + unit) \<times> task_world" where
  "send_failure_alert d tc target err w =
     (if dt_channel target \<notin> set alert_channels
      then (Inl (''unknown failure_to.channel '' @ [CHR 0x27] @ dt_channel target @ [CHR 0x27]), w)
      else
        case td_resolve d (pj_agent (tc_job tc)) (dt_channel target) of
          None \<Rightarrow> (Inl (''agent '' @ [CHR 0x27] @ pj_agent (tc_job tc) @ [CHR 0x27] @ '' has no '' @ [CHR 0x27] @ dt_channel target
                     @ [CHR 0x27] @ '' binding for failure alerts''), w)
        | Some account \<Rightarrow>
            let topic = outbound_topic (dt_channel target) account;
                payload = alert_payload tc target err
            in case td_publish d topic payload of
                 Inl e \<Rightarrow> (Inl (''broker publish: '' @ e), w)
               | Inr _ \<Rightarrow> (Inr (), emit [AlertPublished topic payload] w))"

fun status_label :: "error_class \<Rightarrow> string" where
  "status_label ClassTransient = ''transient''"
| "status_label ClassPermanent = ''permanent''"
| "status_label ClassConfig = ''permanent''"

text \<open>\<open>consecutive_errors as u32\<close> and the cooldown in milliseconds are at the width of the code.\<close>

definition crossed :: "'y task_ctx \<Rightarrow> job_snapshot \<Rightarrow> bool" where
  "crossed tc snap \<longleftrightarrow> pc_breaker_threshold (tc_cfg tc) \<le> word_of_int (js_consecutive_errors snap)"

definition cooldown_ms :: "'y task_ctx \<Rightarrow> int" where
  "cooldown_ms tc = sint (pc_failure_alert_cooldown_secs (tc_cfg tc) * 1000)"

definition alert_due :: "'y task_ctx \<Rightarrow> job_snapshot \<Rightarrow> int \<Rightarrow> bool" where
  "alert_due tc snap now \<longleftrightarrow>
     crossed tc snap \<and> cooldown_ms tc \<le> now - (case js_last_failure_alert_at_ms snap of None \<Rightarrow> 0 | Some t \<Rightarrow> t)"

definition failure_alert :: "task_deps \<Rightarrow> 'y task_ctx \<Rightarrow> string \<Rightarrow> int \<Rightarrow> task_world \<Rightarrow> task_world" where
  "failure_alert d tc msg now w =
     (case poll_load (td_db d) (pj_id (tc_job tc)) (tw_db w) of
        Inr (Some snap) \<Rightarrow>
          let w1 = emit [SetConsecutiveErrors (js_consecutive_errors snap)] w
          in (case pj_failure_to (tc_job tc) of
                None \<Rightarrow> w1
              | Some target \<Rightarrow>
                  if alert_due tc snap now
                  then run_stmt (record_failure_alert (td_db d) (pj_id (tc_job tc)) now)
                         (snd (send_failure_alert d tc target msg w1))
                  else w1)
      | _ \<Rightarrow> w)"

definition handle_tick_error ::
  "task_deps \<Rightarrow> 'y task_ctx \<Rightarrow> poller_error \<Rightarrow> int \<Rightarrow> int \<Rightarrow> instant \<Rightarrow> instant \<Rightarrow> int \<Rightarrow> task_world \<Rightarrow> task_world" where
  "handle_tick_error d tc err next_run elapsed failed_at looked_at now w =
     (let cls = classify err;
          msg = poller_error_str err;
          j = pj_id (tc_job tc);
          cb = on_failure failed_at (tw_breaker w);
          w1 = emit [SetBreakerState (if is_open looked_at cb then GaugeOpen else GaugeClosed), IncTick (status_label cls)]
                 (w\<lparr>tw_breaker := cb\<rparr>);
          w2 = run_stmt (save_tick_err (td_db d) j (status_label cls) msg next_run elapsed now True) w1;
          w3 = (if cls \<in> {ClassPermanent, ClassConfig} then run_stmt (poll_set_paused (td_db d) j True now) w2 else w2)
      in failure_alert d tc msg now w3)"

subsection \<open>One turn of the loop\<close>

datatype turn_end = Stopped | Again

text \<open>The clock readings and the seed of one turn, whether it was cancelled in one of its two waits, and what others do to the tables
  while it sleeps and while the poller works.\<close>

record turn_input =
  tn_now :: int
  tn_seed :: u64
  tn_cancelled :: bool
  tn_cancelled_paused :: bool
  tn_lease_now :: int
  tn_allow_at :: instant
  tn_ctx_now :: int
  tn_elapsed :: u64
  tn_failed_at :: instant
  tn_looked_at :: instant
  tn_save_now :: int
  tn_sleeping :: "poll_db \<Rightarrow> poll_db"
  tn_working :: "poll_db \<Rightarrow> poll_db"

definition turn_jitter :: "'y task_ctx \<Rightarrow> u64" where
  "turn_jitter tc = (case jitter_hint (tc_schedule tc) of None \<Rightarrow> pc_default_jitter_ms (tc_cfg tc) | Some j \<Rightarrow> j)"

definition sleep_for :: "'y task_ctx \<Rightarrow> turn_input \<Rightarrow> int \<Rightarrow> int" where
  "sleep_for tc i next = max 0 (apply_jitter next (turn_jitter tc) (tn_seed i) - tn_now i)"

definition lease_until :: "task_deps \<Rightarrow> 'y task_ctx \<Rightarrow> int \<Rightarrow> int" where
  "lease_until d tc now = now + max (td_scale d (max (nominal_interval (tc_schedule tc)) 30) * 1000) 30000"

definition poll_context_of :: "'y task_ctx \<Rightarrow> job_snapshot \<Rightarrow> int \<Rightarrow> poll_context" where
  "poll_context_of tc snap now =
     \<lparr>cx_job_id = pj_id (tc_job tc), cx_agent_id = pj_agent (tc_job tc), cx_kind = tc_kind tc, cx_config = tc_ctx_cfg tc,
      cx_cursor = js_cursor snap, cx_now = now, cx_interval_hint = nominal_interval (tc_schedule tc)\<rparr>"

text \<open>The \<open>next_run_at\<close> a turn writes: the instant it was woken for plus the whole jitter window, in milliseconds.\<close>

definition recorded_next_run :: "'y task_ctx \<Rightarrow> int \<Rightarrow> int" where
  "recorded_next_run tc next = (next + sint (turn_jitter tc) * ns_per_ms) div ns_per_ms"

definition release_own :: "task_deps \<Rightarrow> 'y task_ctx \<Rightarrow> task_world \<Rightarrow> task_world" where
  "release_own d tc = run_stmt (release_lease (td_db d) (pj_id (tc_job tc)) (tc_leaseholder tc))"

text \<open>The row the tick starts from: an absent row and a failing read are the default.\<close>

definition tick_snapshot :: "task_deps \<Rightarrow> 'y task_ctx \<Rightarrow> poll_db \<Rightarrow> job_snapshot" where
  "tick_snapshot d tc s =
     (case poll_load (td_db d) (pj_id (tc_job tc)) s of Inr (Some snap) \<Rightarrow> snap | _ \<Rightarrow> default_job_snapshot)"

definition tick_ok :: "task_deps \<Rightarrow> 'y task_ctx \<Rightarrow> tick_ack \<Rightarrow> int \<Rightarrow> turn_input \<Rightarrow> task_world \<Rightarrow> task_world" where
  "tick_ok d tc ack next i w =
     (let m = (case ta_metrics ack of None \<Rightarrow> default_tick_metrics | Some m \<Rightarrow> m);
          w1 = emit [SetBreakerState GaugeClosed, SetConsecutiveErrors 0, IncTick ''ok'', AddItemsSeen (tm_items_seen m),
                     AddItemsDispatched (tm_items_dispatched m)] (w\<lparr>tw_breaker := on_success (tw_breaker w)\<rparr>)
      in run_stmt (save_tick_ok (td_db d) (pj_id (tc_job tc)) (ta_next_cursor ack) (tm_items_seen m) (tm_items_dispatched m)
           (sint (tn_elapsed i)) (recorded_next_run tc next) (tn_save_now i)) w1)"

definition do_tick :: "task_deps \<Rightarrow> 'y task_ctx \<Rightarrow> int \<Rightarrow> turn_input \<Rightarrow> task_world \<Rightarrow> task_world" where
  "do_tick d tc next i w =
     (let cx = poll_context_of tc (tick_snapshot d tc (tw_db w)) (tn_ctx_now i);
          outcome = td_tick d cx;
          w1 = emit [Ticked cx, ObserveLatency (tn_elapsed i)] (w\<lparr>tw_db := tn_working i (tw_db w)\<rparr>)
      in release_own d tc
           (case outcome of
              Inr ack \<Rightarrow> tick_ok d tc ack next i w1
            | Inl e \<Rightarrow> handle_tick_error d tc e (recorded_next_run tc next) (sint (tn_elapsed i)) (tn_failed_at i) (tn_looked_at i)
                (tn_save_now i) w1))"

definition leased_turn :: "task_deps \<Rightarrow> 'y task_ctx \<Rightarrow> int \<Rightarrow> turn_input \<Rightarrow> task_world \<Rightarrow> task_world" where
  "leased_turn d tc next i w =
     (case allow (tn_allow_at i) (tw_breaker w) of
        (False, cb) \<Rightarrow> release_own d tc (emit [IncTick ''skipped'', SetBreakerState GaugeOpen] (w\<lparr>tw_breaker := cb\<rparr>))
      | (True, cb) \<Rightarrow> do_tick d tc next i (w\<lparr>tw_breaker := cb\<rparr>))"

definition awake_turn :: "task_deps \<Rightarrow> 'y task_ctx \<Rightarrow> int \<Rightarrow> turn_input \<Rightarrow> task_world \<Rightarrow> task_world" where
  "awake_turn d tc next i w =
     (case acquire_lease (td_db d) (pj_id (tc_job tc)) (tc_leaseholder tc) (lease_until d tc (tn_lease_now i)) (tn_lease_now i)
             (tw_db w) of
        (Inl _, s) \<Rightarrow> w\<lparr>tw_db := s\<rparr>
      | (Inr False, s) \<Rightarrow> emit [IncTick ''skipped''] (w\<lparr>tw_db := s\<rparr>)
      | (Inr True, s) \<Rightarrow> leased_turn d tc next i (w\<lparr>tw_db := s\<rparr>))"

definition seen_paused :: "task_deps \<Rightarrow> 'y task_ctx \<Rightarrow> poll_db \<Rightarrow> bool" where
  "seen_paused d tc s =
     (case poll_load (td_db d) (pj_id (tc_job tc)) s of Inr (Some snap) \<Rightarrow> js_paused snap | _ \<Rightarrow> False)"

definition job_turn :: "task_deps \<Rightarrow> 'y task_ctx \<Rightarrow> turn_input \<Rightarrow> task_world \<Rightarrow> turn_end \<times> task_world" where
  "job_turn d tc i w =
     (case next_run_at (td_parsers d) (tc_schedule tc) (tn_now i) of
        Inl _ \<Rightarrow> (Stopped, w)
      | Inr None \<Rightarrow> (Stopped, w)
      | Inr (Some next) \<Rightarrow>
          let w1 = w\<lparr>tw_db := tn_sleeping i (tw_db w)\<rparr>
          in if tn_cancelled i then (Stopped, w1)
             else if seen_paused d tc (tw_db w1)
             then (if tn_cancelled_paused i then Stopped else Again, w1)
             else (Again, awake_turn d tc next i w1))"

fun run_job_loop :: "task_deps \<Rightarrow> 'y task_ctx \<Rightarrow> turn_input list \<Rightarrow> task_world \<Rightarrow> turn_end \<times> task_world" where
  "run_job_loop d tc [] w = (Again, w)"
| "run_job_loop d tc (i # is) w =
     (case job_turn d tc i w of (Stopped, w') \<Rightarrow> (Stopped, w') | (Again, w') \<Rightarrow> run_job_loop d tc is w')"

subsection \<open>Jitter\<close>

lemma jitter_offset_less: "jitter_ms \<noteq> 0 \<Longrightarrow> uint (jitter_offset jitter_ms seed) < uint jitter_ms"
  unfolding jitter_offset_def uint_mod by (rule pos_mod_bound) (metis uint_0_iff uint_lt_0 linorder_neqE_linordered_idom)

lemma jitter_offset_signed:
  assumes "uint jitter_ms \<le> 2 ^ 63" "jitter_ms \<noteq> 0"
  shows "sint (jitter_offset jitter_ms seed) = uint (jitter_offset jitter_ms seed)"
proof -
  let ?o = "jitter_offset jitter_ms seed"
  have "uint ?o < 2 ^ 63" using jitter_offset_less [OF assms(2), of seed] assms(1) by simp
  moreover have "- (2 ^ 63) \<le> uint ?o" by (rule order_trans [OF _ uint_ge_0]) simp
  ultimately show ?thesis by (simp add: sint_uint signed_take_bit_int_eq_self)
qed

lemma apply_jitter_ge: "uint jitter_ms \<le> 2 ^ 63 \<Longrightarrow> base \<le> apply_jitter base jitter_ms seed"
  by (simp add: apply_jitter_def jitter_offset_signed ns_per_ms_def)

text \<open>A jitter window of at most \<open>2 ^ 63\<close> milliseconds delays a run by less than the window and never brings it forward,
  although the generator's multiplication wraps.\<close>

theorem jitter_stays_in_window:
  assumes "uint jitter_ms \<le> 2 ^ 63"
  shows "base \<le> apply_jitter base jitter_ms seed \<and>
    apply_jitter base jitter_ms seed < base + max 1 (uint jitter_ms * ns_per_ms)"
proof (cases "jitter_ms = 0")
  case False
  from jitter_offset_less [OF this, of seed]
  have "uint (jitter_offset jitter_ms seed) * ns_per_ms < uint jitter_ms * ns_per_ms" by (simp add: ns_per_ms_def)
  then show ?thesis
    using False apply_jitter_ge [OF assms, of base seed] by (simp add: apply_jitter_def jitter_offset_signed [OF assms])
qed (simp add: apply_jitter_def)

theorem jitter_stays_in_window_witness:
  "apply_jitter 1000 5000 42 < 1000 + max 1 (5000 * 1000000) \<and> 1000 \<le> apply_jitter 1000 5000 42"
  using jitter_stays_in_window [of 5000 1000 42] by (simp add: ns_per_ms_def)

subsection \<open>What a turn does\<close>

fun ticks :: "poll_effect list \<Rightarrow> poll_context list" where
  "ticks [] = []"
| "ticks (Ticked cx # es) = cx # ticks es"
| "ticks (_ # es) = ticks es"

lemma ticks_append [simp]: "ticks (es @ fs) = ticks es @ ticks fs"
  by (induction es rule: ticks.induct) auto

lemma emit_simps [simp]:
  "tw_db (emit es w) = tw_db w" "tw_breaker (emit es w) = tw_breaker w" "tw_effects (emit es w) = tw_effects w @ es"
  by (simp_all add: emit_def)

lemma run_stmt_simps [simp]:
  "tw_db (run_stmt f w) = snd (f (tw_db w))" "tw_breaker (run_stmt f w) = tw_breaker w" "tw_effects (run_stmt f w) = tw_effects w"
  by (simp_all add: run_stmt_def)

lemma send_alert_simps [simp]:
  "tw_db (snd (send_failure_alert d tc t msg w)) = tw_db w"
  "tw_breaker (snd (send_failure_alert d tc t msg w)) = tw_breaker w"
  "ticks (tw_effects (snd (send_failure_alert d tc t msg w))) = ticks (tw_effects w)"
  by (simp_all add: send_failure_alert_def Let_def split: option.split sum.split)

lemma failure_alert_ticks [simp]: "ticks (tw_effects (failure_alert d tc msg now w)) = ticks (tw_effects w)"
  by (simp add: failure_alert_def Let_def split: sum.split option.split)

lemma handle_tick_error_ticks [simp]:
  "ticks (tw_effects (handle_tick_error d tc e nr el f l now w)) = ticks (tw_effects w)"
  by (simp add: handle_tick_error_def Let_def)

lemma tick_ok_simps [simp]:
  "ticks (tw_effects (tick_ok d tc ack next i w)) = ticks (tw_effects w)"
  by (simp add: tick_ok_def Let_def)

lemma release_own_simps [simp]:
  "tw_effects (release_own d tc w) = tw_effects w" "tw_breaker (release_own d tc w) = tw_breaker w"
  by (simp_all add: release_own_def)

lemma do_tick_ticks [simp]:
  "ticks (tw_effects (do_tick d tc next i w)) =
     ticks (tw_effects w) @ [poll_context_of tc (tick_snapshot d tc (tw_db w)) (tn_ctx_now i)]"
  by (simp add: do_tick_def Let_def split: sum.split)

text \<open>The statements on the jobs keep the tables well formed and leave the leases alone.\<close>

lemma job_stmts_leases [poll_simps]:
  "pb_leases (snd (save_tick_ok db j c a b du nr now s)) = pb_leases s"
  "pb_leases (snd (save_tick_err db j st er nr du now bu s)) = pb_leases s"
  "pb_leases (snd (poll_set_paused db j p now s)) = pb_leases s"
  "pb_leases (snd (record_failure_alert db j now s)) = pb_leases s"
  by (simp_all add: save_tick_ok_def save_tick_err_def poll_set_paused_def record_failure_alert_def upsert_job_view Let_def
      split: option.split)

lemma job_stmts_wf:
  assumes "poll_wf s"
  shows "poll_wf (snd (save_tick_ok db j c a b du nr now s))" "poll_wf (snd (save_tick_err db j st er nr du now bu s))"
    "poll_wf (snd (poll_set_paused db j p now s))" "poll_wf (snd (record_failure_alert db j now s))"
  using assms
  by (simp_all add: save_tick_ok_def save_tick_err_def poll_set_paused_def record_failure_alert_def upsert_job_wf Let_def
      split: option.split)
    (simp add: poll_wf_def)

lemma failure_alert_db:
  "tw_db (failure_alert d tc msg now w) = tw_db w \<or>
     tw_db (failure_alert d tc msg now w) = snd (record_failure_alert (td_db d) (pj_id (tc_job tc)) now (tw_db w))"
  by (simp add: failure_alert_def Let_def split: sum.split option.split)

lemma failure_alert_tables [simp]:
  "pb_leases (tw_db (failure_alert d tc msg now w)) = pb_leases (tw_db w)"
  "poll_wf (tw_db w) \<Longrightarrow> poll_wf (tw_db (failure_alert d tc msg now w))"
  using failure_alert_db [of d tc msg now w] by (auto simp: poll_simps job_stmts_wf)

lemma handle_tick_error_tables:
  "pb_leases (tw_db (handle_tick_error d tc e nr el f l now w)) = pb_leases (tw_db w)"
  "poll_wf (tw_db w) \<Longrightarrow> poll_wf (tw_db (handle_tick_error d tc e nr el f l now w))"
  by (simp_all add: handle_tick_error_def Let_def poll_simps job_stmts_wf)

lemma tick_ok_tables:
  "pb_leases (tw_db (tick_ok d tc ack next i w)) = pb_leases (tw_db w)"
  "poll_wf (tw_db w) \<Longrightarrow> poll_wf (tw_db (tick_ok d tc ack next i w))"
  by (simp_all add: tick_ok_def Let_def poll_simps job_stmts_wf)

text \<open>The row of a job; one never written reads as the blank row.\<close>

definition stored_job :: "string \<Rightarrow> poll_db \<Rightarrow> job_row" where
  "stored_job j s = (case map_of (pb_jobs s) j of None \<Rightarrow> blank_job 0 | Some r \<Rightarrow> r)"

lemma stored_ok:
  "db SaveOk \<Longrightarrow> stored_job j (snd (save_tick_ok db j c a b du nr now s)) =
     (stored_job j s)\<lparr>jr_cursor := (case c of None \<Rightarrow> jr_cursor (stored_job j s) | Some x \<Rightarrow> Some x), jr_last_run_at := Some now,
       jr_next_run_at := Some nr, jr_last_status := Some ''ok'', jr_last_error := None, jr_last_duration_ms := Some du,
       jr_consecutive_errors := 0, jr_items_seen_total := jr_items_seen_total (stored_job j s) + uint a,
       jr_items_dispatched_total := jr_items_dispatched_total (stored_job j s) + uint b, jr_updated_at := now\<rparr>"
  by (simp add: stored_job_def save_tick_ok_def upsert_job_view blank_job_def split: option.split)

lemma stored_err:
  "db SaveErr \<Longrightarrow> stored_job j (snd (save_tick_err db j st er nr du now bu s)) =
     (stored_job j s)\<lparr>jr_last_run_at := Some now, jr_next_run_at := Some nr, jr_last_status := Some st, jr_last_error := Some er,
       jr_last_duration_ms := Some du, jr_consecutive_errors := jr_consecutive_errors (stored_job j s) + (if bu then 1 else 0),
       jr_updated_at := now\<rparr>"
  by (simp add: stored_job_def save_tick_err_def upsert_job_view blank_job_def Let_def split: option.split)

lemma stored_paused:
  "db SetPaused \<Longrightarrow> stored_job j (snd (poll_set_paused db j p now s)) =
     (stored_job j s)\<lparr>jr_paused := (if p then 1 else 0), jr_updated_at := now\<rparr>"
  by (simp add: stored_job_def poll_set_paused_def upsert_job_view blank_job_def Let_def split: option.split)

lemma stored_alert:
  "db RecordAlert \<Longrightarrow> map_of (pb_jobs s) j \<noteq> None \<Longrightarrow> stored_job j (snd (record_failure_alert db j now s)) =
     (stored_job j s)\<lparr>jr_last_failure_alert_at := Some now, jr_updated_at := now\<rparr>"
  by (auto simp: stored_job_def record_failure_alert_def table_simps)

lemma stored_alert_any:
  "\<exists>t u. stored_job j (snd (record_failure_alert db j now s)) = (stored_job j s)\<lparr>jr_last_failure_alert_at := t, jr_updated_at := u\<rparr>"
proof (cases "db RecordAlert \<and> map_of (pb_jobs s) j \<noteq> None")
  case True
  then show ?thesis using stored_alert [of db s j now] by blast
next
  case False
  then have "stored_job j (snd (record_failure_alert db j now s)) =
      (stored_job j s)\<lparr>jr_last_failure_alert_at := jr_last_failure_alert_at (stored_job j s), jr_updated_at := jr_updated_at (stored_job j s)\<rparr>"
    by (auto simp: record_failure_alert_def)
  then show ?thesis by blast
qed

lemma stored_release [simp]: "stored_job j (snd (release_lease db k h s)) = stored_job j s"
  by (simp add: release_lease_def stored_job_def)

lemma failure_alert_row:
  "\<exists>t u. stored_job (pj_id (tc_job tc)) (tw_db (failure_alert d tc msg now w)) =
     (stored_job (pj_id (tc_job tc)) (tw_db w))\<lparr>jr_last_failure_alert_at := t, jr_updated_at := u\<rparr>"
proof -
  let ?r = "stored_job (pj_id (tc_job tc)) (tw_db w)"
  have "?r = ?r\<lparr>jr_last_failure_alert_at := jr_last_failure_alert_at ?r, jr_updated_at := jr_updated_at ?r\<rparr>" by simp
  then show ?thesis
    using failure_alert_db [of d tc msg now w] stored_alert_any [of "pj_id (tc_job tc)" "td_db d" now "tw_db w"] by metis
qed

lemma handle_tick_error_row:
  assumes "\<And>q. td_db d q"
  shows "\<exists>t u. stored_job (pj_id (tc_job tc)) (tw_db (handle_tick_error d tc e nr el f l now w)) =
     (let r = stored_job (pj_id (tc_job tc)) (tw_db w)
      in r\<lparr>jr_last_run_at := Some now, jr_next_run_at := Some nr, jr_last_status := Some (status_label (classify e)),
           jr_last_error := Some (poller_error_str e), jr_last_duration_ms := Some el,
           jr_consecutive_errors := jr_consecutive_errors r + 1,
           jr_paused := (if classify e = ClassTransient then jr_paused r else 1),
           jr_last_failure_alert_at := t, jr_updated_at := u\<rparr>)"
proof -
  let ?j = "pj_id (tc_job tc)"
  define cb where "cb = on_failure f (tw_breaker w)"
  define w2 where "w2 = run_stmt (save_tick_err (td_db d) ?j (status_label (classify e)) (poller_error_str e) nr el now True)
    (emit [SetBreakerState (if is_open l cb then GaugeOpen else GaugeClosed), IncTick (status_label (classify e))]
      (w\<lparr>tw_breaker := cb\<rparr>))"
  define w3 where "w3 = (if classify e = ClassTransient then w2 else run_stmt (poll_set_paused (td_db d) ?j True now) w2)"
  have "handle_tick_error d tc e nr el f l now w = failure_alert d tc (poller_error_str e) now w3"
    unfolding handle_tick_error_def Let_def w3_def w2_def cb_def by (cases "classify e") simp_all
  moreover obtain t u where "stored_job ?j (tw_db (failure_alert d tc (poller_error_str e) now w3)) =
      (stored_job ?j (tw_db w3))\<lparr>jr_last_failure_alert_at := t, jr_updated_at := u\<rparr>"
    using failure_alert_row [of tc d "poller_error_str e" now w3] by blast
  moreover have "stored_job ?j (tw_db w2) = (stored_job ?j (tw_db w))\<lparr>jr_last_run_at := Some now, jr_next_run_at := Some nr,
      jr_last_status := Some (status_label (classify e)), jr_last_error := Some (poller_error_str e),
      jr_last_duration_ms := Some el, jr_consecutive_errors := jr_consecutive_errors (stored_job ?j (tw_db w)) + 1,
      jr_updated_at := now\<rparr>"
    by (simp add: w2_def stored_err [OF assms])
  ultimately show ?thesis
    by (intro exI [of _ t] exI [of _ u]) (simp add: w3_def stored_paused [OF assms] Let_def)
qed

text \<open>With a database that answers, a tick is written down as it ended: success stores the cursor the poller returned (or keeps the
  one there is) and clears the errors, an error keeps the cursor and counts one more, and only a permanent or configuration
  error pauses the job; what others wrote to the row meanwhile stays.\<close>

theorem tick_outcome_is_recorded:
  assumes "\<And>q. td_db d q"
  shows "let j = pj_id (tc_job tc);
      old = stored_job j (tn_working i (tw_db w));
      new = stored_job j (tw_db (do_tick d tc next i w))
    in jr_last_run_at new = Some (tn_save_now i) \<and>
      (case td_tick d (poll_context_of tc (tick_snapshot d tc (tw_db w)) (tn_ctx_now i)) of
        Inr ack \<Rightarrow> jr_cursor new = (case ta_next_cursor ack of None \<Rightarrow> jr_cursor old | Some c \<Rightarrow> Some c)
          \<and> jr_last_status new = Some ''ok'' \<and> jr_last_error new = None \<and> jr_consecutive_errors new = 0 \<and> jr_paused new = jr_paused old
      | Inl e \<Rightarrow> jr_cursor new = jr_cursor old \<and> jr_last_status new = Some (status_label (classify e))
          \<and> jr_last_error new = Some (poller_error_str e) \<and> jr_consecutive_errors new = jr_consecutive_errors old + 1
          \<and> jr_paused new = (if classify e = ClassTransient then jr_paused old else 1))"
proof (cases "td_tick d (poll_context_of tc (tick_snapshot d tc (tw_db w)) (tn_ctx_now i))")
  case (Inl e)
  let ?w = "emit [Ticked (poll_context_of tc (tick_snapshot d tc (tw_db w)) (tn_ctx_now i)), ObserveLatency (tn_elapsed i)]
    (w\<lparr>tw_db := tn_working i (tw_db w)\<rparr>)"
  obtain t u where "stored_job (pj_id (tc_job tc)) (tw_db (handle_tick_error d tc e (recorded_next_run tc next) (sint (tn_elapsed i))
      (tn_failed_at i) (tn_looked_at i) (tn_save_now i) ?w)) =
     (let r = stored_job (pj_id (tc_job tc)) (tw_db ?w)
      in r\<lparr>jr_last_run_at := Some (tn_save_now i), jr_next_run_at := Some (recorded_next_run tc next),
           jr_last_status := Some (status_label (classify e)), jr_last_error := Some (poller_error_str e),
           jr_last_duration_ms := Some (sint (tn_elapsed i)), jr_consecutive_errors := jr_consecutive_errors r + 1,
           jr_paused := (if classify e = ClassTransient then jr_paused r else 1),
           jr_last_failure_alert_at := t, jr_updated_at := u\<rparr>)"
    using handle_tick_error_row [of d tc e "recorded_next_run tc next" "sint (tn_elapsed i)" "tn_failed_at i" "tn_looked_at i"
      "tn_save_now i" ?w, OF assms] by blast
  with Inl show ?thesis by (simp add: do_tick_def Let_def release_own_def)
next
  case (Inr ack)
  then show ?thesis by (simp add: do_tick_def tick_ok_def Let_def release_own_def stored_ok [OF assms])
qed

subsection \<open>Who ticks, and when\<close>

lemma job_turn_cases:
  assumes "job_turn d tc i w = (r, w')"
  obtains (idle) "ticks (tw_effects w') = ticks (tw_effects w)"
  | (ticked) nx cb s where "r = Again" "\<not> tn_cancelled i" "\<not> seen_paused d tc (tn_sleeping i (tw_db w))"
      "acquire_lease (td_db d) (pj_id (tc_job tc)) (tc_leaseholder tc) (lease_until d tc (tn_lease_now i)) (tn_lease_now i)
         (tn_sleeping i (tw_db w)) = (Inr True, s)"
      "allow (tn_allow_at i) (tw_breaker w) = (True, cb)"
      "w' = do_tick d tc nx i (w\<lparr>tw_db := s, tw_breaker := cb\<rparr>)"
proof -
  let ?s0 = "tn_sleeping i (tw_db w)"
  consider (quiet) "ticks (tw_effects w') = ticks (tw_effects w)"
    | (awake) nx where "r = Again" "\<not> tn_cancelled i" "\<not> seen_paused d tc ?s0" "w' = awake_turn d tc nx i (w\<lparr>tw_db := ?s0\<rparr>)"
  proof (cases "next_run_at (td_parsers d) (tc_schedule tc) (tn_now i)")
    case (Inl e)
    then show ?thesis using assms by (intro quiet) (simp add: job_turn_def)
  next
    case (Inr nxt)
    show ?thesis
    proof (cases nxt)
      case None
      then show ?thesis using assms Inr by (intro quiet) (simp add: job_turn_def)
    next
      case (Some nx)
      show ?thesis
      proof (cases "tn_cancelled i \<or> seen_paused d tc ?s0")
        case True
        then show ?thesis using assms Inr Some by (intro quiet) (auto simp: job_turn_def Let_def split: if_splits)
      next
        case False
        then show ?thesis using assms Inr Some by (intro awake [of nx]) (simp_all add: job_turn_def Let_def)
      qed
    qed
  qed
  then show ?thesis
  proof cases
    case quiet
    then show ?thesis by (rule idle)
  next
    case (awake nx)
    obtain a s where acq: "acquire_lease (td_db d) (pj_id (tc_job tc)) (tc_leaseholder tc) (lease_until d tc (tn_lease_now i))
        (tn_lease_now i) ?s0 = (a, s)" by fastforce
    obtain ok cb where al: "allow (tn_allow_at i) (tw_breaker w) = (ok, cb)" by fastforce
    show ?thesis
    proof (cases "a = Inr True \<and> ok")
      case True
      then have "w' = do_tick d tc nx i (w\<lparr>tw_db := s, tw_breaker := cb\<rparr>)"
        using awake(4) acq al by (simp add: awake_turn_def leased_turn_def)
      with True awake acq al show ?thesis by (intro ticked [of s cb nx]) auto
    next
      case False
      then have "ticks (tw_effects w') = ticks (tw_effects w)"
        using awake(4) acq al by (auto simp: awake_turn_def leased_turn_def split: sum.split bool.split)
      then show ?thesis by (rule idle)
    qed
  qed
qed

lemma lease_until_min: "now + 30000 \<le> lease_until d tc now"
  by (simp add: lease_until_def)

lemma do_tick_wf:
  assumes "poll_wf (tw_db w)" "\<And>s. poll_wf s \<Longrightarrow> poll_wf (tn_working i s)"
  shows "poll_wf (tw_db (do_tick d tc next i w))"
  using assms
  by (simp add: do_tick_def Let_def release_own_def release_wf tick_ok_tables handle_tick_error_tables split: sum.split)

text \<open>After a tick the task holds no lease of the job.\<close>

lemma do_tick_releases:
  assumes "poll_wf (tw_db w)" "\<And>s. poll_wf s \<Longrightarrow> poll_wf (tn_working i s)" "td_db d ReleaseLease"
  shows "lease_holder (pj_id (tc_job tc)) (tw_db (do_tick d tc next i w)) \<noteq> Some (tc_leaseholder tc, u)"
proof -
  have "\<exists>v. poll_wf (tw_db v) \<and> do_tick d tc next i w = release_own d tc v"
    using assms(1,2) unfolding do_tick_def Let_def
    by (intro exI conjI refl) (auto simp: tick_ok_tables handle_tick_error_tables split: sum.split)
  then obtain v where v: "poll_wf (tw_db v)" "do_tick d tc next i w = release_own d tc v" by blast
  let ?s = "snd (release_lease (td_db d) (pj_id (tc_job tc)) (tc_leaseholder tc) (tw_db v))"
  have "release_lease (td_db d) (pj_id (tc_job tc)) (tc_leaseholder tc) (tw_db v) = (Inr (), ?s)"
    using assms(3) by (simp add: release_lease_def)
  from release_view(1) [OF v(1) this, of "pj_id (tc_job tc)"] v(2) show ?thesis
    by (auto simp: release_own_def lease_holder_def split: if_splits)
qed


definition sample_task :: "unit task_ctx" where
  "sample_task =
     \<lparr>tc_job = \<lparr>pj_id = ''feed'', pj_kind = ''rss'', pj_agent = ''ana'', pj_schedule = (), pj_config = (), pj_failure_to = None,
        pj_paused_on_boot = False, pj_extra = []\<rparr>,
      tc_kind = ''rss'', tc_schedule = EverySchedule 60 (Some 0), tc_ctx_cfg = JNull, tc_leaseholder = ''pid-1'',
      tc_cfg = \<lparr>pc_enabled = True, pc_default_jitter_ms = 5000, pc_failure_alert_cooldown_secs = 3600, pc_breaker_threshold = 5,
        pc_jobs = []\<rparr>\<rparr>"

definition sample_deps :: "(poll_context \<Rightarrow> poller_error + tick_ack) \<Rightarrow> task_deps" where
  "sample_deps tick =
     \<lparr>td_tick = tick, td_resolve = (\<lambda>_ _. None), td_publish = (\<lambda>_ _. Inr ()), td_scale = (\<lambda>s. 2 * uint s),
      td_parsers = \<lparr>tp_at = (\<lambda>_. Inl ''''), tp_cron = (\<lambda>_. Inl '''')\<rparr>, td_db = (\<lambda>_. True)\<rparr>"

definition sample_turn :: "int \<Rightarrow> turn_input" where
  "sample_turn ms =
     \<lparr>tn_now = ms * ns_per_ms, tn_seed = 0, tn_cancelled = False, tn_cancelled_paused = False, tn_lease_now = ms, tn_allow_at = 0,
      tn_ctx_now = ms * ns_per_ms, tn_elapsed = 7, tn_failed_at = 0, tn_looked_at = 0, tn_save_now = ms,
      tn_sleeping = (\<lambda>s. s), tn_working = (\<lambda>s. s)\<rparr>"

definition sample_world :: task_world where
  "sample_world = \<lparr>tw_db = empty_poll_db, tw_breaker = new_breaker ''poller:feed'' (default_breaker 5), tw_effects = []\<rparr>"

lemmas sample_defs = sample_task_def sample_deps_def sample_turn_def sample_world_def empty_poll_db_def new_breaker_def

lemma sample_turn_ticks:
  "job_turn (sample_deps tick) sample_task (sample_turn ms) sample_world =
     (Again, do_tick (sample_deps tick) sample_task (ms * ns_per_ms + 60 * ns_per_sec) (sample_turn ms)
        (sample_world\<lparr>tw_db := empty_poll_db\<lparr>pb_leases := [(''feed'', \<lparr>lr_leaseholder = ''pid-1'', lr_running_until = ms + 120000\<rparr>)]\<rparr>\<rparr>))"
  by (simp add: job_turn_def seen_paused_def poll_load_def awake_turn_def acquire_lease_def leased_turn_def allow_def lease_until_def
      sample_defs default_breaker_def max_def word_le_nat_alt)

lemma sample_turn_effects:
  "ticks (tw_effects (snd (job_turn (sample_deps tick) sample_task (sample_turn ms) sample_world))) =
     [poll_context_of sample_task default_job_snapshot (ms * ns_per_ms)]"
  by (simp add: sample_turn_ticks tick_snapshot_def poll_load_def) (simp add: sample_defs)


subsection \<open>A paused job\<close>

lemma seen_paused_iff: "td_db d LoadJob \<Longrightarrow> seen_paused d tc s \<longleftrightarrow> jr_paused (stored_job (pj_id (tc_job tc)) s) \<noteq> 0"
  by (simp add: seen_paused_def poll_load_def stored_job_def snapshot_of_row_def blank_job_def split: option.split)

lemma paused_turn:
  assumes "seen_paused d tc (tn_sleeping i (tw_db w))"
  shows "snd (job_turn d tc i w) \<in> {w, w\<lparr>tw_db := tn_sleeping i (tw_db w)\<rparr>}"
  using assms by (simp add: job_turn_def Let_def split: sum.split option.split)

text \<open>What others may do to a paused job's row without waking it.\<close>

definition keeps_paused :: "string \<Rightarrow> (poll_db \<Rightarrow> poll_db) \<Rightarrow> bool" where
  "keeps_paused j f \<longleftrightarrow> (\<forall>s. jr_paused (stored_job j s) \<noteq> 0 \<longrightarrow> jr_paused (stored_job j (f s)) \<noteq> 0)"

lemma paused_loop:
  assumes "td_db d LoadJob" "\<forall>i \<in> set is. keeps_paused (pj_id (tc_job tc)) (tn_sleeping i)"
    and "jr_paused (stored_job (pj_id (tc_job tc)) (tw_db w)) \<noteq> 0"
  shows "tw_effects (snd (run_job_loop d tc is w)) = tw_effects w \<and> tw_breaker (snd (run_job_loop d tc is w)) = tw_breaker w"
  using assms(2,3)
proof (induction "is" arbitrary: w)
  case (Cons i "is")
  let ?j = "pj_id (tc_job tc)"
  have p: "jr_paused (stored_job ?j (tn_sleeping i (tw_db w))) \<noteq> 0" using Cons.prems by (simp add: keeps_paused_def)
  then have "seen_paused d tc (tn_sleeping i (tw_db w))" by (simp add: seen_paused_iff assms(1))
  from paused_turn [OF this]
  have w': "snd (job_turn d tc i w) \<in> {w, w\<lparr>tw_db := tn_sleeping i (tw_db w)\<rparr>}" .
  obtain r v where jt: "job_turn d tc i w = (r, v)" by fastforce
  have v: "tw_effects v = tw_effects w" "tw_breaker v = tw_breaker w" "jr_paused (stored_job ?j (tw_db v)) \<noteq> 0"
    using w' p Cons.prems(2) by (auto simp: jt)
  show ?case
    using Cons.IH [OF _ v(3)] Cons.prems(1) v(1,2) by (cases r) (simp_all add: jt)
qed simp



theorem tick_outcome_is_recorded_witness:
  "jr_cursor (stored_job ''feed'' (tw_db (do_tick (sample_deps (\<lambda>cx. Inr \<lparr>ta_next_cursor = Some [1, 2], ta_next_interval_hint = None,
      ta_metrics = None\<rparr>)) sample_task 0 (sample_turn 1000) sample_world))) = Some [1, 2]"
  using tick_outcome_is_recorded [of "sample_deps (\<lambda>cx. Inr \<lparr>ta_next_cursor = Some [1, 2], ta_next_interval_hint = None,
      ta_metrics = None\<rparr>)" sample_task "sample_turn 1000" sample_world 0]
  by (simp add: Let_def sample_deps_def sample_task_def)

text \<open>The \<open>next_run_at\<close> written after a tick is at most the jitter window past the instant the tick itself was due: it names the run that
  just happened, not the one to come.\<close>

lemma recorded_next_run_names_the_run_that_fired:
  assumes "uint (turn_jitter tc) \<le> 2 ^ 63"
  shows "recorded_next_run tc due * ns_per_ms \<le> apply_jitter due (turn_jitter tc) seed + sint (turn_jitter tc) * ns_per_ms"
proof -
  have "(due + sint (turn_jitter tc) * ns_per_ms) div ns_per_ms * ns_per_ms \<le> due + sint (turn_jitter tc) * ns_per_ms"
    by (simp add: ns_per_ms_def)
  moreover have "due \<le> apply_jitter due (turn_jitter tc) seed"
    by (rule apply_jitter_ge [OF assms])
  ultimately show ?thesis by (simp add: recorded_next_run_def)
qed

end
