(* ===== verification/Poll_Runner.thy ===== *)
theory Poll_Runner
  imports Poll_Job "HOL-Library.List_Lexorder" "HOL-Library.Char_ord"
begin

section \<open>The pollers' runner and its admin endpoint (\<open>crates/poller/src/runner.rs\<close>, \<open>admin.rs\<close>)\<close>

text \<open>
  The runner keeps a table of tasks, one per job, and starts, cancels and replaces them when the configuration is loaded anew.  A task
  that was spawned carries a number; \<open>pr_running\<close> lists those that nobody has cancelled.  YAML values are of any type \<open>'y\<close>: the runner only
  compares them and hands them to serde, which is an argument (\<open>rd_schedule\<close>, \<open>rd_json\<close>).  Strings are ordered by their bytes, as
  \<open>String\<close> is.
\<close>

record poller_impl =
  pv_kind :: string
  pv_validate :: "json \<Rightarrow> poller_error + unit"
  pv_tick :: "poll_context \<Rightarrow> poller_error + tick_ack"

record 'y runner_deps =
  rd_schedule :: "'y \<Rightarrow> string + schedule"
  rd_json :: "'y \<Rightarrow> json"
  rd_db :: "poll_stmt \<Rightarrow> bool"

record 'y job_task =
  jt_job :: "'y poller_job"
  jt_handle :: nat

record 'y poll_runner =
  pr_pollers :: "(string, poller_impl) table"
  pr_tasks :: "(string, 'y job_task) table"
  pr_cfg :: "'y pollers_config"
  pr_db :: poll_db
  pr_leaseholder :: string
  pr_running :: "(nat \<times> 'y task_ctx) list"
  pr_next :: nat

datatype runner_error =
    UnknownKind string string "string list"
  | InvalidSchedule string string
  | InvalidConfig poller_error
  | InJob string runner_error
  | UnknownJob string
  | KindNotRegistered string
  | TickFailed poller_error
  | StateError

record reload_plan =
  rp_add :: "string list"
  rp_replace :: "string list"
  rp_remove :: "string list"
  rp_keep :: "string list"

definition same_shape :: "'y poller_job \<Rightarrow> 'y poller_job \<Rightarrow> bool" where
  "same_shape a b \<longleftrightarrow>
     pj_kind a = pj_kind b \<and> pj_agent a = pj_agent b \<and> pj_schedule a = pj_schedule b \<and> pj_config a = pj_config b \<and>
     map_option (\<lambda>t. (dt_channel t, dt_to t)) (pj_failure_to a) = map_option (\<lambda>t. (dt_channel t, dt_to t)) (pj_failure_to b) \<and>
     pj_paused_on_boot a = pj_paused_on_boot b"

definition new_runner :: "'y pollers_config \<Rightarrow> poll_db \<Rightarrow> string \<Rightarrow> 'y poll_runner" where
  "new_runner cfg db holder =
     \<lparr>pr_pollers = [], pr_tasks = [], pr_cfg = cfg, pr_db = db, pr_leaseholder = holder, pr_running = [], pr_next = 0\<rparr>"

definition register_poller :: "poller_impl \<Rightarrow> 'y poll_runner \<Rightarrow> 'y poll_runner" where
  "register_poller p r = r\<lparr>pr_pollers := AList.update (pv_kind p) p (pr_pollers r)\<rparr>"

definition registered_kinds :: "'y poll_runner \<Rightarrow> string list" where
  "registered_kinds r = map fst (pr_pollers r)"

definition validate_job :: "'y runner_deps \<Rightarrow> 'y poller_job \<Rightarrow> 'y poll_runner \<Rightarrow> runner_error + unit" where
  "validate_job d job r =
     (case map_of (pr_pollers r) (pj_kind job) of
        None \<Rightarrow> Inl (UnknownKind (pj_id job) (pj_kind job) (registered_kinds r))
      | Some kind \<Rightarrow>
          (case rd_schedule d (pj_schedule job) of
             Inl e \<Rightarrow> Inl (InvalidSchedule (pj_id job) e)
           | Inr _ \<Rightarrow>
               (case pv_validate kind (rd_json d (pj_config job)) of
                  Inl e \<Rightarrow> Inl (InvalidConfig e)
                | Inr _ \<Rightarrow> Inr ())))"

definition spawn_job :: "'y runner_deps \<Rightarrow> 'y poller_job \<Rightarrow> 'y pollers_config \<Rightarrow> 'y poll_runner \<Rightarrow> 'y poll_runner" where
  "spawn_job d job cfg r =
     (case map_of (pr_pollers r) (pj_kind job) of
        None \<Rightarrow> r
      | Some kind \<Rightarrow>
          (case rd_schedule d (pj_schedule job) of
             Inl _ \<Rightarrow> r
           | Inr sched \<Rightarrow>
               let tc = \<lparr>tc_job = job, tc_kind = pv_kind kind, tc_schedule = sched, tc_ctx_cfg = rd_json d (pj_config job),
                         tc_leaseholder = pr_leaseholder r, tc_cfg = cfg\<rparr>
               in r\<lparr>pr_running := pr_running r @ [(pr_next r, tc)], pr_next := Suc (pr_next r),
                    pr_tasks := AList.update (pj_id job) \<lparr>jt_job = job, jt_handle = pr_next r\<rparr> (pr_tasks r)\<rparr>))"

fun spawn_all :: "'y runner_deps \<Rightarrow> 'y pollers_config \<Rightarrow> 'y poller_job list \<Rightarrow> 'y poll_runner \<Rightarrow> 'y poll_runner" where
  "spawn_all d cfg [] r = r"
| "spawn_all d cfg (job # jobs) r = spawn_all d cfg jobs (spawn_job d job cfg r)"

text \<open>The boot loop: each job is validated and, if so configured, paused before the next one is looked at.\<close>

fun boot_jobs :: "'y runner_deps \<Rightarrow> int \<Rightarrow> 'y poller_job list \<Rightarrow> 'y poll_runner \<Rightarrow> (runner_error + unit) \<times> 'y poll_runner" where
  "boot_jobs d now [] r = (Inr (), r)"
| "boot_jobs d now (job # jobs) r =
     (case validate_job d job r of
        Inl e \<Rightarrow> (Inl (InJob (pj_id job) e), r)
      | Inr _ \<Rightarrow>
          boot_jobs d now jobs
            (if pj_paused_on_boot job then r\<lparr>pr_db := snd (poll_set_paused (rd_db d) (pj_id job) True now (pr_db r))\<rparr> else r))"

definition start_runner :: "'y runner_deps \<Rightarrow> int \<Rightarrow> 'y poll_runner \<Rightarrow> (runner_error + unit) \<times> 'y poll_runner" where
  "start_runner d now r =
     (let cfg = pr_cfg r
      in if \<not> pc_enabled cfg then (Inr (), r)
         else chain (boot_jobs d now (pc_jobs cfg) r) (\<lambda>_ r'. (Inr (), spawn_all d cfg (pc_jobs cfg) r')))"

text \<open>The shutdown token is the parent of every task's token, so tasks the table lost end too.\<close>

definition shutdown_runner :: "'y poll_runner \<Rightarrow> 'y poll_runner" where
  "shutdown_runner r = r\<lparr>pr_tasks := [], pr_running := []\<rparr>"

definition diff_plan :: "'y pollers_config \<Rightarrow> 'y poll_runner \<Rightarrow> reload_plan" where
  "diff_plan new r =
     (let live = map_of (pr_tasks r)
      in \<lparr>rp_add = sort (map pj_id (filter (\<lambda>j. live (pj_id j) = None) (pc_jobs new))),
          rp_replace = sort (map pj_id (filter (\<lambda>j. case live (pj_id j) of None \<Rightarrow> False | Some t \<Rightarrow> \<not> same_shape (jt_job t) j) (pc_jobs new))),
          rp_remove = sort (filter (\<lambda>i. \<not> (\<exists>j \<in> set (pc_jobs new). pj_id j = i)) (map fst (pr_tasks r))),
          rp_keep = sort (map pj_id (filter (\<lambda>j. case live (pj_id j) of None \<Rightarrow> False | Some t \<Rightarrow> same_shape (jt_job t) j) (pc_jobs new)))\<rparr>)"

definition cancel_job :: "string \<Rightarrow> 'y poll_runner \<Rightarrow> 'y poll_runner" where
  "cancel_job i r =
     (case map_of (pr_tasks r) i of
        None \<Rightarrow> r
      | Some t \<Rightarrow> r\<lparr>pr_tasks := AList.delete i (pr_tasks r), pr_running := filter (\<lambda>(n, _). n \<noteq> jt_handle t) (pr_running r)\<rparr>)"

text \<open>A \<open>HashMap\<close> collected from the jobs: of two with one id the later.\<close>

definition lookup_jobs :: "'y pollers_config \<Rightarrow> string list \<Rightarrow> 'y poller_job list" where
  "lookup_jobs cfg ids = List.map_filter (map_of (rev (map (\<lambda>j. (pj_id j, j)) (pc_jobs cfg)))) ids"

fun validate_all :: "'y runner_deps \<Rightarrow> 'y poller_job list \<Rightarrow> 'y poll_runner \<Rightarrow> runner_error + unit" where
  "validate_all d [] r = Inr ()"
| "validate_all d (job # jobs) r =
     (case validate_job d job r of Inl e \<Rightarrow> Inl (InJob (pj_id job) e) | Inr _ \<Rightarrow> validate_all d jobs r)"

definition reload_runner ::
  "'y runner_deps \<Rightarrow> 'y pollers_config \<Rightarrow> 'y poll_runner \<Rightarrow> (runner_error + reload_plan) \<times> 'y poll_runner" where
  "reload_runner d new r =
     (case validate_all d (pc_jobs new) r of
        Inl e \<Rightarrow> (Inl e, r)
      | Inr _ \<Rightarrow>
          let plan = diff_plan new r;
              r1 = fold cancel_job (rp_remove plan @ rp_replace plan) r;
              r2 = r1\<lparr>pr_cfg := new\<rparr>
          in (Inr plan, spawn_all d new (lookup_jobs new (rp_add plan @ rp_replace plan)) r2))"

subsection \<open>Administration\<close>

definition assert_known :: "string \<Rightarrow> 'y poll_runner \<Rightarrow> runner_error + unit" where
  "assert_known i r = (if \<exists>j \<in> set (pc_jobs (pr_cfg r)). pj_id j = i then Inr () else Inl (UnknownJob i))"

definition state_call ::
  "(poll_db \<Rightarrow> (unit + unit) \<times> poll_db) \<Rightarrow> 'y poll_runner \<Rightarrow> (runner_error + unit) \<times> 'y poll_runner" where
  "state_call f r = (case f (pr_db r) of (Inl _, s) \<Rightarrow> (Inl StateError, r\<lparr>pr_db := s\<rparr>) | (Inr _, s) \<Rightarrow> (Inr (), r\<lparr>pr_db := s\<rparr>))"

definition runner_set_paused ::
  "'y runner_deps \<Rightarrow> string \<Rightarrow> bool \<Rightarrow> int \<Rightarrow> 'y poll_runner \<Rightarrow> (runner_error + unit) \<times> 'y poll_runner" where
  "runner_set_paused d i p now r =
     (case assert_known i r of Inl e \<Rightarrow> (Inl e, r) | Inr _ \<Rightarrow> state_call (poll_set_paused (rd_db d) i p now) r)"

definition runner_reset_cursor ::
  "'y runner_deps \<Rightarrow> string \<Rightarrow> int \<Rightarrow> 'y poll_runner \<Rightarrow> (runner_error + unit) \<times> 'y poll_runner" where
  "runner_reset_cursor d i now r =
     (case assert_known i r of Inl e \<Rightarrow> (Inl e, r) | Inr _ \<Rightarrow> state_call (reset_cursor (rd_db d) i now) r)"

record job_view =
  jw_id :: string
  jw_kind :: string
  jw_agent :: string
  jw_paused :: bool
  jw_last_run_at_ms :: "int option"
  jw_next_run_at_ms :: "int option"
  jw_last_status :: "string option"
  jw_last_error :: "string option"
  jw_consecutive_errors :: int
  jw_items_seen_total :: int
  jw_items_dispatched_total :: int

definition job_view_of :: "'y poller_job \<Rightarrow> job_snapshot \<Rightarrow> job_view" where
  "job_view_of j s =
     \<lparr>jw_id = pj_id j, jw_kind = pj_kind j, jw_agent = pj_agent j, jw_paused = js_paused s, jw_last_run_at_ms = js_last_run_at_ms s,
      jw_next_run_at_ms = js_next_run_at_ms s, jw_last_status = js_last_status s, jw_last_error = js_last_error s,
      jw_consecutive_errors = js_consecutive_errors s, jw_items_seen_total = js_items_seen_total s,
      jw_items_dispatched_total = js_items_dispatched_total s\<rparr>"

definition list_jobs :: "'y runner_deps \<Rightarrow> 'y poll_runner \<Rightarrow> runner_error + job_view list" where
  "list_jobs d r =
     collect_results (map (\<lambda>j.
       case poll_load (rd_db d) (pj_id j) (pr_db r) of
         Inl _ \<Rightarrow> Inl StateError
       | Inr snap \<Rightarrow> Inr (job_view_of j (case snap of None \<Rightarrow> default_job_snapshot | Some s \<Rightarrow> s))) (pc_jobs (pr_cfg r)))"

text \<open>An out-of-band tick: neither the lease nor the breaker nor the pause is asked, and nothing of the outcome is stored.  What it does
  outside is returned beside the result.\<close>

definition run_once ::
  "'y runner_deps \<Rightarrow> string \<Rightarrow> int \<Rightarrow> u64 \<Rightarrow> 'y poll_runner \<Rightarrow> (runner_error + tick_ack) \<times> poll_effect list" where
  "run_once d i now elapsed r =
     (case find (\<lambda>j. pj_id j = i) (pc_jobs (pr_cfg r)) of
        None \<Rightarrow> (Inl (UnknownJob i), [])
      | Some job \<Rightarrow>
          (case map_of (pr_pollers r) (pj_kind job) of
             None \<Rightarrow> (Inl (KindNotRegistered (pj_kind job)), [])
           | Some kind \<Rightarrow>
               (case rd_schedule d (pj_schedule job) of
                  Inl e \<Rightarrow> (Inl (InvalidSchedule i e), [])
                | Inr sched \<Rightarrow>
                    (case poll_load (rd_db d) i (pr_db r) of
                       Inl _ \<Rightarrow> (Inl StateError, [])
                     | Inr snap \<Rightarrow>
                         let cx = \<lparr>cx_job_id = pj_id job, cx_agent_id = pj_agent job, cx_kind = pv_kind kind,
                                   cx_config = rd_json d (pj_config job),
                                   cx_cursor = js_cursor (case snap of None \<Rightarrow> default_job_snapshot | Some s \<Rightarrow> s),
                                   cx_now = now, cx_interval_hint = nominal_interval sched\<rparr>
                         in (case pv_tick kind cx of
                               Inr ack \<Rightarrow>
                                 let m = (case ta_metrics ack of None \<Rightarrow> default_tick_metrics | Some m \<Rightarrow> m)
                                 in (Inr ack, [Ticked cx, ObserveLatency elapsed, IncTick ''ok'', AddItemsSeen (tm_items_seen m),
                                               AddItemsDispatched (tm_items_dispatched m)])
                             | Inl e \<Rightarrow> (Inl (TickFailed e), [Ticked cx, ObserveLatency elapsed]))))))"

subsection \<open>The endpoint\<close>

text \<open>Bodies are the JSON values that are rendered; the text of an error and how the views render are arguments.\<close>

record 'y admin_deps =
  ad_runner :: "'y runner_deps"
  ad_error :: "runner_error \<Rightarrow> string"
  ad_views :: "job_view list \<Rightarrow> json"
  ad_view :: "job_view \<Rightarrow> json"
  ad_number :: "u32 \<Rightarrow> string"

datatype 'y config_source = NoFile string | ReadFailed string | BadPlaceholder string | BadYaml string | Loaded "'y pollers_config"

definition error_body :: "string \<Rightarrow> json" where
  "error_body e = JObject [(''error'', JString e)]"

definition failed_body :: "string \<Rightarrow> json" where
  "failed_body e = JObject [(''ok'', JBool False), (''error'', JString e)]"

definition admin_list :: "'y admin_deps \<Rightarrow> 'y poll_runner \<Rightarrow> nat \<times> json" where
  "admin_list d r =
     (case list_jobs (ad_runner d) r of Inr jobs \<Rightarrow> (200, ad_views d jobs) | Inl e \<Rightarrow> (500, error_body (ad_error d e)))"

definition admin_get_one :: "'y admin_deps \<Rightarrow> string \<Rightarrow> 'y poll_runner \<Rightarrow> nat \<times> json" where
  "admin_get_one d i r =
     (case list_jobs (ad_runner d) r of
        Inr jobs \<Rightarrow>
          (case find (\<lambda>j. jw_id j = i) jobs of
             Some j \<Rightarrow> (200, ad_view d j)
           | None \<Rightarrow> (404, error_body (''job '' @ [CHR 0x27] @ i @ [CHR 0x27] @ '' not found'')))
      | Inl e \<Rightarrow> (500, error_body (ad_error d e)))"

definition done_body :: "(string \<times> json) list \<Rightarrow> json" where
  "done_body extra = JObject ((''ok'', JBool True) # extra)"

definition answer ::
  "'y admin_deps \<Rightarrow> (string \<times> json) list \<Rightarrow> (runner_error + unit) \<times> 'y poll_runner \<Rightarrow> (nat \<times> json) \<times> 'y poll_runner" where
  "answer d extra res =
     (case res of
        (Inr _, r) \<Rightarrow> ((200, done_body extra), r)
      | (Inl e, r) \<Rightarrow> ((400, failed_body (ad_error d e)), r))"

definition admin_action ::
  "'y admin_deps \<Rightarrow> string \<Rightarrow> string \<Rightarrow> string \<Rightarrow> int \<Rightarrow> 'y poll_runner \<Rightarrow> (nat \<times> json) \<times> 'y poll_runner" where
  "admin_action d method i action now r =
     (if method \<noteq> ''POST'' then ((405, error_body ''POST required''), r)
      else if action = ''run'' then
        (case fst (run_once (ad_runner d) i (now * ns_per_ms) 0 r) of
           Inr ack \<Rightarrow>
             let m = (case ta_metrics ack of None \<Rightarrow> default_tick_metrics | Some m \<Rightarrow> m)
             in ((200, done_body [(''items_seen'', JNumber (ad_number d (tm_items_seen m))),
                                 (''items_dispatched'', JNumber (ad_number d (tm_items_dispatched m)))]), r)
         | Inl e \<Rightarrow> ((400, failed_body (ad_error d e)), r))
      else if action = ''pause'' then answer d [(''paused'', JBool True)] (runner_set_paused (ad_runner d) i True now r)
      else if action = ''resume'' then answer d [(''paused'', JBool False)] (runner_set_paused (ad_runner d) i False now r)
      else if action = ''reset'' then answer d [(''reset'', JBool True)] (runner_reset_cursor (ad_runner d) i now r)
      else ((404, error_body (''unknown action '' @ [CHR 0x27] @ action @ [CHR 0x27])), r))"

definition string_array :: "string list \<Rightarrow> json" where
  "string_array xs = JArray (map JString xs)"

definition admin_reload :: "'y admin_deps \<Rightarrow> 'y config_source \<Rightarrow> 'y poll_runner \<Rightarrow> (nat \<times> json) \<times> 'y poll_runner" where
  "admin_reload d src r =
     (case src of
        NoFile path \<Rightarrow> ((404, error_body (path @ '' not found'')), r)
      | ReadFailed e \<Rightarrow> ((500, error_body e), r)
      | BadPlaceholder e \<Rightarrow> ((400, error_body e), r)
      | BadYaml e \<Rightarrow> ((400, error_body e), r)
      | Loaded cfg \<Rightarrow>
          (case reload_runner (ad_runner d) cfg r of
             (Inr plan, r') \<Rightarrow>
               ((200, done_body [(''add'', string_array (rp_add plan)), (''replace'', string_array (rp_replace plan)),
                                 (''remove'', string_array (rp_remove plan)), (''keep'', string_array (rp_keep plan))]), r')
           | (Inl e, r') \<Rightarrow> ((400, failed_body (ad_error d e)), r')))"

text \<open>\<open>strip_prefix\<close> and \<open>split_once('/')\<close>.\<close>

definition strip_prefix :: "string \<Rightarrow> string \<Rightarrow> string option" where
  "strip_prefix p s = (if take (length p) s = p then Some (drop (length p) s) else None)"

definition split_once :: "char \<Rightarrow> string \<Rightarrow> (string \<times> string) option" where
  "split_once c s = (if c \<in> set s then Some (takeWhile (\<lambda>x. x \<noteq> c) s, tl (dropWhile (\<lambda>x. x \<noteq> c) s)) else None)"

text \<open>\<open>upper\<close> is \<open>to_uppercase\<close>.\<close>

definition admin_dispatch ::
  "(string \<Rightarrow> string) \<Rightarrow> 'y admin_deps \<Rightarrow> 'y config_source \<Rightarrow> int \<Rightarrow> string \<Rightarrow> string \<Rightarrow> 'y poll_runner \<Rightarrow>
     (nat \<times> json) option \<times> 'y poll_runner" where
  "admin_dispatch upper d src now method path r =
     (let m = upper method
      in if path = ''/admin/pollers'' \<and> m = ''GET'' then (Some (admin_list d r), r)
         else if path = ''/admin/pollers/reload'' \<and> m = ''POST'' then map_prod Some id (admin_reload d src r)
         else case strip_prefix ''/admin/pollers/'' path of
                None \<Rightarrow> (None, r)
              | Some rest \<Rightarrow>
                  (case split_once (CHR ''/'') rest of
                     Some (i, action) \<Rightarrow> map_prod Some id (admin_action d m i action now r)
                   | None \<Rightarrow> if m = ''GET'' then (Some (admin_get_one d rest r), r) else (None, r)))"

subsection \<open>One running task per configured job\<close>

text \<open>The table and the tasks that run agree: a task runs exactly if the table holds it, under its job's id and with its own number.\<close>

definition runner_inv :: "'y poll_runner \<Rightarrow> bool" where
  "runner_inv r \<longleftrightarrow> wf_table (pr_tasks r) \<and>
     (\<forall>k t. map_of (pr_tasks r) k = Some t \<longrightarrow> pj_id (jt_job t) = k \<and> jt_handle t < pr_next r) \<and>
     (\<forall>k k' t t'. map_of (pr_tasks r) k = Some t \<longrightarrow> map_of (pr_tasks r) k' = Some t' \<longrightarrow> jt_handle t = jt_handle t' \<longrightarrow> k = k') \<and>
     (\<forall>n tc. (n, tc) \<in> set (pr_running r) \<longrightarrow>
        map_of (pr_tasks r) (pj_id (tc_job tc)) = Some \<lparr>jt_job = tc_job tc, jt_handle = n\<rparr>) \<and>
     (\<forall>k t. map_of (pr_tasks r) k = Some t \<longrightarrow> (\<exists>tc. (jt_handle t, tc) \<in> set (pr_running r) \<and> tc_job tc = jt_job t)) \<and>
     distinct (map fst (pr_running r))"

lemma runner_invD:
  assumes "runner_inv r"
  shows "map_of (pr_tasks r) k = Some t \<Longrightarrow> pj_id (jt_job t) = k"
    and "map_of (pr_tasks r) k = Some t \<Longrightarrow> jt_handle t < pr_next r"
    and "map_of (pr_tasks r) k = Some t \<Longrightarrow> map_of (pr_tasks r) k' = Some t' \<Longrightarrow> jt_handle t = jt_handle t' \<Longrightarrow> k = k'"
    and "(n, tc) \<in> set (pr_running r) \<Longrightarrow> map_of (pr_tasks r) (pj_id (tc_job tc)) = Some \<lparr>jt_job = tc_job tc, jt_handle = n\<rparr>"
    and "map_of (pr_tasks r) k = Some t \<Longrightarrow> \<exists>tc. (jt_handle t, tc) \<in> set (pr_running r) \<and> tc_job tc = jt_job t"
    and "wf_table (pr_tasks r)" and "distinct (map fst (pr_running r))"
  using assms unfolding runner_inv_def by blast+

lemma new_runner_inv [inv_rules]: "runner_inv (new_runner cfg db h)"
  by (simp add: runner_inv_def new_runner_def)

lemma cancel_job_view:
  "map_of (pr_tasks (cancel_job i r)) = (map_of (pr_tasks r))(i := None)"
  "pr_next (cancel_job i r) = pr_next r" "pr_pollers (cancel_job i r) = pr_pollers r" "pr_db (cancel_job i r) = pr_db r"
  by (auto simp: cancel_job_def table_simps fun_eq_iff split: option.split)

lemma cancel_job_inv:
  assumes "runner_inv r"
  shows "runner_inv (cancel_job i r)"
proof (cases "map_of (pr_tasks r) i")
  case None
  with assms show ?thesis by (simp add: cancel_job_def)
next
  case (Some t)
  have run: "set (pr_running (cancel_job i r)) = {(n, tc) \<in> set (pr_running r). n \<noteq> jt_handle t}"
    using Some by (auto simp: cancel_job_def)
  have d: "distinct (map fst (pr_running (cancel_job i r)))"
    using assms Some by (simp add: runner_inv_def cancel_job_def distinct_map_filter)
  have w: "wf_table (pr_tasks (cancel_job i r))"
    using assms Some by (simp add: runner_inv_def cancel_job_def)
  have other: "map_of (pr_tasks (cancel_job i r)) (pj_id (tc_job tc)) = Some \<lparr>jt_job = tc_job tc, jt_handle = n\<rparr>"
    if "(n, tc) \<in> set (pr_running (cancel_job i r))" for n tc
  proof -
    have m: "map_of (pr_tasks r) (pj_id (tc_job tc)) = Some \<lparr>jt_job = tc_job tc, jt_handle = n\<rparr>"
      using assms that run by (auto simp: runner_inv_def)
    moreover have "pj_id (tc_job tc) \<noteq> i" using m Some that run by auto
    ultimately show ?thesis by (simp add: cancel_job_view)
  qed
  have held: "\<exists>tc. (jt_handle u, tc) \<in> set (pr_running (cancel_job i r)) \<and> tc_job tc = jt_job u"
    if "map_of (pr_tasks (cancel_job i r)) k = Some u" for k u
  proof -
    have u: "map_of (pr_tasks r) k = Some u" "k \<noteq> i" using that by (auto simp: cancel_job_view split: if_splits)
    then obtain tc where "(jt_handle u, tc) \<in> set (pr_running r)" "tc_job tc = jt_job u"
      using runner_invD(5) [OF assms u(1)] by blast
    moreover have "jt_handle u \<noteq> jt_handle t" using runner_invD(3) [OF assms u(1) Some] u(2) by blast
    ultimately show ?thesis using run by auto
  qed
  have keys: "pj_id (jt_job u) = k \<and> jt_handle u < pr_next (cancel_job i r)"
    if "map_of (pr_tasks (cancel_job i r)) k = Some u" for k u
    using that assms by (auto simp: cancel_job_view runner_inv_def split: if_splits)
  have inj: "k = k'"
    if "map_of (pr_tasks (cancel_job i r)) k = Some u" "map_of (pr_tasks (cancel_job i r)) k' = Some u'" "jt_handle u = jt_handle u'" for k k' u u'
  proof -
    have "map_of (pr_tasks r) k = Some u" "map_of (pr_tasks r) k' = Some u'"
      using that(1,2) by (auto simp: cancel_job_view split: if_splits)
    with assms that(3) show ?thesis unfolding runner_inv_def by blast
  qed
  show ?thesis
    unfolding runner_inv_def using w d other held keys inj by blast
qed

lemma fold_cancel:
  "runner_inv r \<Longrightarrow> runner_inv (fold cancel_job ids r)"
  "map_of (pr_tasks (fold cancel_job ids r)) k = (if k \<in> set ids then None else map_of (pr_tasks r) k)"
  "pr_next (fold cancel_job ids r) = pr_next r" "pr_pollers (fold cancel_job ids r) = pr_pollers r"
  by (induction ids arbitrary: r) (auto simp: cancel_job_inv cancel_job_view)

text \<open>A job \<open>spawn_job\<close> will not skip.\<close>

definition startable :: "'y runner_deps \<Rightarrow> 'y poll_runner \<Rightarrow> 'y poller_job \<Rightarrow> bool" where
  "startable d r job \<longleftrightarrow> map_of (pr_pollers r) (pj_kind job) \<noteq> None \<and> isl (rd_schedule d (pj_schedule job)) = False"

lemma validated_startable: "validate_job d job r = Inr x \<Longrightarrow> startable d r job"
  by (auto simp: validate_job_def startable_def split: option.splits sum.splits)

lemma validate_all_startable: "validate_all d jobs r = Inr x \<Longrightarrow> job \<in> set jobs \<Longrightarrow> startable d r job"
  by (induction jobs) (auto split: sum.splits dest: validated_startable)

lemma spawn_job_view:
  assumes "startable d r job"
  shows "map_of (pr_tasks (spawn_job d job cfg r)) = (map_of (pr_tasks r))(pj_id job \<mapsto> \<lparr>jt_job = job, jt_handle = pr_next r\<rparr>)"
    and "pr_next (spawn_job d job cfg r) = Suc (pr_next r)"
    and "pr_pollers (spawn_job d job cfg r) = pr_pollers r"
    and "\<exists>tc. tc_job tc = job \<and> pr_running (spawn_job d job cfg r) = pr_running r @ [(pr_next r, tc)]"
  using assms by (auto simp: startable_def spawn_job_def Let_def table_simps split: option.split sum.split)

lemma spawn_job_inv:
  assumes "runner_inv r" "startable d r job" "map_of (pr_tasks r) (pj_id job) = None"
  shows "runner_inv (spawn_job d job cfg r)"
proof -
  let ?r = "spawn_job d job cfg r"
  note v = spawn_job_view [OF assms(2), of cfg]
  obtain tc where tc: "tc_job tc = job" "pr_running ?r = pr_running r @ [(pr_next r, tc)]" using v(4) by blast
  have below: "n < pr_next r" if "(n, t) \<in> set (pr_running r)" for n t
    using assms(1) that by (fastforce simp: runner_inv_def)
  have fresh: "pr_next r \<notin> fst ` set (pr_running r)"
  proof
    assume "pr_next r \<in> fst ` set (pr_running r)"
    then obtain t where "(pr_next r, t) \<in> set (pr_running r)" by auto
    from below [OF this] show False by simp
  qed
  have w: "wf_table (pr_tasks ?r)"
    using assms(1,2) by (auto simp: startable_def spawn_job_def Let_def runner_inv_def split: option.split sum.split)
  have d: "distinct (map fst (pr_running ?r))"
    using assms(1) fresh by (simp add: tc(2) runner_inv_def)
  have keys: "pj_id (jt_job u) = k \<and> jt_handle u < pr_next ?r" if "map_of (pr_tasks ?r) k = Some u" for k u
    using that assms(1) by (auto simp: v runner_inv_def less_Suc_eq split: if_splits)
  have old: "jt_handle u \<noteq> pr_next r" if "map_of (pr_tasks r) k = Some u" for k u
  proof -
    have "jt_handle u < pr_next r" using assms(1) that unfolding runner_inv_def by blast
    then show ?thesis by simp
  qed
  have inj: "k = k'" if "map_of (pr_tasks ?r) k = Some u" "map_of (pr_tasks ?r) k' = Some u'" "jt_handle u = jt_handle u'" for k k' u u'
    using that runner_invD(3) [OF assms(1), of k u k' u'] old [of k u] old [of k' u'] by (auto simp: v split: if_splits)
  have other: "map_of (pr_tasks ?r) (pj_id (tc_job t)) = Some \<lparr>jt_job = tc_job t, jt_handle = n\<rparr>"
    if "(n, t) \<in> set (pr_running ?r)" for n t
    using that assms(3) tc runner_invD(4) [OF assms(1), of n t] by (auto simp: v)
  have held: "\<exists>t. (jt_handle u, t) \<in> set (pr_running ?r) \<and> tc_job t = jt_job u" if "map_of (pr_tasks ?r) k = Some u" for k u
  proof (cases "k = pj_id job")
    case True
    then show ?thesis using that tc by (auto simp: v)
  next
    case False
    then have "map_of (pr_tasks r) k = Some u" using that by (simp add: v)
    then show ?thesis using assms(1) by (fastforce simp: runner_inv_def tc(2))
  qed
  show ?thesis unfolding runner_inv_def using w d keys inj other held by blast
qed

lemma spawn_all_view:
  assumes "runner_inv r" "\<forall>j \<in> set jobs. startable d r j \<and> map_of (pr_tasks r) (pj_id j) = None" "distinct (map pj_id jobs)"
  shows "runner_inv (spawn_all d cfg jobs r) \<and>
    (\<forall>k. k \<notin> pj_id ` set jobs \<longrightarrow> map_of (pr_tasks (spawn_all d cfg jobs r)) k = map_of (pr_tasks r) k) \<and>
    (\<forall>j \<in> set jobs. \<exists>t. map_of (pr_tasks (spawn_all d cfg jobs r)) (pj_id j) = Some t \<and> jt_job t = j \<and> pr_next r \<le> jt_handle t) \<and>
    pr_cfg (spawn_all d cfg jobs r) = pr_cfg r"
  using assms
proof (induction jobs arbitrary: r)
  case (Cons job jobs)
  let ?r = "spawn_job d job cfg r"
  have st: "startable d r job" "map_of (pr_tasks r) (pj_id job) = None" using Cons.prems(2) by auto
  note v = spawn_job_view [OF st(1), of cfg]
  have "runner_inv ?r" by (rule spawn_job_inv [OF Cons.prems(1) st])
  moreover have "\<forall>j \<in> set jobs. startable d ?r j \<and> map_of (pr_tasks ?r) (pj_id j) = None"
    using Cons.prems(2,3) by (auto simp: startable_def v(1,3) image_iff)
  moreover have "distinct (map pj_id jobs)" using Cons.prems(3) by simp
  ultimately have IH: "runner_inv (spawn_all d cfg jobs ?r)"
    "\<And>k. k \<notin> pj_id ` set jobs \<Longrightarrow> map_of (pr_tasks (spawn_all d cfg jobs ?r)) k = map_of (pr_tasks ?r) k"
    "\<And>j. j \<in> set jobs \<Longrightarrow> \<exists>t. map_of (pr_tasks (spawn_all d cfg jobs ?r)) (pj_id j) = Some t \<and> jt_job t = j \<and> pr_next ?r \<le> jt_handle t"
    "pr_cfg (spawn_all d cfg jobs ?r) = pr_cfg ?r"
    using Cons.IH [of ?r] by blast+
  have "pj_id job \<notin> pj_id ` set jobs" using Cons.prems(3) by simp
  then have "\<exists>t. map_of (pr_tasks (spawn_all d cfg jobs ?r)) (pj_id job) = Some t \<and> jt_job t = job \<and> pr_next r \<le> jt_handle t"
    using IH(2) v(1) by simp
  moreover have "\<exists>t. map_of (pr_tasks (spawn_all d cfg jobs ?r)) (pj_id j) = Some t \<and> jt_job t = j \<and> pr_next r \<le> jt_handle t"
    if "j \<in> set jobs" for j
    using IH(3) [OF that] v(2) by (auto intro: Suc_leD)
  moreover have "pr_cfg ?r = pr_cfg r" by (simp add: spawn_job_def Let_def split: option.split sum.split)
  ultimately show ?case using IH(1,2,4) v(1) by auto
qed simp

lemma set_map_filter: "set (List.map_filter f xs) = {y. \<exists>x \<in> set xs. f x = Some y}"
  by (induction xs) (auto simp: List.map_filter_simps split: option.split)

lemma lookup_unique:
  assumes "distinct (map pj_id (pc_jobs cfg))"
  shows "map_of (rev (map (\<lambda>j. (pj_id j, j)) (pc_jobs cfg))) k = Some j \<longleftrightarrow> j \<in> set (pc_jobs cfg) \<and> pj_id j = k"
proof -
  have "distinct (map fst (rev (map (\<lambda>j. (pj_id j, j)) (pc_jobs cfg))))"
    using assms by (simp add: rev_map [symmetric] comp_def)
  from map_of_eq_Some_iff [OF this] show ?thesis by auto
qed

lemma lookup_jobs_ids:
  assumes "distinct (map pj_id (pc_jobs cfg))" "distinct ids"
  shows "set (lookup_jobs cfg ids) = {j \<in> set (pc_jobs cfg). pj_id j \<in> set ids}" "distinct (map pj_id (lookup_jobs cfg ids))"
proof -
  let ?f = "map_of (rev (map (\<lambda>j. (pj_id j, j)) (pc_jobs cfg)))"
  show "set (lookup_jobs cfg ids) = {j \<in> set (pc_jobs cfg). pj_id j \<in> set ids}"
    by (auto simp: lookup_jobs_def set_map_filter lookup_unique [OF assms(1)])
  have key: "pj_id y = x" if "?f x = Some y" for x y using that by (simp add: lookup_unique [OF assms(1)])
  have "pj_id ` set (List.map_filter ?f xs) \<subseteq> set xs" for xs
    unfolding set_map_filter using key by blast
  then have "distinct (map pj_id (List.map_filter ?f xs))" if "distinct xs" for xs
    using that
  proof (induction xs)
    case (Cons x xs)
    have "pj_id y \<notin> pj_id ` set (List.map_filter ?f xs)" if "?f x = Some y" for y
      using Cons.prems key [OF that] by auto
    with Cons show ?case by (simp add: List.map_filter_simps split: option.split)
  qed (simp add: List.map_filter_simps)
  from this [OF assms(2)] show "distinct (map pj_id (lookup_jobs cfg ids))" by (simp add: lookup_jobs_def)
qed

lemma same_shape_refl: "same_shape j j"
  by (simp add: same_shape_def)

text \<open>The four lists of a plan, over a configuration whose ids differ.\<close>

lemma diff_plan_sets:
  "set (rp_add (diff_plan new r)) = {pj_id j |j. j \<in> set (pc_jobs new) \<and> map_of (pr_tasks r) (pj_id j) = None}"
  "set (rp_remove (diff_plan new r)) = dom (map_of (pr_tasks r)) - pj_id ` set (pc_jobs new)"
  "set (rp_replace (diff_plan new r)) =
     {pj_id j |j t. j \<in> set (pc_jobs new) \<and> map_of (pr_tasks r) (pj_id j) = Some t \<and> \<not> same_shape (jt_job t) j}"
  "set (rp_keep (diff_plan new r)) =
     {pj_id j |j t. j \<in> set (pc_jobs new) \<and> map_of (pr_tasks r) (pj_id j) = Some t \<and> same_shape (jt_job t) j}"
  by (simp_all add: diff_plan_def Let_def dom_map_of_conv_image_fst)
    (auto split: option.splits)

lemma distinct_filter_map: "distinct (map f xs) \<Longrightarrow> distinct (map f (filter P xs))"
  by (simp add: distinct_map_filter)

lemma diff_plan_distinct:
  assumes "distinct (map pj_id (pc_jobs new))"
  shows "distinct (rp_add (diff_plan new r) @ rp_replace (diff_plan new r))"
proof -
  have "set (rp_add (diff_plan new r)) \<inter> set (rp_replace (diff_plan new r)) = {}"
    by (auto simp: diff_plan_sets)
  then show ?thesis
    using distinct_filter_map [OF assms] by (simp add: diff_plan_def Let_def)
qed

text \<open>Where a plan puts a job of the new file, if no two share an id.\<close>

lemma diff_plan_of_job:
  fixes r
  assumes "distinct (map pj_id (pc_jobs new))" "j \<in> set (pc_jobs new)"
  defines "same \<equiv> \<exists>t. map_of (pr_tasks r) (pj_id j) = Some t \<and> same_shape (jt_job t) j"
  shows "pj_id j \<in> set (rp_keep (diff_plan new r)) \<longleftrightarrow> same"
    and "pj_id j \<in> set (rp_add (diff_plan new r) @ rp_replace (diff_plan new r)) \<longleftrightarrow> \<not> same"
    and "pj_id j \<notin> set (rp_remove (diff_plan new r))"
proof -
  have uniq: "i = j" if "i \<in> set (pc_jobs new)" "pj_id i = pj_id j" for i
    using that assms(1,2) by (auto simp: distinct_map inj_on_def)
  have keep: "pj_id j \<in> set (rp_keep (diff_plan new r)) \<Longrightarrow> same"
  proof -
    assume "pj_id j \<in> set (rp_keep (diff_plan new r))"
    then obtain i v where i: "i \<in> set (pc_jobs new)" "pj_id j = pj_id i" "map_of (pr_tasks r) (pj_id i) = Some v" "same_shape (jt_job v) i"
      unfolding diff_plan_sets by blast
    from uniq [OF i(1) i(2) [symmetric]] i(3,4) show same by (auto simp: same_def)
  qed
  have change: "pj_id j \<in> set (rp_add (diff_plan new r) @ rp_replace (diff_plan new r)) \<Longrightarrow> \<not> same"
  proof -
    assume "pj_id j \<in> set (rp_add (diff_plan new r) @ rp_replace (diff_plan new r))"
    then consider "map_of (pr_tasks r) (pj_id j) = None" |
      i v where "i \<in> set (pc_jobs new)" "pj_id j = pj_id i" "map_of (pr_tasks r) (pj_id i) = Some v" "\<not> same_shape (jt_job v) i"
      unfolding set_append Un_iff diff_plan_sets by fastforce
    then show "\<not> same"
    proof cases
      case (2 i v)
      from uniq [OF 2(1) 2(2) [symmetric]] 2(3,4) show ?thesis by (auto simp: same_def)
    qed (simp add: same_def)
  qed
  have "same \<Longrightarrow> pj_id j \<in> set (rp_keep (diff_plan new r))"
    using assms(2) by (auto simp: same_def diff_plan_sets)
  with keep show "pj_id j \<in> set (rp_keep (diff_plan new r)) \<longleftrightarrow> same" by blast
  have "\<not> same \<Longrightarrow> pj_id j \<in> set (rp_add (diff_plan new r) @ rp_replace (diff_plan new r))"
    using assms(2) by (cases "map_of (pr_tasks r) (pj_id j)") (auto simp: same_def diff_plan_sets)
  with change show "pj_id j \<in> set (rp_add (diff_plan new r) @ rp_replace (diff_plan new r)) \<longleftrightarrow> \<not> same" by blast
  show "pj_id j \<notin> set (rp_remove (diff_plan new r))"
    using assms(2) by (simp add: diff_plan_sets(2))
qed

text \<open>What a successful reload does to the task of each id: a planned job gets a fresh one, the rest is cancelled or left alone.\<close>

lemma reload_view:
  fixes new r
  defines "p \<equiv> diff_plan new r"
  assumes "runner_inv r" and "distinct (map pj_id (pc_jobs new))" and "reload_runner d new r = (Inr plan, r')"
  shows "plan = p" and "runner_inv r'" and "pr_cfg r' = new"
    and "k \<notin> set (rp_add p @ rp_replace p) \<Longrightarrow>
      map_of (pr_tasks r') k = (if k \<in> set (rp_remove p @ rp_replace p) then None else map_of (pr_tasks r) k)"
    and "k \<in> set (rp_add p @ rp_replace p) \<Longrightarrow> k \<in> pj_id ` set (pc_jobs new)"
    and "j \<in> set (pc_jobs new) \<Longrightarrow> pj_id j \<in> set (rp_add p @ rp_replace p) \<Longrightarrow>
      \<exists>t. map_of (pr_tasks r') (pj_id j) = Some t \<and> jt_job t = j \<and> pr_next r \<le> jt_handle t"
proof -
  let ?ids = "rp_add p @ rp_replace p" and ?gone = "rp_remove p @ rp_replace p"
  define r2 where "r2 = fold cancel_job ?gone r\<lparr>pr_cfg := new\<rparr>"
  define jobs where "jobs = lookup_jobs new ?ids"
  obtain u where val: "validate_all d (pc_jobs new) r = Inr u"
    using assms(4) by (auto simp: reload_runner_def split: sum.splits)
  then show "plan = p" using assms(4) by (auto simp: reload_runner_def Let_def p_def)
  have r': "r' = spawn_all d new jobs r2"
    using assms(4) val by (auto simp: reload_runner_def Let_def r2_def jobs_def p_def)
  have inv2: "runner_inv r2" using fold_cancel(1) [OF assms(2), of ?gone] by (simp add: r2_def runner_inv_def)
  have t2: "map_of (pr_tasks r2) k = (if k \<in> set ?gone then None else map_of (pr_tasks r) k)" for k
    using fold_cancel(2) [of ?gone r k] by (simp add: r2_def)
  have n2: "pr_next r2 = pr_next r" "pr_pollers r2 = pr_pollers r" "pr_cfg r2 = new"
    by (simp_all add: r2_def fold_cancel(3,4))
  note ids = lookup_jobs_ids [OF assms(3) diff_plan_distinct [OF assms(3), of r, folded p_def], folded jobs_def]
  have "startable d r2 j \<and> map_of (pr_tasks r2) (pj_id j) = None" if "j \<in> set jobs" for j
  proof -
    have j: "j \<in> set (pc_jobs new)" "pj_id j \<in> set ?ids" using that ids(1) by auto
    have "startable d r2 j" using validate_all_startable [OF val j(1)] by (simp add: startable_def n2)
    moreover have "map_of (pr_tasks r2) (pj_id j) = None" using j(2) by (auto simp: t2 p_def diff_plan_sets(1))
    ultimately show ?thesis ..
  qed
  then have "\<forall>j \<in> set jobs. startable d r2 j \<and> map_of (pr_tasks r2) (pj_id j) = None" by blast
  from spawn_all_view [OF inv2 this ids(2), of new, folded r'] n2(3)
  have spawned: "\<And>k. k \<notin> pj_id ` set jobs \<Longrightarrow> map_of (pr_tasks r') k = map_of (pr_tasks r2) k"
    "\<And>j. j \<in> set jobs \<Longrightarrow> \<exists>t. map_of (pr_tasks r') (pj_id j) = Some t \<and> jt_job t = j \<and> pr_next r2 \<le> jt_handle t"
    and "runner_inv r'" "pr_cfg r' = new" by simp_all
  then show "runner_inv r'" "pr_cfg r' = new" by simp_all
  show "k \<in> set ?ids \<Longrightarrow> k \<in> pj_id ` set (pc_jobs new)" by (auto simp: p_def diff_plan_sets)
  show "map_of (pr_tasks r') k = (if k \<in> set ?gone then None else map_of (pr_tasks r) k)" if "k \<notin> set ?ids"
  proof -
    have "k \<notin> pj_id ` set jobs" using that unfolding ids(1) by auto
    then show ?thesis using spawned(1) t2 by simp
  qed
  show "\<exists>t. map_of (pr_tasks r') (pj_id j) = Some t \<and> jt_job t = j \<and> pr_next r \<le> jt_handle t"
    if "j \<in> set (pc_jobs new)" "pj_id j \<in> set ?ids"
    using spawned(2) [of j] that unfolding ids(1) n2(1) by simp
qed


definition sample_job :: "string \<Rightarrow> nat \<Rightarrow> nat poller_job" where
  "sample_job i every =
     \<lparr>pj_id = i, pj_kind = ''rss'', pj_agent = ''ana'', pj_schedule = every, pj_config = 0, pj_failure_to = None,
      pj_paused_on_boot = False, pj_extra = []\<rparr>"

definition sample_cfg :: "nat poller_job list \<Rightarrow> nat pollers_config" where
  "sample_cfg jobs =
     \<lparr>pc_enabled = True, pc_default_jitter_ms = 0, pc_failure_alert_cooldown_secs = 3600, pc_breaker_threshold = 5, pc_jobs = jobs\<rparr>"

definition sample_runner_deps :: "nat runner_deps" where
  "sample_runner_deps =
     \<lparr>rd_schedule = (\<lambda>n. Inr (EverySchedule (of_nat n) None)), rd_json = (\<lambda>_. JNull), rd_db = (\<lambda>_. True)\<rparr>"

definition sample_runner :: "nat pollers_config \<Rightarrow> nat poll_runner" where
  "sample_runner cfg =
     register_poller \<lparr>pv_kind = ''rss'', pv_validate = (\<lambda>_. Inr ()), pv_tick = (\<lambda>_. Inl (OtherError []))\<rparr>
       (new_runner cfg empty_poll_db ''pid-1'')"

lemmas sample_runner_defs = sample_job_def sample_cfg_def sample_runner_deps_def sample_runner_def register_poller_def new_runner_def

lemma sample_reload_ok:
  "\<exists>plan r'. reload_runner sample_runner_deps (sample_cfg [sample_job ''a'' 60, sample_job ''b'' 30]) (sample_runner (sample_cfg [])) =
     (Inr plan, r')"
  by (simp add: reload_runner_def validate_job_def sample_runner_defs Let_def)


text \<open>Nothing checks that ids differ.  Two jobs with one id are both started; the table knows only the second, so no reload can
  cancel the first.\<close>

lemma duplicate_ids_leave_a_task_behind:
  "let r = snd (start_runner sample_runner_deps 0 (sample_runner (sample_cfg [sample_job ''a'' 60, sample_job ''a'' 30])));
       r' = snd (reload_runner sample_runner_deps (sample_cfg []) r)
   in map fst (pr_running r) = [0, 1] \<and> pr_tasks r' = [] \<and> map fst (pr_running r') = [0]"
  by (simp add: start_runner_def chain_def validate_job_def spawn_job_def reload_runner_def diff_plan_def cancel_job_def lookup_jobs_def
      List.map_filter_simps sample_runner_defs Let_def)

text \<open>A kept task goes on with the settings it was started with, whatever the new file says of the thresholds.\<close>

lemma fold_cancel_running:
  "\<forall>i \<in> set ids. \<forall>t. map_of (pr_tasks r) i = Some t \<longrightarrow> jt_handle t \<noteq> n \<Longrightarrow> (n, tc) \<in> set (pr_running r) \<Longrightarrow>
     (n, tc) \<in> set (pr_running (fold cancel_job ids r))"
proof (induction ids arbitrary: r)
  case (Cons i ids)
  have "(n, tc) \<in> set (pr_running (cancel_job i r))"
    using Cons.prems by (auto simp: cancel_job_def split: option.split)
  moreover have "\<forall>k \<in> set ids. \<forall>t. map_of (pr_tasks (cancel_job i r)) k = Some t \<longrightarrow> jt_handle t \<noteq> n"
    using Cons.prems(1) by (auto simp: cancel_job_view)
  ultimately show ?case using Cons.IH [of "cancel_job i r"] by simp
qed simp

lemma spawn_all_running: "p \<in> set (pr_running r) \<Longrightarrow> p \<in> set (pr_running (spawn_all d cfg jobs r))"
  by (induction jobs arbitrary: r) (auto simp: spawn_job_def Let_def split: option.split sum.split)

lemma kept_task_keeps_its_settings:
  assumes "runner_inv r" "reload_runner d new r = (Inr plan, r')"
    and "k \<in> set (rp_keep plan)" "k \<notin> set (rp_replace plan)" "map_of (pr_tasks r) k = Some t" "(jt_handle t, tc) \<in> set (pr_running r)"
  shows "(jt_handle t, tc) \<in> set (pr_running r')"
proof -
  let ?gone = "rp_remove (diff_plan new r) @ rp_replace (diff_plan new r)"
  have plan: "plan = diff_plan new r"
    and r': "r' = spawn_all d new (lookup_jobs new (rp_add plan @ rp_replace plan)) (fold cancel_job ?gone r\<lparr>pr_cfg := new\<rparr>)"
    using assms(2) by (auto simp: reload_runner_def Let_def split: sum.splits)
  have "\<forall>i \<in> set ?gone. \<forall>u. map_of (pr_tasks r) i = Some u \<longrightarrow> jt_handle u \<noteq> jt_handle t"
  proof (intro ballI allI impI notI)
    fix i u assume i: "i \<in> set ?gone" "map_of (pr_tasks r) i = Some u" "jt_handle u = jt_handle t"
    have "i = k" by (rule runner_invD(3) [OF assms(1) i(2) assms(5) i(3)])
    with i(1) assms(3,4) show False by (auto simp: plan diff_plan_sets)
  qed
  from fold_cancel_running [OF this assms(6)] show ?thesis by (simp add: r' spawn_all_running)
qed

end
