(* ===== verification/Mcp_Concurrency.thy ===== *)
theory Mcp_Concurrency
  imports Prelude
begin

section \<open>The MCP server's cap on calls in flight (\<open>crates/mcp/src/server/per_principal_concurrency.rs\<close>)\<close>

text \<open>
  One semaphore per (tenant, tool), made on first use and dropped again when the table is full or the entry is stale, but only while no
  call holds one of its permits.  Of tokio's semaphore the model uses what its documentation promises: at most as many permits are out
  as it was made with, and a permit that is given back goes to the first waiter if there is one.  A semaphore is known by its number, so
  that a holder of the \<open>Arc\<close> can be told from the entry the table has now.
\<close>

subsection \<open>Configuration\<close>

record per_tool_concurrency =
  pt_max_in_flight :: u32
  pt_timeout_secs :: "64 word option"

record concurrency_config =
  cc_enabled :: bool
  cc_default :: per_tool_concurrency
  cc_per_tool :: "(string, per_tool_concurrency) table"
  cc_default_timeout_secs :: "64 word"
  cc_queue_wait_ms :: "64 word"
  cc_max_buckets :: nat
  cc_stale_ttl_secs :: nat

definition MAX_IN_FLIGHT_HARD_CAP :: u32 where "MAX_IN_FLIGHT_HARD_CAP = 10000"
definition MAX_TIMEOUT_SECS :: "64 word" where "MAX_TIMEOUT_SECS = 600"

definition default_concurrency :: concurrency_config where
  "default_concurrency =
     \<lparr>cc_enabled = True, cc_default = \<lparr>pt_max_in_flight = 10, pt_timeout_secs = None\<rparr>, cc_per_tool = [],
      cc_default_timeout_secs = 30, cc_queue_wait_ms = 5000, cc_max_buckets = 50000, cc_stale_ttl_secs = 300\<rparr>"

datatype config_label = LabelDefault | LabelPerTool string

datatype config_error =
    InFlightZero config_label
  | InFlightBeyond config_label u32
  | TimeoutZero config_label
  | TimeoutBeyond config_label "64 word"
  | DefaultTimeoutZero
  | DefaultTimeoutBeyond "64 word"
  | NoBuckets
  | NoStaleTtl
  | QueueWaitBeyond "64 word" "64 word"

definition check_in_flight :: "config_label \<Rightarrow> u32 \<Rightarrow> config_error + unit" where
  "check_in_flight l n =
     (if n = 0 then Inl (InFlightZero l) else if MAX_IN_FLIGHT_HARD_CAP < n then Inl (InFlightBeyond l n) else Inr ())"

definition check_timeout :: "config_label \<Rightarrow> 64 word \<Rightarrow> config_error + unit" where
  "check_timeout l s =
     (if s = 0 then Inl (TimeoutZero l) else if MAX_TIMEOUT_SECS < s then Inl (TimeoutBeyond l s) else Inr ())"

definition check_tool :: "config_label \<Rightarrow> per_tool_concurrency \<Rightarrow> config_error + unit" where
  "check_tool l pt =
     and_then (check_in_flight l (pt_max_in_flight pt))
       (\<lambda>_. case pt_timeout_secs pt of None \<Rightarrow> Inr () | Some s \<Rightarrow> check_timeout l s)"

fun check_tools :: "(string \<times> per_tool_concurrency) list \<Rightarrow> config_error + unit" where
  "check_tools [] = Inr ()"
| "check_tools ((name, pt) # pts) = and_then (check_tool (LabelPerTool name) pt) (\<lambda>_. check_tools pts)"

definition saturating_mul :: "64 word \<Rightarrow> nat \<Rightarrow> 64 word" where
  "saturating_mul a n = (if unat a * n < 2 ^ 64 then of_nat (unat a * n) else - 1)"

definition validate_concurrency :: "concurrency_config \<Rightarrow> config_error + unit" where
  "validate_concurrency c =
     and_then (check_tool LabelDefault (cc_default c)) (\<lambda>_.
     and_then (check_tools (cc_per_tool c)) (\<lambda>_.
       if cc_default_timeout_secs c = 0 then Inl DefaultTimeoutZero
       else if MAX_TIMEOUT_SECS < cc_default_timeout_secs c then Inl (DefaultTimeoutBeyond (cc_default_timeout_secs c))
       else if cc_max_buckets c = 0 then Inl NoBuckets
       else if cc_stale_ttl_secs c = 0 then Inl NoStaleTtl
       else let max_wait = saturating_mul (cc_default_timeout_secs c) 1000
            in if max_wait < cc_queue_wait_ms c then Inl (QueueWaitBeyond (cc_queue_wait_ms c) max_wait) else Inr ()))"

definition cap_for :: "concurrency_config \<Rightarrow> string \<Rightarrow> u32" where
  "cap_for c tool =
     (case map_of (cc_per_tool c) tool of None \<Rightarrow> pt_max_in_flight (cc_default c) | Some pt \<Rightarrow> pt_max_in_flight pt)"

definition timeout_for :: "concurrency_config \<Rightarrow> string \<Rightarrow> 64 word" where
  "timeout_for c tool =
     (case Option.bind (map_of (cc_per_tool c) tool) pt_timeout_secs of
        Some s \<Rightarrow> s
      | None \<Rightarrow> (case pt_timeout_secs (cc_default c) of Some s \<Rightarrow> s | None \<Rightarrow> cc_default_timeout_secs c))"

subsection \<open>State\<close>

type_synonym principal = "string \<times> string"

record sem_entry =
  se_sem :: nat
  se_last_seen :: instant
  se_max :: u32

text \<open>\<open>cs_out\<close> are the permits that are out, \<open>cs_waiting\<close> the calls in a semaphore's queue, each with the semaphore's number.\<close>

record cap_state =
  cs_cfg :: concurrency_config
  cs_entries :: "(principal, sem_entry) table"
  cs_out :: "(principal \<times> nat) list"
  cs_waiting :: "(principal \<times> nat) list"
  cs_next :: nat
  cs_timeouts :: "64 word"
  cs_rejections :: "64 word"

datatype acquire_rejection = AcquireCancelled | QueueTimeout u32 "64 word"
datatype acquire_outcome = GotPermit | Waiting | Refused acquire_rejection

definition new_cap :: "concurrency_config \<Rightarrow> config_error + cap_state" where
  "new_cap c =
     and_then (validate_concurrency c) (\<lambda>_. Inr
       \<lparr>cs_cfg = c, cs_entries = [], cs_out = [], cs_waiting = [], cs_next = 0, cs_timeouts = 0, cs_rejections = 0\<rparr>)"

definition in_use :: "nat \<Rightarrow> cap_state \<Rightarrow> nat" where
  "in_use n s = length (filter (\<lambda>p. snd p = n) (cs_out s))"

definition in_flight :: "principal \<Rightarrow> cap_state \<Rightarrow> nat" where
  "in_flight k s = length (filter (\<lambda>p. fst p = k) (cs_out s))"

definition available_permits :: "sem_entry \<Rightarrow> cap_state \<Rightarrow> nat" where
  "available_permits e s = unat (se_max e) - in_use (se_sem e) s"

definition idle_entry :: "cap_state \<Rightarrow> principal \<times> sem_entry \<Rightarrow> bool" where
  "idle_entry s = (\<lambda>(_, e). available_permits e s = unat (se_max e))"

definition drop_entries :: "principal list \<Rightarrow> cap_state \<Rightarrow> cap_state" where
  "drop_entries ks s = s\<lparr>cs_entries := filter (\<lambda>(k, _). k \<notin> set ks) (cs_entries s)\<rparr>"

definition cap_evict_oldest :: "nat \<Rightarrow> cap_state \<Rightarrow> cap_state" where
  "cap_evict_oldest n s =
     drop_entries (map fst (take n (sort_key (\<lambda>(_, e). se_last_seen e) (filter (idle_entry s) (cs_entries s))))) s"

definition cap_prune_stale :: "instant \<Rightarrow> cap_state \<Rightarrow> cap_state" where
  "cap_prune_stale now s =
     (let ttl = cc_stale_ttl_secs (cs_cfg s) * 10 ^ 9
      in drop_entries (map fst (filter (\<lambda>(k, e). idle_entry s (k, e) \<and> ttl < now - se_last_seen e) (cs_entries s))) s)"

subsection \<open>Acquiring and giving back\<close>

text \<open>The first half of \<open>acquire\<close>: make room, find or make the entry, clone its \<open>Arc\<close>.  The lock of the shard is released before the second
  half polls the semaphore.\<close>

definition acquire_lookup :: "principal \<Rightarrow> instant \<Rightarrow> cap_state \<Rightarrow> nat \<times> cap_state" where
  "acquire_lookup k now s =
     (let s1 = (if map_of (cs_entries s) k = None \<and> cc_max_buckets (cs_cfg s) \<le> length (cs_entries s)
                then cap_evict_oldest (cc_max_buckets (cs_cfg s) div 100 + 1) s else s)
      in case map_of (cs_entries s1) k of
           Some e \<Rightarrow> (se_sem e, s1\<lparr>cs_entries := AList.update k (e\<lparr>se_last_seen := now\<rparr>) (cs_entries s1)\<rparr>)
         | None \<Rightarrow>
             (cs_next s1,
              s1\<lparr>cs_entries := AList.update k \<lparr>se_sem = cs_next s1, se_last_seen = now, se_max = cap_for (cs_cfg s1) (snd k)\<rparr> (cs_entries s1),
                 cs_next := Suc (cs_next s1)\<rparr>))"

definition count_rejection :: "cap_state \<Rightarrow> cap_state" where
  "count_rejection s = s\<lparr>cs_rejections := cs_rejections s + 1\<rparr>"

definition acquire_poll :: "principal \<Rightarrow> nat \<Rightarrow> bool \<Rightarrow> cap_state \<Rightarrow> acquire_outcome \<times> cap_state" where
  "acquire_poll k n cancelled s =
     (let cap = cap_for (cs_cfg s) (snd k); wait = cc_queue_wait_ms (cs_cfg s); free = in_use n s < unat cap;
          take = s\<lparr>cs_out := (k, n) # cs_out s\<rparr>
      in if wait = 0 then if free then (GotPermit, take) else (Refused (QueueTimeout cap 0), count_rejection s)
         else if cancelled then (Refused AcquireCancelled, s)
         else if free then (GotPermit, take)
         else (Waiting, s\<lparr>cs_waiting := cs_waiting s @ [(k, n)]\<rparr>))"

text \<open>With the cap disabled the permit comes from a semaphore that never runs out; nothing is recorded.\<close>

definition acquire_permit :: "principal \<Rightarrow> instant \<Rightarrow> bool \<Rightarrow> cap_state \<Rightarrow> acquire_outcome \<times> cap_state" where
  "acquire_permit k now cancelled s =
     (if \<not> cc_enabled (cs_cfg s) then (GotPermit, s)
      else case acquire_lookup k now s of (n, s1) \<Rightarrow> acquire_poll k n cancelled s1)"

definition wait_elapsed :: "principal \<Rightarrow> nat \<Rightarrow> cap_state \<Rightarrow> acquire_rejection \<times> cap_state" where
  "wait_elapsed k n s =
     (QueueTimeout (cap_for (cs_cfg s) (snd k)) (cc_queue_wait_ms (cs_cfg s)),
      count_rejection (s\<lparr>cs_waiting := remove1 (k, n) (cs_waiting s)\<rparr>))"

definition wait_cancelled :: "principal \<Rightarrow> nat \<Rightarrow> cap_state \<Rightarrow> acquire_rejection \<times> cap_state" where
  "wait_cancelled k n s = (AcquireCancelled, s\<lparr>cs_waiting := remove1 (k, n) (cs_waiting s)\<rparr>)"

text \<open>Dropping a permit.\<close>

definition release_permit :: "principal \<Rightarrow> nat \<Rightarrow> cap_state \<Rightarrow> cap_state" where
  "release_permit k n s =
     (let rest = remove1 (k, n) (cs_out s)
      in case find (\<lambda>p. snd p = n) (cs_waiting s) of
           None \<Rightarrow> s\<lparr>cs_out := rest\<rparr>
         | Some p \<Rightarrow> s\<lparr>cs_out := p # rest, cs_waiting := remove1 p (cs_waiting s)\<rparr>)"

definition note_timeout :: "cap_state \<Rightarrow> cap_state" where
  "note_timeout s = s\<lparr>cs_timeouts := cs_timeouts s + 1\<rparr>"

subsection \<open>Runs in which an acquire is not interrupted between its halves\<close>

datatype cap_op =
    CapAcquire principal instant bool
  | CapRelease principal nat
  | CapElapsed principal nat
  | CapCancelled principal nat
  | CapPrune instant
  | CapTimeout

text \<open>Only a permit that is out can be dropped, only a call that waits can give up.\<close>

fun cap_step :: "cap_op \<Rightarrow> cap_state \<Rightarrow> cap_state" where
  "cap_step (CapAcquire k now c) s = snd (acquire_permit k now c s)"
| "cap_step (CapRelease k n) s = (if (k, n) \<in> set (cs_out s) then release_permit k n s else s)"
| "cap_step (CapElapsed k n) s = (if (k, n) \<in> set (cs_waiting s) then snd (wait_elapsed k n s) else s)"
| "cap_step (CapCancelled k n) s = (if (k, n) \<in> set (cs_waiting s) then snd (wait_cancelled k n s) else s)"
| "cap_step (CapPrune now) s = cap_prune_stale now s"
| "cap_step CapTimeout s = note_timeout s"

definition cap_run :: "cap_op list \<Rightarrow> cap_state \<Rightarrow> cap_state" where
  "cap_run ops s = fold cap_step ops s"

text \<open>Whoever holds or awaits a permit does so at the semaphore the table has for its key; a queue forms only at a full semaphore.\<close>

definition cap_inv :: "cap_state \<Rightarrow> bool" where
  "cap_inv s \<longleftrightarrow> wf_table (cs_entries s) \<and>
     (\<forall>k e. map_of (cs_entries s) k = Some e \<longrightarrow> se_max e = cap_for (cs_cfg s) (snd k) \<and> se_sem e < cs_next s) \<and>
     (\<forall>k k' e e'. map_of (cs_entries s) k = Some e \<longrightarrow> map_of (cs_entries s) k' = Some e' \<longrightarrow> se_sem e = se_sem e' \<longrightarrow> k = k') \<and>
     (\<forall>k n. (k, n) \<in> set (cs_out s) \<union> set (cs_waiting s) \<longrightarrow> (\<exists>e. map_of (cs_entries s) k = Some e \<and> se_sem e = n)) \<and>
     (\<forall>k n. (k, n) \<in> set (cs_out s) \<longrightarrow> in_use n s \<le> unat (cap_for (cs_cfg s) (snd k))) \<and>
     (\<forall>k n. (k, n) \<in> set (cs_waiting s) \<longrightarrow> in_use n s = unat (cap_for (cs_cfg s) (snd k))) \<and>
     (\<forall>tool. cap_for (cs_cfg s) tool \<noteq> 0)"

lemma cap_invD:
  assumes "cap_inv s"
  shows "wf_table (cs_entries s)"
    and "map_of (cs_entries s) k = Some e \<Longrightarrow> se_max e = cap_for (cs_cfg s) (snd k)"
    and "map_of (cs_entries s) k = Some e \<Longrightarrow> se_sem e < cs_next s"
    and "map_of (cs_entries s) k = Some e \<Longrightarrow> map_of (cs_entries s) k' = Some e' \<Longrightarrow> se_sem e = se_sem e' \<Longrightarrow> k = k'"
    and "(k, n) \<in> set (cs_out s) \<Longrightarrow> \<exists>e. map_of (cs_entries s) k = Some e \<and> se_sem e = n"
    and "(k, n) \<in> set (cs_waiting s) \<Longrightarrow> \<exists>e. map_of (cs_entries s) k = Some e \<and> se_sem e = n"
    and "(k, n) \<in> set (cs_out s) \<Longrightarrow> in_use n s \<le> unat (cap_for (cs_cfg s) (snd k))"
    and "(k, n) \<in> set (cs_waiting s) \<Longrightarrow> in_use n s = unat (cap_for (cs_cfg s) (snd k))"
    and "cap_for (cs_cfg s) tool \<noteq> 0"
  using assms unfolding cap_inv_def by blast+

lemma cap_invI:
  assumes "wf_table (cs_entries s)"
    and "\<And>k e. map_of (cs_entries s) k = Some e \<Longrightarrow> se_max e = cap_for (cs_cfg s) (snd k) \<and> se_sem e < cs_next s"
    and "\<And>k k' e e'. map_of (cs_entries s) k = Some e \<Longrightarrow> map_of (cs_entries s) k' = Some e' \<Longrightarrow> se_sem e = se_sem e' \<Longrightarrow> k = k'"
    and "\<And>k n. (k, n) \<in> set (cs_out s) \<Longrightarrow> \<exists>e. map_of (cs_entries s) k = Some e \<and> se_sem e = n"
    and "\<And>k n. (k, n) \<in> set (cs_waiting s) \<Longrightarrow> \<exists>e. map_of (cs_entries s) k = Some e \<and> se_sem e = n"
    and "\<And>k n. (k, n) \<in> set (cs_out s) \<Longrightarrow> in_use n s \<le> unat (cap_for (cs_cfg s) (snd k))"
    and "\<And>k n. (k, n) \<in> set (cs_waiting s) \<Longrightarrow> in_use n s = unat (cap_for (cs_cfg s) (snd k))"
    and "\<And>tool. cap_for (cs_cfg s) tool \<noteq> 0"
  shows "cap_inv s"
  using assms unfolding cap_inv_def by blast

lemma check_tool_positive: "check_tool l pt = Inr u \<Longrightarrow> pt_max_in_flight pt \<noteq> 0"
  by (auto simp: check_tool_def check_in_flight_def and_then_Inr_iff split: if_splits)

lemma check_tools_positive: "check_tools pts = Inr u \<Longrightarrow> map_of pts name = Some pt \<Longrightarrow> pt_max_in_flight pt \<noteq> 0"
  by (induction pts rule: check_tools.induct) (auto simp: and_then_Inr_iff dest: check_tool_positive split: if_splits)

lemma validated_caps_positive: "validate_concurrency c = Inr u \<Longrightarrow> cap_for c tool \<noteq> 0"
  by (auto simp: validate_concurrency_def and_then_Inr_iff cap_for_def dest: check_tool_positive check_tools_positive
      split: option.split)

lemma new_cap_inv: "new_cap c = Inr s \<Longrightarrow> cap_inv s"
  by (auto simp: new_cap_def and_then_Inr_iff cap_inv_def dest: validated_caps_positive)

text \<open>Dropping idle entries: nobody holds or awaits a permit of them.\<close>

lemma idle_unused:
  assumes "cap_inv s" "map_of (cs_entries s) k = Some e" "idle_entry s (k, e)"
  shows "(k, n) \<notin> set (cs_out s) \<and> (k, n) \<notin> set (cs_waiting s)"
proof -
  have max: "unat (se_max e) \<noteq> 0" using cap_invD(2,9) [OF assms(1)] assms(2) by (simp add: unat_eq_0)
  then have none: "in_use (se_sem e) s = 0" using assms(3) by (auto simp: idle_entry_def available_permits_def)
  have "n = se_sem e" if "(k, n) \<in> set (cs_out s) \<union> set (cs_waiting s)"
    using cap_invD(5,6) [OF assms(1)] assms(2) that by fastforce
  moreover have "(k, se_sem e) \<notin> set (cs_out s)"
    using none by (auto simp: in_use_def filter_empty_conv)
  moreover have "(k, se_sem e) \<notin> set (cs_waiting s)"
    using none max cap_invD(8) [OF assms(1), of k "se_sem e"] cap_invD(2) [OF assms(1,2)] by auto
  ultimately show ?thesis by blast
qed

lemma drop_idle_inv:
  assumes "cap_inv s" and "\<And>k. k \<in> set ks \<Longrightarrow> \<exists>e. map_of (cs_entries s) k = Some e \<and> idle_entry s (k, e)"
  shows "cap_inv (drop_entries ks s)"
proof -
  let ?s = "drop_entries ks s"
  have v: "map_of (cs_entries ?s) k = (if k \<in> set ks then None else map_of (cs_entries s) k)" for k
    using cap_invD(1) [OF assms(1)] by (simp add: drop_entries_def map_of_filter split: option.split)
  have keep: "k \<notin> set ks" if "(k, n) \<in> set (cs_out s) \<or> (k, n) \<in> set (cs_waiting s)" for k n
    using idle_unused [OF assms(1)] assms(2) that by blast
  have same: "cs_out ?s = cs_out s" "cs_waiting ?s = cs_waiting s" "cs_cfg ?s = cs_cfg s" "cs_next ?s = cs_next s" "in_use n ?s = in_use n s" for n
    by (simp_all add: drop_entries_def in_use_def)
  have w: "wf_table (cs_entries ?s)" using cap_invD(1) [OF assms(1)] by (simp add: drop_entries_def)
  show ?thesis
    using assms(1) keep unfolding cap_inv_def same v by (auto simp: w)
qed

lemma evict_inv: "cap_inv s \<Longrightarrow> cap_inv (cap_evict_oldest n s)"
  unfolding cap_evict_oldest_def
  by (rule drop_idle_inv)
    (auto dest!: in_set_takeD simp: cap_invD(1) map_of_in_table)

lemma prune_inv: "cap_inv s \<Longrightarrow> cap_inv (cap_prune_stale now s)"
  unfolding cap_prune_stale_def Let_def
  by (rule drop_idle_inv) (auto simp: cap_invD(1) map_of_in_table)

lemma drop_entries_simps [simp]:
  "cs_out (drop_entries ks s) = cs_out s" "cs_waiting (drop_entries ks s) = cs_waiting s" "cs_cfg (drop_entries ks s) = cs_cfg s"
  "cs_next (drop_entries ks s) = cs_next s"
  by (simp_all add: drop_entries_def)

lemma entries_inv:
  assumes "cap_inv s" and "wf_table m" and "cs_next s \<le> nx"
    and "\<And>k' e. map_of m k' = Some e \<Longrightarrow> se_max e = cap_for (cs_cfg s) (snd k') \<and> se_sem e < nx"
    and "\<And>k' e. map_of (cs_entries s) k' = Some e \<Longrightarrow> \<exists>e'. map_of m k' = Some e' \<and> se_sem e' = se_sem e"
    and "\<And>k k' e e'. map_of m k = Some e \<Longrightarrow> map_of m k' = Some e' \<Longrightarrow> se_sem e = se_sem e' \<Longrightarrow> k = k'"
  shows "cap_inv (s\<lparr>cs_entries := m, cs_next := nx\<rparr>)"
proof (rule cap_invI)
  have still: "\<exists>e. map_of m k = Some e \<and> se_sem e = n" if h: "(k, n) \<in> set (cs_out s) \<or> (k, n) \<in> set (cs_waiting s)" for k n
  proof -
    obtain e where "map_of (cs_entries s) k = Some e" "se_sem e = n"
      using h cap_invD(5) [OF assms(1), of k n] cap_invD(6) [OF assms(1), of k n] by blast
    with assms(5) [of k e] show ?thesis by simp
  qed
  let ?s = "s\<lparr>cs_entries := m, cs_next := nx\<rparr>"
  show "\<exists>e. map_of (cs_entries ?s) k = Some e \<and> se_sem e = n" if "(k, n) \<in> set (cs_out ?s)" for k n
    using still that by simp
  show "\<exists>e. map_of (cs_entries ?s) k = Some e \<and> se_sem e = n" if "(k, n) \<in> set (cs_waiting ?s)" for k n
    using still that by simp
qed (use assms(2,4,6) cap_invD(7,8,9) [OF assms(1)] in \<open>simp_all add: in_use_def\<close>)

lemma lookup_inv:
  assumes "cap_inv s" "acquire_lookup k now s = (n, s')"
  shows "cap_inv s' \<and> (\<exists>e. map_of (cs_entries s') k = Some e \<and> se_sem e = n) \<and>
    cs_out s' = cs_out s \<and> cs_waiting s' = cs_waiting s \<and> cs_cfg s' = cs_cfg s"
proof -
  define s1 where "s1 = (if map_of (cs_entries s) k = None \<and> cc_max_buckets (cs_cfg s) \<le> length (cs_entries s)
    then cap_evict_oldest (cc_max_buckets (cs_cfg s) div 100 + 1) s else s)"
  have i: "cap_inv s1" using assms(1) by (simp add: s1_def evict_inv)
  have same: "cs_out s1 = cs_out s" "cs_waiting s1 = cs_waiting s" "cs_cfg s1 = cs_cfg s"
    by (simp_all add: s1_def cap_evict_oldest_def)
  note D = cap_invD [OF i]
  show ?thesis
  proof (cases "map_of (cs_entries s1) k")
    case None
    let ?m = "AList.update k \<lparr>se_sem = cs_next s1, se_last_seen = now, se_max = cap_for (cs_cfg s1) (snd k)\<rparr> (cs_entries s1)"
    have s': "s' = s1\<lparr>cs_entries := ?m, cs_next := Suc (cs_next s1)\<rparr>" "n = cs_next s1"
      using assms(2) None by (auto simp: acquire_lookup_def Let_def s1_def [symmetric])
    have lt: "se_sem x < cs_next s1" if "map_of (cs_entries s1) c = Some x" for c x using D(3) that .
    have "cap_inv s'"
      unfolding s'
    proof (rule entries_inv [OF i])
      show "a = b" if "map_of ?m a = Some x" "map_of ?m b = Some y" "se_sem x = se_sem y" for a b x y
        using that D(4) [of a x b y] lt [of a x] lt [of b y] by (auto simp: map_of_update split: if_splits)
      show "se_max x = cap_for (cs_cfg s1) (snd a) \<and> se_sem x < Suc (cs_next s1)" if "map_of ?m a = Some x" for a x
        using that D(2) [of a x] lt [of a x] by (auto simp: map_of_update split: if_splits)
      show "\<exists>y. map_of ?m a = Some y \<and> se_sem y = se_sem x" if "map_of (cs_entries s1) a = Some x" for a x
        using that None by (auto simp: map_of_update)
    qed (use D(1) in simp_all)
    then show ?thesis using s' same by (simp add: map_of_update)
  next
    case (Some e)
    let ?m = "AList.update k (e\<lparr>se_last_seen := now\<rparr>) (cs_entries s1)"
    have s': "s' = s1\<lparr>cs_entries := ?m\<rparr>" "n = se_sem e"
      using assms(2) Some by (auto simp: acquire_lookup_def Let_def s1_def [symmetric])
    have old: "\<exists>y. map_of (cs_entries s1) a = Some y \<and> se_sem y = se_sem x \<and> se_max y = se_max x" if "map_of ?m a = Some x" for a x
      using that Some by (auto simp: map_of_update split: if_splits)
    have "cap_inv (s1\<lparr>cs_entries := ?m, cs_next := cs_next s1\<rparr>)"
    proof (rule entries_inv [OF i])
      show "a = b" if ab: "map_of ?m a = Some x" "map_of ?m b = Some y" "se_sem x = se_sem y" for a b x y
      proof -
        from old [OF ab(1)] old [OF ab(2)] obtain x' y' where
          "map_of (cs_entries s1) a = Some x'" "se_sem x' = se_sem x" "map_of (cs_entries s1) b = Some y'" "se_sem y' = se_sem y" by blast
        with ab(3) D(4) [of a x' b y'] show ?thesis by simp
      qed
      show "se_max x = cap_for (cs_cfg s1) (snd a) \<and> se_sem x < cs_next s1" if a: "map_of ?m a = Some x" for a x
      proof -
        from old [OF a] obtain y where "map_of (cs_entries s1) a = Some y" "se_sem y = se_sem x" "se_max y = se_max x" by blast
        with D(2,3) [of a y] show ?thesis by simp
      qed
      show "\<exists>y. map_of ?m a = Some y \<and> se_sem y = se_sem x" if "map_of (cs_entries s1) a = Some x" for a x
        using that Some by (auto simp: map_of_update)
    qed (use D(1) in simp_all)
    then show ?thesis using s' same by (simp add: map_of_update)
  qed
qed

lemma in_use_Cons: "in_use n (s\<lparr>cs_out := (k, m) # cs_out s\<rparr>) = in_use n s + of_bool (m = n)"
  by (simp add: in_use_def)

lemma poll_inv:
  assumes "cap_inv s" "map_of (cs_entries s) k = Some e" "se_sem e = n"
  shows "cap_inv (snd (acquire_poll k n c s))"
proof -
  let ?cap = "unat (cap_for (cs_cfg s) (snd k))"
  have owner: "k' = k" if h: "(k', n) \<in> set (cs_out s) \<or> (k', n) \<in> set (cs_waiting s)" for k'
  proof -
    obtain e' where "map_of (cs_entries s) k' = Some e'" "se_sem e' = n"
      using h cap_invD(5) [OF assms(1), of k' n] cap_invD(6) [OF assms(1), of k' n] by blast
    with cap_invD(4) [OF assms(1,2), of k' e'] assms(3) show ?thesis by simp
  qed
  have grant: "cap_inv (s\<lparr>cs_out := (k, n) # cs_out s\<rparr>)" (is "cap_inv ?g") if free: "in_use n s < ?cap"
  proof (rule cap_invI)
    show "\<exists>e. map_of (cs_entries ?g) k' = Some e \<and> se_sem e = m" if "(k', m) \<in> set (cs_out ?g)" for k' m
      using that assms(2,3) cap_invD(5) [OF assms(1), of k' m] by auto
    show "in_use m ?g \<le> unat (cap_for (cs_cfg ?g) (snd k'))" if "(k', m) \<in> set (cs_out ?g)" for k' m
    proof (cases "m = n")
      case True
      then have "k' = k" using that owner [of k'] by auto
      with True free show ?thesis by (simp add: in_use_def)
    next
      case False
      then show ?thesis using that cap_invD(7) [OF assms(1), of k' m] by (simp add: in_use_def)
    qed
    show "in_use m ?g = unat (cap_for (cs_cfg ?g) (snd k'))" if "(k', m) \<in> set (cs_waiting ?g)" for k' m
    proof (cases "m = n")
      case True
      then have "k' = k" using that owner [of k'] by simp
      with True free that cap_invD(8) [OF assms(1), of k' m] show ?thesis by simp
    next
      case False
      then show ?thesis using that cap_invD(8) [OF assms(1), of k' m] by (simp add: in_use_def)
    qed
  qed (use cap_invD(1,2,3,4,6,9) [OF assms(1)] in simp_all)
  have wait: "cap_inv (s\<lparr>cs_waiting := cs_waiting s @ [(k, n)]\<rparr>)" (is "cap_inv ?q") if full: "\<not> in_use n s < ?cap"
  proof (rule cap_invI)
    have eq: "in_use n s = ?cap"
    proof (cases "in_use n s = 0")
      case False
      then have "filter (\<lambda>p. snd p = n) (cs_out s) \<noteq> []" by (simp add: in_use_def)
      then obtain p where "p \<in> set (cs_out s)" "snd p = n" by (auto simp: filter_empty_conv)
      then have p: "(fst p, n) \<in> set (cs_out s)" by (metis prod.collapse)
      from owner [of "fst p"] p cap_invD(7) [OF assms(1) p] full show ?thesis by simp
    qed (use full in simp)
    show "\<exists>e. map_of (cs_entries ?q) k' = Some e \<and> se_sem e = m" if "(k', m) \<in> set (cs_waiting ?q)" for k' m
      using that assms(2,3) cap_invD(6) [OF assms(1), of k' m] by auto
    show "in_use m ?q = unat (cap_for (cs_cfg ?q) (snd k'))" if "(k', m) \<in> set (cs_waiting ?q)" for k' m
      using that eq cap_invD(8) [OF assms(1), of k' m] by (auto simp: in_use_def)
  qed (use cap_invD(1,2,3,4,5,7,9) [OF assms(1)] in \<open>simp_all add: in_use_def\<close>)
  have rej: "cap_inv (count_rejection s)"
    using assms(1) unfolding cap_inv_def count_rejection_def by (auto simp: in_use_def)
  show ?thesis
    using assms(1) grant wait rej by (simp add: acquire_poll_def Let_def)
qed

text \<open>Giving up a wait and giving back a permit.\<close>

lemma unwait_inv:
  assumes "cap_inv s"
  shows "cap_inv (s\<lparr>cs_waiting := remove1 p (cs_waiting s)\<rparr>)"
proof (rule cap_invI)
  let ?s = "s\<lparr>cs_waiting := remove1 p (cs_waiting s)\<rparr>"
  have sub: "q \<in> set (remove1 p (cs_waiting s)) \<Longrightarrow> q \<in> set (cs_waiting s)" for q by (meson set_remove1_subset subsetD)
  show "in_use n ?s = unat (cap_for (cs_cfg ?s) (snd k))" if "(k, n) \<in> set (cs_waiting ?s)" for k n
    using that sub cap_invD(8) [OF assms, of k n] by (simp add: in_use_def)
  show "\<exists>e. map_of (cs_entries ?s) k = Some e \<and> se_sem e = n" if "(k, n) \<in> set (cs_waiting ?s)" for k n
    using that sub cap_invD(6) [OF assms, of k n] by simp
qed (use cap_invD(1,2,3,4,5,7,9) [OF assms] in \<open>simp_all add: in_use_def\<close>)

lemma count_rejection_inv: "cap_inv s \<Longrightarrow> cap_inv (count_rejection s)"
  unfolding cap_inv_def count_rejection_def by (simp add: in_use_def)

lemma length_filter_remove1:
  "x \<in> set xs \<Longrightarrow> length (filter P (remove1 x xs)) = length (filter P xs) - of_bool (P x)"
proof (induction xs)
  case (Cons a xs)
  have "filter P xs \<noteq> []" if "x \<in> set xs" "P x" using that by (auto simp: filter_empty_conv)
  with Cons show ?case by (auto simp: of_bool_def Suc_diff_le simp flip: length_greater_0_conv)
qed simp

lemma release_inv:
  assumes "cap_inv s" "(k, n) \<in> set (cs_out s)"
  shows "cap_inv (release_permit k n s)"
proof (cases "find (\<lambda>p. snd p = n) (cs_waiting s)")
  case None
  have nw: "m \<noteq> n" if "(k', m) \<in> set (cs_waiting s)" for k' m using None that unfolding find_None_iff by fastforce
  have u: "in_use m (s\<lparr>cs_out := remove1 (k, n) (cs_out s)\<rparr>) = in_use m s - of_bool (n = m)" for m
    using length_filter_remove1 [OF assms(2), of "\<lambda>p. snd p = m"] by (simp add: in_use_def)
  have "cap_inv (s\<lparr>cs_out := remove1 (k, n) (cs_out s)\<rparr>)" (is "cap_inv ?s")
  proof (rule cap_invI)
    show "in_use m ?s \<le> unat (cap_for (cs_cfg ?s) (snd k'))" if "(k', m) \<in> set (cs_out ?s)" for k' m
      using notin_set_remove1 that cap_invD(7) [OF assms(1), of k' m] by (fastforce simp: u)
    show "in_use m ?s = unat (cap_for (cs_cfg ?s) (snd k'))" if "(k', m) \<in> set (cs_waiting ?s)" for k' m
      using that nw [of k' m] cap_invD(8) [OF assms(1), of k' m] by (simp add: u)
    show "\<exists>e. map_of (cs_entries ?s) k' = Some e \<and> se_sem e = m" if "(k', m) \<in> set (cs_out ?s)" for k' m
      using that cap_invD(5) [OF assms(1), of k' m] notin_set_remove1 by fastforce
  qed (use cap_invD(1,2,3,4,6,9) [OF assms(1)] in simp_all)
  then show ?thesis using None by (simp add: release_permit_def Let_def)
next
  case (Some p)
  then have "snd p = n" "p \<in> set (cs_waiting s)" by (auto simp: find_Some_iff)
  then obtain k1 where p: "p = (k1, n)" "p \<in> set (cs_waiting s)" by (metis prod.collapse)
  let ?s = "s\<lparr>cs_out := p # remove1 (k, n) (cs_out s), cs_waiting := remove1 p (cs_waiting s)\<rparr>"
  have pos: "n = m \<Longrightarrow> in_use m s > 0" for m
    using assms(2) by (force simp: in_use_def filter_empty_conv)
  have u: "in_use m ?s = in_use m s" for m
    using length_filter_remove1 [OF assms(2), of "\<lambda>p. snd p = m"] p pos [of m] by (auto simp: in_use_def)
  have sub: "q \<in> set (remove1 (k, n) (cs_out s)) \<Longrightarrow> q \<in> set (cs_out s)" "q \<in> set (remove1 p (cs_waiting s)) \<Longrightarrow> q \<in> set (cs_waiting s)" for q
    by (meson set_remove1_subset subsetD)+
  have "cap_inv ?s"
  proof (rule cap_invI)
    show "in_use m ?s \<le> unat (cap_for (cs_cfg ?s) (snd k'))" if "(k', m) \<in> set (cs_out ?s)" for k' m
      unfolding u using that p cap_invD(7) [OF assms(1), of k' m] cap_invD(8) [OF assms(1), of k' m] set_remove1_subset [of "(k, n)" "cs_out s"]
      by auto
    show "in_use m ?s = unat (cap_for (cs_cfg ?s) (snd k'))" if "(k', m) \<in> set (cs_waiting ?s)" for k' m
      unfolding u using that sub cap_invD(8) [OF assms(1), of k' m] by simp
    show "\<exists>e. map_of (cs_entries ?s) k' = Some e \<and> se_sem e = m" if "(k', m) \<in> set (cs_out ?s)" for k' m
      using that p cap_invD(5) [OF assms(1), of k' m] cap_invD(6) [OF assms(1), of k' m] set_remove1_subset [of "(k, n)" "cs_out s"]
      by auto
    show "\<exists>e. map_of (cs_entries ?s) k' = Some e \<and> se_sem e = m" if "(k', m) \<in> set (cs_waiting ?s)" for k' m
      using that sub cap_invD(6) [OF assms(1), of k' m] by simp
  qed (use cap_invD(1,2,3,4,9) [OF assms(1)] in simp_all)
  then show ?thesis using Some by (simp add: release_permit_def Let_def)
qed

lemma acquire_inv:
  assumes "cap_inv s"
  shows "cap_inv (snd (acquire_permit k now c s)) \<and> cs_cfg (snd (acquire_permit k now c s)) = cs_cfg s"
proof (cases "cc_enabled (cs_cfg s)")
  case True
  obtain n s1 where l: "acquire_lookup k now s = (n, s1)" by fastforce
  from lookup_inv [OF assms l] obtain e where e: "cap_inv s1" "map_of (cs_entries s1) k = Some e" "se_sem e = n" "cs_cfg s1 = cs_cfg s"
    by blast
  have "cs_cfg (snd (acquire_poll k n c s1)) = cs_cfg s1" by (simp add: acquire_poll_def Let_def count_rejection_def)
  with poll_inv [OF e(1-3), of c] e(4) True l show ?thesis by (simp add: acquire_permit_def)
qed (simp add: acquire_permit_def assms)

lemma cap_step_inv: "cap_inv s \<Longrightarrow> cap_inv (cap_step op s) \<and> cs_cfg (cap_step op s) = cs_cfg s"
proof (cases op)
  case CapTimeout
  assume "cap_inv s"
  with CapTimeout show ?thesis unfolding cap_inv_def by (simp add: note_timeout_def in_use_def)
next
  case (CapRelease k n)
  assume "cap_inv s"
  with CapRelease release_inv [of s k n] show ?thesis by (simp add: release_permit_def Let_def split: option.split)
next
  case (CapElapsed k n)
  assume "cap_inv s"
  from count_rejection_inv [OF unwait_inv [OF this]] CapElapsed \<open>cap_inv s\<close>
  show ?thesis by (simp add: wait_elapsed_def) (simp add: count_rejection_def)
next
  case (CapCancelled k n)
  assume "cap_inv s"
  with CapCancelled show ?thesis by (simp add: wait_cancelled_def unwait_inv)
next
  case (CapPrune now)
  assume "cap_inv s"
  from prune_inv [OF this, of now] CapPrune show ?thesis by (simp add: cap_prune_stale_def Let_def)
qed (simp add: acquire_inv)

lemma cap_run_inv: "cap_inv s \<Longrightarrow> cap_inv (cap_run ops s) \<and> cs_cfg (cap_run ops s) = cs_cfg s"
  unfolding cap_run_def
  by (induction ops arbitrary: s) (auto simp: cap_step_inv)

lemma length_filter_mono: "(\<And>x. x \<in> set xs \<Longrightarrow> P x \<Longrightarrow> Q x) \<Longrightarrow> length (filter P xs) \<le> length (filter Q xs)"
  by (induction xs) (auto simp: le_SucI)

text \<open>All permits of a principal are of the one semaphore its entry has.\<close>

lemma in_flight_in_use:
  assumes "cap_inv s" "(k, n) \<in> set (cs_out s)"
  shows "in_flight k s \<le> in_use n s"
proof -
  obtain e where e: "map_of (cs_entries s) k = Some e" "se_sem e = n" using cap_invD(5) [OF assms] by blast
  have "snd p = n" if "p \<in> set (cs_out s)" "fst p = k" for p
    using cap_invD(5) [OF assms(1), of k "snd p"] e that by (cases p) auto
  then show ?thesis unfolding in_flight_def in_use_def by (intro length_filter_mono) blast
qed


definition one_call_config :: concurrency_config where
  "one_call_config = default_concurrency\<lparr>cc_default := \<lparr>pt_max_in_flight = 1, pt_timeout_secs = None\<rparr>, cc_max_buckets := 1, cc_queue_wait_ms := 0\<rparr>"

definition one_call_cap :: cap_state where
  "one_call_cap =
     \<lparr>cs_cfg = one_call_config, cs_entries = [], cs_out = [], cs_waiting = [], cs_next = 0, cs_timeouts = 0, cs_rejections = 0\<rparr>"

lemma one_call_valid: "new_cap one_call_config = Inr one_call_cap"
  by (simp add: new_cap_def one_call_cap_def validate_concurrency_def check_tool_def check_in_flight_def one_call_config_def
      default_concurrency_def MAX_IN_FLIGHT_HARD_CAP_def MAX_TIMEOUT_SECS_def word_less_nat_alt)


text \<open>Without that proviso the cap does not hold: a call that has looked up its semaphore but not polled it yet holds no permit, so its entry
  counts as idle and is evicted for another principal; the next call for the first pair makes a new semaphore, and with a cap of one
  two calls of one (tenant, tool) pair are in flight.\<close>

theorem eviction_between_lookup_and_permit_breaks_the_cap:
  "let a = (''acme'', ''search''); b = (''acme'', ''fetch'');
       (n, s1) = acquire_lookup a 1 one_call_cap;
       (rb, s2) = acquire_permit b 2 False s1;
       (ra, s3) = acquire_permit a 3 False s2;
       (ra', s4) = acquire_poll a n False s3
   in rb = GotPermit \<and> ra = GotPermit \<and> ra' = GotPermit \<and> in_flight a s4 = 2 \<and> unat (cap_for one_call_config (snd a)) = 1"
  by (simp add: acquire_lookup_def acquire_permit_def acquire_poll_def cap_evict_oldest_def drop_entries_def idle_entry_def
      available_permits_def in_use_def in_flight_def cap_for_def one_call_cap_def one_call_config_def default_concurrency_def Let_def)

end
