(* ===== verification/Credentials.thy ===== *)
theory Credentials
  imports Prelude "HOL-Library.List_Lexorder" "HOL-Library.Char_ord"
begin

section \<open>Credential stores and the resolver (\<open>crates/auth/src/resolver.rs\<close> and the stores)\<close>

text \<open>
  Which agent may send as which account.  Four stores hold accounts and issue handles; at boot and on every hot reload the resolver is built
  from the agents' bindings, with every violated rule collected.  \<open>fp\<close> is the eight-byte prefix of SHA-256 that a handle carries.
\<close>

type_synonym channel = string

definition WHATSAPP :: channel where "WHATSAPP = ''whatsapp''"
definition TELEGRAM :: channel where "TELEGRAM = ''telegram''"
definition GOOGLE :: channel where "GOOGLE = ''google''"
definition EMAIL :: channel where "EMAIL = ''email''"

lemmas channel_defs = WHATSAPP_def TELEGRAM_def GOOGLE_def EMAIL_def

type_synonym fingerprint = "8 word list"

record credential_handle =
  ch_channel :: channel
  ch_account_id :: string
  ch_agent_id :: string
  ch_fingerprint :: fingerprint

definition new_handle :: "(string \<Rightarrow> fingerprint) \<Rightarrow> channel \<Rightarrow> string \<Rightarrow> string \<Rightarrow> credential_handle" where
  "new_handle fp c account agent =
     \<lparr>ch_channel = c, ch_account_id = account, ch_agent_id = agent, ch_fingerprint = fp account\<rparr>"

datatype credential_error =
    AccountNotFound channel string
  | NotPermitted channel string fingerprint

datatype build_error =
    MissingInstance channel string string "string list"
  | AmbiguousOutbound channel string "string list"
  | AllowAgentsExcludes channel string string
  | AsymmetricBinding channel string string string
  | CredentialFailed channel string credential_error

datatype resolve_error = Unbound string channel

subsection \<open>The stores\<close>

record whatsapp_account =
  wa_instance :: string
  wa_session_dir :: string
  wa_media_dir :: string
  wa_allow_agents :: "string list"

record telegram_account =
  tg_instance :: string
  tg_token :: string
  tg_allow_agents :: "string list"
  tg_allowed_chat_ids :: "int list"

record google_account =
  gg_id :: string
  gg_agent_id :: string
  gg_client_id_path :: string
  gg_client_secret_path :: string
  gg_token_path :: string
  gg_scopes :: "string list"

datatype email_auth =
    EmailPassword string string
  | OAuth2Static string string "string option" "int option"
  | OAuth2Google string string

record email_account =
  em_instance :: string
  em_address :: string
  em_auth :: email_auth
  em_allow_agents :: "string list"

text \<open>The constructors insert one account after the other, so of two with one id the later stays.\<close>

definition store_of :: "('a \<Rightarrow> string) \<Rightarrow> 'a list \<Rightarrow> (string, 'a) table" where
  "store_of key accounts = fold (\<lambda>a m. AList.update (key a) a m) accounts []"

definition whatsapp_store :: "whatsapp_account list \<Rightarrow> (string, whatsapp_account) table" where
  "whatsapp_store = store_of wa_instance"

definition telegram_store :: "telegram_account list \<Rightarrow> (string, telegram_account) table" where
  "telegram_store = store_of tg_instance"

definition google_store :: "google_account list \<Rightarrow> (string, google_account) table" where
  "google_store = store_of gg_id"

definition email_store :: "email_account list \<Rightarrow> (string, email_account) table" where
  "email_store = store_of em_instance"

definition store_ids :: "(string, 'a) table \<Rightarrow> string list" where
  "store_ids m = sort (map fst m)"

definition store_get :: "channel \<Rightarrow> (string, 'a) table \<Rightarrow> credential_handle \<Rightarrow> credential_error + 'a" where
  "store_get c m h =
     (case map_of m (ch_account_id h) of None \<Rightarrow> Inl (AccountNotFound c (ch_account_id h)) | Some a \<Rightarrow> Inr a)"

text \<open>\<open>issue\<close> where the account lists its agents, and where it belongs to one.\<close>

definition issue_listed ::
  "(string \<Rightarrow> fingerprint) \<Rightarrow> channel \<Rightarrow> ('a \<Rightarrow> string list) \<Rightarrow> (string, 'a) table \<Rightarrow> string \<Rightarrow> string \<Rightarrow> credential_error + credential_handle" where
  "issue_listed fp c allow m account agent =
     (case map_of m account of
        None \<Rightarrow> Inl (AccountNotFound c account)
      | Some a \<Rightarrow>
          if allow a \<noteq> [] \<and> agent \<notin> set (allow a)
          then Inl (NotPermitted c agent (ch_fingerprint (new_handle fp c account agent)))
          else Inr (new_handle fp c account agent))"

definition google_issue ::
  "(string \<Rightarrow> fingerprint) \<Rightarrow> (string, google_account) table \<Rightarrow> string \<Rightarrow> string \<Rightarrow> credential_error + credential_handle" where
  "google_issue fp m account agent =
     (case map_of m account of
        None \<Rightarrow> Inl (AccountNotFound GOOGLE account)
      | Some a \<Rightarrow>
          if gg_agent_id a \<noteq> agent
          then Inl (NotPermitted GOOGLE agent (ch_fingerprint (new_handle fp GOOGLE account agent)))
          else Inr (new_handle fp GOOGLE account agent))"

definition allow_listed :: "('a \<Rightarrow> string list) \<Rightarrow> (string, 'a) table \<Rightarrow> string \<Rightarrow> string list" where
  "allow_listed allow m account = (case map_of m account of None \<Rightarrow> [] | Some a \<Rightarrow> allow a)"

definition google_allow :: "(string, google_account) table \<Rightarrow> string \<Rightarrow> string list" where
  "google_allow m account = (case map_of m account of None \<Rightarrow> [] | Some a \<Rightarrow> [gg_agent_id a])"

definition account_for_agent :: "(string, google_account) table \<Rightarrow> string \<Rightarrow> google_account option" where
  "account_for_agent m agent = find (\<lambda>a. gg_agent_id a = agent) (map snd m)"

record credential_stores =
  st_whatsapp :: "(string, whatsapp_account) table"
  st_telegram :: "(string, telegram_account) table"
  st_google :: "(string, google_account) table"
  st_email :: "(string, email_account) table"

definition store_list :: "credential_stores \<Rightarrow> channel \<Rightarrow> string list" where
  "store_list st c =
     (if c = WHATSAPP then store_ids (st_whatsapp st)
      else if c = TELEGRAM then store_ids (st_telegram st)
      else if c = GOOGLE then store_ids (st_google st)
      else if c = EMAIL then store_ids (st_email st)
      else [])"

definition store_allow_agents :: "credential_stores \<Rightarrow> channel \<Rightarrow> string \<Rightarrow> string list" where
  "store_allow_agents st c account =
     (if c = WHATSAPP then allow_listed wa_allow_agents (st_whatsapp st) account
      else if c = TELEGRAM then allow_listed tg_allow_agents (st_telegram st) account
      else if c = GOOGLE then google_allow (st_google st) account
      else if c = EMAIL then allow_listed em_allow_agents (st_email st) account
      else [])"

definition store_issue ::
  "(string \<Rightarrow> fingerprint) \<Rightarrow> credential_stores \<Rightarrow> channel \<Rightarrow> string \<Rightarrow> string \<Rightarrow> credential_error + credential_handle" where
  "store_issue fp st c account agent =
     (if c = WHATSAPP then issue_listed fp WHATSAPP wa_allow_agents (st_whatsapp st) account agent
      else if c = TELEGRAM then issue_listed fp TELEGRAM tg_allow_agents (st_telegram st) account agent
      else if c = GOOGLE then google_issue fp (st_google st) account agent
      else if c = EMAIL then issue_listed fp EMAIL em_allow_agents (st_email st) account agent
      else Inl (AccountNotFound c account))"

subsection \<open>The resolver\<close>

datatype strict_level = Lenient | Strict

record agent_credentials_input =
  ai_agent_id :: string
  ai_outbound :: "(channel, string) table"
  ai_inbound :: "(channel, string list) table"
  ai_asymmetric_allowed :: "(channel, bool) table"

record credential_resolver =
  rs_bindings :: "(string, (channel, credential_handle) table) table"
  rs_warnings :: "build_error list"
  rs_strict :: strict_level
  rs_version :: "64 word"

definition empty_resolver :: credential_resolver where
  "empty_resolver = \<lparr>rs_bindings = [], rs_warnings = [], rs_strict = Lenient, rs_version = 0\<rparr>"

definition resolve :: "credential_resolver \<Rightarrow> string \<Rightarrow> channel \<Rightarrow> resolve_error + credential_handle" where
  "resolve r agent c =
     (case Option.bind (map_of (rs_bindings r) agent) (\<lambda>m. map_of m c) of
        None \<Rightarrow> Inl (Unbound agent c)
      | Some h \<Rightarrow> Inr h)"

definition replace_state ::
  "(string, (channel, credential_handle) table) table \<Rightarrow> build_error list \<Rightarrow> strict_level \<Rightarrow> credential_resolver \<Rightarrow> credential_resolver" where
  "replace_state b w l r = r\<lparr>rs_bindings := b, rs_warnings := w, rs_strict := l, rs_version := rs_version r + 1\<rparr>"

fun join_with :: "string \<Rightarrow> string list \<Rightarrow> string" where
  "join_with sep [] = []"
| "join_with sep [x] = x"
| "join_with sep (x # xs) = x @ sep @ join_with sep xs"

text \<open>The account an agent sends as on a channel: the declared one, else the only one it listens on.\<close>

definition outbound_account :: "agent_credentials_input \<Rightarrow> channel \<Rightarrow> build_error + string option" where
  "outbound_account a c =
     (let inbound = (case map_of (ai_inbound a) c of None \<Rightarrow> [] | Some xs \<Rightarrow> xs)
      in case map_of (ai_outbound a) c of
           Some acc \<Rightarrow> Inr (Some acc)
         | None \<Rightarrow>
             (case inbound of
                [] \<Rightarrow> Inr None
              | [acc] \<Rightarrow> Inr (Some acc)
              | _ \<Rightarrow> Inl (AmbiguousOutbound c (ai_agent_id a) inbound)))"

text \<open>One channel of one agent: what is added to the errors and to the warnings, and the handle if one is issued.\<close>

definition bind_account ::
  "(string \<Rightarrow> fingerprint) \<Rightarrow> credential_stores \<Rightarrow> strict_level \<Rightarrow> agent_credentials_input \<Rightarrow> channel \<Rightarrow> string \<Rightarrow>
     build_error list \<times> build_error list \<times> credential_handle option" where
  "bind_account fp st strict a c account =
     (let agent = ai_agent_id a;
          inbound = (case map_of (ai_inbound a) c of None \<Rightarrow> [] | Some xs \<Rightarrow> xs);
          asymmetric_ok = (case map_of (ai_asymmetric_allowed a) c of None \<Rightarrow> False | Some b \<Rightarrow> b);
          available = store_list st c; allow = store_allow_agents st c account
      in if account \<notin> set available then ([MissingInstance c agent account available], [], None)
         else if allow \<noteq> [] \<and> agent \<notin> set allow then ([AllowAgentsExcludes c account agent], [], None)
         else
           let asym = (if inbound \<noteq> [] \<and> account \<notin> set inbound \<and> \<not> asymmetric_ok
                       then [AsymmetricBinding c agent account (join_with '','' inbound)] else []);
               (errs, warns) = (case strict of Strict \<Rightarrow> (asym, []) | Lenient \<Rightarrow> ([], asym))
           in case store_issue fp st c account agent of
                Inr h \<Rightarrow> (errs, warns, Some h)
              | Inl e \<Rightarrow> (errs @ [CredentialFailed c account e], warns, None))"

definition bind_channel ::
  "(string \<Rightarrow> fingerprint) \<Rightarrow> credential_stores \<Rightarrow> strict_level \<Rightarrow> agent_credentials_input \<Rightarrow> channel \<Rightarrow>
     build_error list \<times> build_error list \<times> credential_handle option" where
  "bind_channel fp st strict a c =
     (case outbound_account a c of
        Inl e \<Rightarrow> ([e], [], None)
      | Inr None \<Rightarrow> ([], [], None)
      | Inr (Some account) \<Rightarrow> bind_account fp st strict a c account)"

fun bind_channels ::
  "(string \<Rightarrow> fingerprint) \<Rightarrow> credential_stores \<Rightarrow> strict_level \<Rightarrow> agent_credentials_input \<Rightarrow> channel list \<Rightarrow>
     build_error list \<times> build_error list \<times> (channel, credential_handle) table" where
  "bind_channels fp st strict a [] = ([], [], [])"
| "bind_channels fp st strict a (c # cs) =
     (case bind_channel fp st strict a c of
        (e, w, h) \<Rightarrow>
          (case bind_channels fp st strict a cs of
             (es, ws, m) \<Rightarrow> (e @ es, w @ ws, (case h of None \<Rightarrow> m | Some h \<Rightarrow> (c, h) # m))))"

definition bound_channels :: "channel list" where
  "bound_channels = [WHATSAPP, TELEGRAM, GOOGLE, EMAIL]"

fun bind_agents ::
  "(string \<Rightarrow> fingerprint) \<Rightarrow> credential_stores \<Rightarrow> strict_level \<Rightarrow> agent_credentials_input list \<Rightarrow>
     (string, (channel, credential_handle) table) table \<Rightarrow>
     build_error list \<times> build_error list \<times> (string, (channel, credential_handle) table) table" where
  "bind_agents fp st strict [] b = ([], [], b)"
| "bind_agents fp st strict (a # as) b =
     (case bind_channels fp st strict a bound_channels of
        (e, w, m) \<Rightarrow>
          (case bind_agents fp st strict as (if m = [] then b else AList.update (ai_agent_id a) m b) of
             (es, ws, b') \<Rightarrow> (e @ es, w @ ws, b')))"

definition build_resolver ::
  "(string \<Rightarrow> fingerprint) \<Rightarrow> credential_stores \<Rightarrow> strict_level \<Rightarrow> agent_credentials_input list \<Rightarrow> build_error list + credential_resolver" where
  "build_resolver fp st strict as =
     (case bind_agents fp st strict as [] of
        (es, ws, b) \<Rightarrow>
          if es \<noteq> [] then Inl es
          else Inr \<lparr>rs_bindings = b, rs_warnings = ws, rs_strict = strict, rs_version = 1\<rparr>)"

definition rebuild_resolver ::
  "(string \<Rightarrow> fingerprint) \<Rightarrow> credential_stores \<Rightarrow> strict_level \<Rightarrow> agent_credentials_input list \<Rightarrow> credential_resolver \<Rightarrow>
     (build_error list + unit) \<times> credential_resolver" where
  "rebuild_resolver fp st strict as r =
     (case build_resolver fp st strict as of
        Inl es \<Rightarrow> (Inl es, r)
      | Inr f \<Rightarrow> (Inr (), replace_state (rs_bindings f) (rs_warnings f) (rs_strict f) r))"

subsection \<open>The contract of a store\<close>

text \<open>What the resolver relies on: a handle is issued exactly for an account the store lists, to an agent its list admits (an empty list admits
  everybody), and names just that channel, account and agent.\<close>

locale credential_store =
  fixes chan :: channel
    and ids :: "'s \<Rightarrow> string list"
    and allow :: "'s \<Rightarrow> string \<Rightarrow> string list"
    and issue :: "'s \<Rightarrow> string \<Rightarrow> string \<Rightarrow> credential_error + credential_handle"
  assumes issue_admitted: "issue s account agent = Inr h \<Longrightarrow>
      account \<in> set (ids s) \<and> (allow s account = [] \<or> agent \<in> set (allow s account)) \<and>
      ch_channel h = chan \<and> ch_account_id h = account \<and> ch_agent_id h = agent"
    and issue_total: "account \<in> set (ids s) \<Longrightarrow> allow s account = [] \<or> agent \<in> set (allow s account) \<Longrightarrow>
      \<exists>h. issue s account agent = Inr h"
begin

lemma issue_iff: "isl (issue s account agent) \<longleftrightarrow> \<not> (account \<in> set (ids s) \<and> (allow s account = [] \<or> agent \<in> set (allow s account)))"
proof (cases "issue s account agent")
  case (Inl e)
  then show ?thesis using issue_total [of account s agent] by auto
next
  case (Inr h)
  then show ?thesis using issue_admitted [OF Inr] by simp
qed

end

lemma ids_iff: "account \<in> set (store_ids m) \<longleftrightarrow> map_of m account \<noteq> None"
  by (auto simp: store_ids_def map_of_eq_None_iff)

lemma listed_store: "credential_store c store_ids (allow_listed f) (issue_listed fp c f)"
  by unfold_locales
    (auto simp: issue_listed_def allow_listed_def ids_iff new_handle_def split: option.splits if_splits)

interpretation whatsapp: credential_store WHATSAPP store_ids "allow_listed wa_allow_agents" "issue_listed fp WHATSAPP wa_allow_agents"
  by (rule listed_store)

interpretation telegram: credential_store TELEGRAM store_ids "allow_listed tg_allow_agents" "issue_listed fp TELEGRAM tg_allow_agents"
  by (rule listed_store)

interpretation email: credential_store EMAIL store_ids "allow_listed em_allow_agents" "issue_listed fp EMAIL em_allow_agents"
  by (rule listed_store)

interpretation google: credential_store GOOGLE store_ids google_allow "google_issue fp"
  by unfold_locales
    (auto simp: google_issue_def google_allow_def ids_iff new_handle_def split: option.splits if_splits)

text \<open>The four together, one channel at a time.\<close>

interpretation stores: credential_store c "\<lambda>st. store_list st c" "\<lambda>st. store_allow_agents st c" "\<lambda>st. store_issue fp st c"
proof (unfold_locales, goal_cases)
  case (1 s account agent h)
  then show ?case
    using whatsapp.issue_admitted [of fp "st_whatsapp s" account agent h] telegram.issue_admitted [of fp "st_telegram s" account agent h]
      google.issue_admitted [of fp "st_google s" account agent h] email.issue_admitted [of fp "st_email s" account agent h]
    by (auto simp: store_issue_def store_list_def store_allow_agents_def split: if_splits)
next
  case (2 account s agent)
  then show ?case
    using whatsapp.issue_total [of account "st_whatsapp s" agent fp] telegram.issue_total [of account "st_telegram s" agent fp]
      google.issue_total [of account "st_google s" agent fp] email.issue_total [of account "st_email s" agent fp]
    by (auto simp: store_issue_def store_list_def store_allow_agents_def split: if_splits)
qed

subsection \<open>What a binding promises\<close>

text \<open>After the two checks the store cannot refuse, so \<open>CredentialFailed\<close> never occurs.\<close>

lemma bind_account_cases:
  "bind_account fp st strict a c account = (e, w, h) \<Longrightarrow>
     (case h of
        Some h \<Rightarrow> account \<in> set (store_list st c) \<and> store_issue fp st c account (ai_agent_id a) = Inr h
      | None \<Rightarrow> e \<noteq> [])"
  using stores.issue_total [of account st c "ai_agent_id a" fp]
  by (auto simp: bind_account_def Let_def split: if_splits sum.splits strict_level.splits)

lemma bind_channel_handle:
  assumes "bind_channel fp st strict a c = (e, w, Some h)"
  shows "\<exists>account. outbound_account a c = Inr (Some account) \<and> store_issue fp st c account (ai_agent_id a) = Inr h"
  using assms bind_account_cases by (fastforce simp: bind_channel_def split: sum.splits option.splits)

lemma bind_channels_handle:
  "bind_channels fp st strict a cs = (e, w, m) \<Longrightarrow> (c, h) \<in> set m \<Longrightarrow> c \<in> set cs \<and> snd (snd (bind_channel fp st strict a c)) = Some h"
  by (induction cs arbitrary: e w m) (auto split: prod.splits option.splits)

lemma bind_agents_handle:
  "bind_agents fp st strict as b = (e, w, b') \<Longrightarrow> map_of b' agent = Some m \<Longrightarrow>
     map_of b agent = Some m \<or>
     (\<exists>a \<in> set as. ai_agent_id a = agent \<and> m = snd (snd (bind_channels fp st strict a bound_channels)))"
proof (induction as arbitrary: b e w b')
  case (Cons a as)
  obtain e1 w1 m1 where b1: "bind_channels fp st strict a bound_channels = (e1, w1, m1)" by (metis prod_cases3)
  let ?b = "if m1 = [] then b else AList.update (ai_agent_id a) m1 b"
  obtain e2 w2 where b2: "bind_agents fp st strict as ?b = (e2, w2, b')"
    using Cons.prems(1) b1 by (auto split: prod.splits)
  from Cons.IH [OF b2 Cons.prems(2)] show ?case
    using b1 by (auto simp: map_of_update split: if_splits)
qed simp

text \<open>C28. Every handle the resolver hands out was issued to the agent that asks, on the channel it asks for, from an account that the store
  lists and whose list admits the agent (for Google: that belongs to the agent), and which the agent's configuration names as its
  outbound account or as the only one it listens on.\<close>

theorem resolved_handles_are_permitted:
  assumes "build_resolver fp st strict as = Inr r" and "resolve r agent c = Inr h"
  shows "\<exists>a \<in> set as. \<exists>account. ai_agent_id a = agent \<and> outbound_account a c = Inr (Some account) \<and>
    account \<in> set (store_list st c) \<and>
    (store_allow_agents st c account = [] \<or> agent \<in> set (store_allow_agents st c account)) \<and>
    (c = GOOGLE \<longrightarrow> (\<exists>g. map_of (st_google st) account = Some g \<and> gg_agent_id g = agent)) \<and>
    ch_channel h = c \<and> ch_account_id h = account \<and> ch_agent_id h = agent"
proof -
  obtain w b where b: "bind_agents fp st strict as [] = ([], w, b)" "rs_bindings r = b"
    using assms(1) by (auto simp: build_resolver_def split: prod.splits if_splits)
  obtain m where m: "map_of b agent = Some m" "map_of m c = Some h"
    using assms(2) b(2) by (auto simp: resolve_def bind_eq_Some_conv split: option.splits)
  from bind_agents_handle [OF b(1) m(1)] obtain a where
    a: "a \<in> set as" "ai_agent_id a = agent" "m = snd (snd (bind_channels fp st strict a bound_channels))" by auto
  obtain e1 w1 m1 where bc: "bind_channels fp st strict a bound_channels = (e1, w1, m1)" by (metis prod_cases3)
  from bind_channels_handle [OF bc] a(3) bc map_of_SomeD [OF m(2)] have "snd (snd (bind_channel fp st strict a c)) = Some h" by simp
  then obtain e2 w2 where "bind_channel fp st strict a c = (e2, w2, Some h)" by (metis prod.collapse)
  from bind_channel_handle [OF this] obtain account where
    acc: "outbound_account a c = Inr (Some account)" "store_issue fp st c account (ai_agent_id a) = Inr h" by blast
  have own: "\<exists>g. map_of (st_google st) account = Some g \<and> gg_agent_id g = agent" if "c = GOOGLE"
    using acc(2) that a(2) by (auto simp: store_issue_def channel_defs google_issue_def split: option.splits if_splits)
  from stores.issue_admitted [OF acc(2)] own acc(1) a(2) show ?thesis
    by (intro bexI [OF _ a(1)] exI [of _ account]) simp
qed

definition sample_stores :: credential_stores where
  "sample_stores =
     \<lparr>st_whatsapp = whatsapp_store [\<lparr>wa_instance = ''work'', wa_session_dir = ''s'', wa_media_dir = ''m'', wa_allow_agents = [''ana'']\<rparr>],
      st_telegram = [], st_google = [], st_email = []\<rparr>"

definition sample_input :: agent_credentials_input where
  "sample_input = \<lparr>ai_agent_id = ''ana'', ai_outbound = [], ai_inbound = [(WHATSAPP, [''work''])], ai_asymmetric_allowed = []\<rparr>"

lemmas sample_binding_defs = sample_stores_def sample_input_def whatsapp_store_def store_of_def channel_defs

lemma sample_build:
  "build_resolver (\<lambda>_. []) sample_stores Strict [sample_input] =
     Inr \<lparr>rs_bindings = [(''ana'', [(WHATSAPP, new_handle (\<lambda>_. []) WHATSAPP ''work'' ''ana'')])], rs_warnings = [],
          rs_strict = Strict, rs_version = 1\<rparr>"
  by (simp add: build_resolver_def bound_channels_def bind_channel_def outbound_account_def bind_account_def store_list_def
      store_allow_agents_def store_issue_def store_ids_def allow_listed_def issue_listed_def Let_def sample_binding_defs)

theorem resolved_handles_are_permitted_witness:
  "\<exists>r h. build_resolver (\<lambda>_. []) sample_stores Strict [sample_input] = Inr r \<and> resolve r ''ana'' WHATSAPP = Inr h \<and>
     ch_agent_id h = ''ana'' \<and> ch_account_id h \<in> set (store_list sample_stores WHATSAPP)"
proof -
  let ?h = "new_handle (\<lambda>_. []) WHATSAPP ''work'' ''ana''"
  let ?r = "\<lparr>rs_bindings = [(''ana'', [(WHATSAPP, ?h)])], rs_warnings = [], rs_strict = Strict, rs_version = 1\<rparr>"
  have "resolve ?r ''ana'' WHATSAPP = Inr ?h" by (simp add: resolve_def)
  from resolved_handles_are_permitted [OF sample_build this] this sample_build show ?thesis by blast
qed

lemma bind_channels_errors:
  "bind_channels fp st strict a cs = (e, w, m) \<Longrightarrow> set e = (\<Union>c \<in> set cs. set (fst (bind_channel fp st strict a c)))"
  by (induction cs arbitrary: e w m) (auto split: prod.splits)

lemma bind_agents_errors:
  "bind_agents fp st strict as b = (e, w, b') \<Longrightarrow>
     set e = (\<Union>a \<in> set as. \<Union>c \<in> set bound_channels. set (fst (bind_channel fp st strict a c)))"
proof (induction as arbitrary: b e w b')
  case (Cons a as)
  obtain e1 w1 m1 where b1: "bind_channels fp st strict a bound_channels = (e1, w1, m1)" by (metis prod_cases3)
  let ?b = "if m1 = [] then b else AList.update (ai_agent_id a) m1 b"
  obtain e2 w2 b2 where b2: "bind_agents fp st strict as ?b = (e2, w2, b2)" by (metis prod_cases3)
  have "e = e1 @ e2" using Cons.prems b1 b2 by simp
  with Cons.IH [OF b2] bind_channels_errors [OF b1] show ?case by auto
qed simp

text \<open>C29. A reload is all or nothing and complete in what it reports: it swaps bindings, warnings and level in one step, with a new version, when no
  agent breaks a rule on any channel, and otherwise leaves the resolver as it is and returns the violations of every agent on
  every channel, not just the first.\<close>

theorem rebuild_is_all_or_nothing:
  "let bad = (\<Union>a \<in> set as. \<Union>c \<in> set bound_channels. set (fst (bind_channel fp st strict a c)))
   in (bad = {} \<longrightarrow> (\<exists>f. build_resolver fp st strict as = Inr f \<and>
         rebuild_resolver fp st strict as r = (Inr (), f\<lparr>rs_version := rs_version r + 1\<rparr>))) \<and>
      (bad \<noteq> {} \<longrightarrow> (\<exists>es. set es = bad \<and> rebuild_resolver fp st strict as r = (Inl es, r)))"
proof -
  obtain e w b where b: "bind_agents fp st strict as [] = (e, w, b)" by (metis prod_cases3)
  note bad = bind_agents_errors [OF b, symmetric]
  show ?thesis
    unfolding Let_def bad
    by (auto simp: build_resolver_def rebuild_resolver_def replace_state_def b)
qed

theorem rebuild_is_all_or_nothing_witness:
  "\<exists>es. set es = {MissingInstance WHATSAPP ''ana'' ''work'' []} \<and>
     rebuild_resolver (\<lambda>_. []) (sample_stores\<lparr>st_whatsapp := []\<rparr>) Lenient [sample_input] empty_resolver = (Inl es, empty_resolver)"
proof -
  have "(\<Union>a \<in> set [sample_input]. \<Union>c \<in> set bound_channels.
      set (fst (bind_channel (\<lambda>_. []) (sample_stores\<lparr>st_whatsapp := []\<rparr>) Lenient a c))) = {MissingInstance WHATSAPP ''ana'' ''work'' []}"
    by (simp add: bound_channels_def bind_channel_def outbound_account_def bind_account_def store_list_def store_ids_def Let_def
        sample_binding_defs)
  note bad = this
  show ?thesis
    using rebuild_is_all_or_nothing [of "\<lambda>_. []" "sample_stores\<lparr>st_whatsapp := []\<rparr>" Lenient "[sample_input]" empty_resolver]
    unfolding bad Let_def by blast
qed

end
