(* ===== verification/Llm_Retry.thy ===== *)
theory Llm_Retry
  imports Prelude
begin

section \<open>Retrying a model call (\<open>crates/llm/src/retry.rs\<close>)\<close>

text \<open>
  \<open>with_retry\<close> loops until the closure succeeds or its error is final.  The loop is a \<open>partial_function\<close>, so that it returns is a theorem.
  The closure acts on an outer world \<open>'w\<close>; \<open>nanos n\<close> is the clock's sub-second part at the n-th back-off; \<open>scale\<close> is the \<open>f32\<close> product
  \<open>(last as f32 * multiplier).max(base as f32) as u64\<close>.  \<open>'i\<close> is the structured rate-limit information and \<open>'q\<close> what a quota
  rejection carries: the loop only hands them on.
\<close>

type_synonym ms = "64 word"

datatype ('i, 'q) llm_error =
    RateLimited ms "'i option"
  | QuotaExceeded 'q
  | ServerError "16 word" string
  | PromptTooLong "64 word option" "64 word option"
  | CredentialInvalid string
  | OtherLlmError string

datatype retry_class = RetryRateLimit | RetryServer | RetryFatal

definition classify_status :: "16 word \<Rightarrow> retry_class" where
  "classify_status s = (if s = 429 then RetryRateLimit else if 500 \<le> s \<and> s \<le> 599 then RetryServer else RetryFatal)"

text \<open>The header's value if there is one, the two parsers, the clock in milliseconds.\<close>

definition parse_retry_after_ms ::
  "(string \<Rightarrow> ms option) \<Rightarrow> (string \<Rightarrow> int option) \<Rightarrow> int \<Rightarrow> string option \<Rightarrow> ms \<Rightarrow> ms" where
  "parse_retry_after_ms parse_secs parse_date now header fallback =
     (case header of
        None \<Rightarrow> fallback
      | Some raw \<Rightarrow>
          (case parse_secs raw of
             Some secs \<Rightarrow> if unat secs * 1000 < 2 ^ 64 then secs * 1000 else - 1
           | None \<Rightarrow>
               (case parse_date raw of
                  Some at \<Rightarrow> max (word_of_int (max (at - now) 0)) 1000
                | None \<Rightarrow> fallback)))"

record retry_config =
  rc_max_attempts :: u32
  rc_initial_backoff_ms :: ms
  rc_max_backoff_ms :: ms

definition jittered_backoff :: "(ms \<Rightarrow> ms \<Rightarrow> ms) \<Rightarrow> ms \<Rightarrow> ms \<Rightarrow> ms \<Rightarrow> ms \<Rightarrow> ms" where
  "jittered_backoff scale nanos base last_ms max_ms =
     (let hi = max (min (scale base last_ms) max_ms) base
      in if hi \<le> base then min base max_ms else base + nanos mod (hi - base + 1))"

definition next_backoff :: "retry_config \<Rightarrow> (ms \<Rightarrow> ms \<Rightarrow> ms) \<Rightarrow> ms \<Rightarrow> ms \<Rightarrow> ms" where
  "next_backoff c scale nanos last_ms = jittered_backoff scale nanos (rc_initial_backoff_ms c) last_ms (rc_max_backoff_ms c)"

text \<open>The result is that of the last call, the world it left, and the waits between the calls.\<close>

partial_function (option) llm_retry_loop ::
  "retry_config \<Rightarrow> (ms \<Rightarrow> ms \<Rightarrow> ms) \<Rightarrow> (u32 \<Rightarrow> ms) \<Rightarrow> ('w \<Rightarrow> (('i, 'q) llm_error + 'a) \<times> 'w) \<Rightarrow> u32 \<Rightarrow> ms \<Rightarrow> ms list \<Rightarrow> 'w \<Rightarrow>
     ((('i, 'q) llm_error + 'a) \<times> ms list \<times> 'w) option" where
  "llm_retry_loop c scale nanos f attempt backoff waits w =
     (case f w of
        (Inr v, w') \<Rightarrow> Some (Inr v, waits, w')
      | (Inl e, w') \<Rightarrow>
          (case e of
             RateLimited after info \<Rightarrow>
               if 5 \<le> attempt + 1 then Some (Inl e, waits, w')
               else llm_retry_loop c scale nanos f (attempt + 1) (next_backoff c scale (nanos attempt) backoff)
                      (waits @ [max after backoff]) w'
           | ServerError status body \<Rightarrow>
               if 3 \<le> attempt + 1 then Some (Inl e, waits, w')
               else llm_retry_loop c scale nanos f (attempt + 1) (next_backoff c scale (nanos attempt) backoff) (waits @ [backoff]) w'
           | _ \<Rightarrow> Some (Inl e, waits, w')))"

definition llm_with_retry ::
  "retry_config \<Rightarrow> (ms \<Rightarrow> ms \<Rightarrow> ms) \<Rightarrow> (u32 \<Rightarrow> ms) \<Rightarrow> ('w \<Rightarrow> (('i, 'q) llm_error + 'a) \<times> 'w) \<Rightarrow> 'w \<Rightarrow>
     ((('i, 'q) llm_error + 'a) \<times> ms list \<times> 'w) option" where
  "llm_with_retry c scale nanos f w = llm_retry_loop c scale nanos f 0 (rc_initial_backoff_ms c) [] w"

subsection \<open>Back-off\<close>

lemma jittered_backoff_bounds:
  assumes "max_ms \<noteq> - 1"
  shows "min base max_ms \<le> jittered_backoff scale nanos base last_ms max_ms \<and> jittered_backoff scale nanos base last_ms max_ms \<le> max_ms"
proof -
  define hi where "hi = max (min (scale base last_ms) max_ms) base"
  show ?thesis
  proof (cases "hi \<le> base")
    case True
    then show ?thesis by (simp add: jittered_backoff_def hi_def [symmetric])
  next
    case False
    then have "base < hi" by simp
    then have hi: "hi \<le> max_ms" by (auto simp: hi_def max_def min_def split: if_splits)
    have lt: "unat base < unat hi" using \<open>base < hi\<close> by (simp add: word_less_nat_alt)
    have le: "unat hi \<le> unat max_ms" using hi by (simp add: word_le_nat_alt)
    have m: "unat max_ms < 2 ^ 64 - 1"
    proof -
      have "unat max_ms \<noteq> unat (- 1 :: ms)" using assms by (simp only: unat_arith_simps(3) [symmetric]) simp
      moreover have "unat (- 1 :: ms) = 2 ^ 64 - 1" by (simp add: unsigned_minus_1_eq_mask mask_eq_exp_minus_1)
      ultimately show ?thesis using unsigned_less [of max_ms, where 'a = nat] by simp
    qed
    have d: "unat (hi - base) = unat hi - unat base" using \<open>base < hi\<close> by (simp add: unat_sub)
    have span: "unat (hi - base + 1) = unat hi - unat base + 1"
      using d le m by (simp add: unat_word_ariths)
    have off: "unat (nanos mod (hi - base + 1)) \<le> unat hi - unat base"
      unfolding unat_mod span using mod_less_divisor [of "unat hi - unat base + 1" "unat nanos"] by simp
    have sum: "unat (base + nanos mod (hi - base + 1)) = unat base + unat (nanos mod (hi - base + 1))"
      using off lt le m by (simp add: unat_word_ariths)
    have j: "jittered_backoff scale nanos base last_ms max_ms = base + nanos mod (hi - base + 1)"
      using False by (simp add: jittered_backoff_def hi_def [symmetric] Let_def)
    have "base \<le> max_ms" using lt le by (simp add: word_le_nat_alt)
    then show ?thesis
      unfolding j using sum off lt le by (simp add: word_le_nat_alt min_def)
  qed
qed

subsection \<open>Termination\<close>

text \<open>The n-th call of the closure when it is called again and again.\<close>

fun nth_call :: "('w \<Rightarrow> 'r \<times> 'w) \<Rightarrow> nat \<Rightarrow> 'w \<Rightarrow> 'r \<times> 'w" where
  "nth_call f 0 w = f w"
| "nth_call f (Suc n) w = nth_call f n (snd (f w))"

text \<open>Whether the n-th outcome, counted from zero, is followed by another call.\<close>

fun tried_again :: "nat \<Rightarrow> (('i, 'q) llm_error + 'a) \<Rightarrow> bool" where
  "tried_again n (Inl (RateLimited _ _)) = (n < 4)"
| "tried_again n (Inl (ServerError _ _)) = (n < 2)"
| "tried_again n _ = False"

lemma attempt_words:
  assumes "n \<le> 4"
  shows "(5 \<le> (of_nat n + 1 :: u32)) = (\<not> n < 4)" "(3 \<le> (of_nat n + 1 :: u32)) = (\<not> n < 2)"
proof -
  have "n = 0 \<or> n = 1 \<or> n = 2 \<or> n = 3 \<or> n = 4" using assms by auto
  then show "(5 \<le> (of_nat n + 1 :: u32)) = (\<not> n < 4)" "(3 \<le> (of_nat n + 1 :: u32)) = (\<not> n < 2)"
    by (auto simp: word_le_nat_alt)
qed

definition wait_ok :: "retry_config \<Rightarrow> ms \<Rightarrow> bool" where
  "wait_ok c b \<longleftrightarrow> b \<le> max (rc_initial_backoff_ms c) (rc_max_backoff_ms c)"

lemma next_backoff_ok: "rc_max_backoff_ms c \<noteq> - 1 \<Longrightarrow> wait_ok c (next_backoff c scale nanos b)"
  using jittered_backoff_bounds [of "rc_max_backoff_ms c" "rc_initial_backoff_ms c" scale nanos b]
  by (auto simp: wait_ok_def next_backoff_def le_max_iff_disj)

text \<open>What a call adds to the waits when it is followed by another one: the back-off, or what the provider asked for if that is longer.\<close>

fun asked_wait :: "(('i, 'q) llm_error + 'a) \<Rightarrow> ms \<Rightarrow> ms" where
  "asked_wait (Inl (RateLimited after _)) b = max after b"
| "asked_wait _ b = b"

lemma loop_step:
  assumes "n \<le> 4" "f w = (r, w')"
  shows "llm_retry_loop c scale nanos f (of_nat n) b ws w =
    (if tried_again n r
     then llm_retry_loop c scale nanos f (of_nat (Suc n)) (next_backoff c scale (nanos (of_nat n)) b) (ws @ [asked_wait r b]) w'
     else Some (r, ws, w'))"
proof (cases r)
  case (Inr v)
  then show ?thesis using assms(2) by (subst llm_retry_loop.simps) simp
next
  case (Inl e)
  then show ?thesis using assms(2) attempt_words [OF assms(1)]
    by (subst llm_retry_loop.simps) (cases e; simp add: add.commute)
qed

lemma loop_returns:
  assumes "n \<le> 4" "wait_ok c b" "rc_max_backoff_ms c \<noteq> - 1"
  shows "\<exists>m ws'. n + m \<le> 4 \<and> length ws' = m \<and>
    llm_retry_loop c scale nanos f (of_nat n) b ws w = Some (fst (nth_call f m w), ws @ ws', snd (nth_call f m w)) \<and>
    \<not> tried_again (n + m) (fst (nth_call f m w)) \<and>
    (\<forall>i < m. tried_again (n + i) (fst (nth_call f i w)) \<and>
       (\<exists>b'. wait_ok c b' \<and> ws' ! i = asked_wait (fst (nth_call f i w)) b'))"
  using assms(1,2)
proof (induction "4 - n" arbitrary: n b ws w rule: less_induct)
  case less
  obtain r w' where f: "f w = (r, w')" by fastforce
  note step = loop_step [where f = f and w = w, OF less.prems(1) f, of c scale nanos b ws]
  show ?case
  proof (cases "tried_again n r")
    case False
    then show ?thesis using step f less.prems(1) by (intro exI [of _ 0] exI [of _ "[]"]) simp
  next
    case True
    then have n: "n < 4" by (cases "(n, r)" rule: tried_again.cases) auto
    let ?b = "next_backoff c scale (nanos (of_nat n)) b"
    have "4 - Suc n < 4 - n" "Suc n \<le> 4" using n by simp_all
    from less.hyps [OF this next_backoff_ok [OF assms(3)], of scale "nanos (of_nat n)" b "ws @ [asked_wait r b]" w'] obtain m ws' where
      m: "Suc n + m \<le> 4" "length ws' = m"
        "llm_retry_loop c scale nanos f (of_nat (Suc n)) ?b (ws @ [asked_wait r b]) w' =
           Some (fst (nth_call f m w'), (ws @ [asked_wait r b]) @ ws', snd (nth_call f m w'))"
        "\<not> tried_again (Suc n + m) (fst (nth_call f m w'))"
        "\<forall>i < m. tried_again (Suc n + i) (fst (nth_call f i w')) \<and>
           (\<exists>b'. wait_ok c b' \<and> ws' ! i = asked_wait (fst (nth_call f i w')) b')" by blast
    have nth: "nth_call f (Suc i) w = nth_call f i w'" "nth_call f 0 w = (r, w')" for i using f by simp_all
    have each: "tried_again (n + i) (fst (nth_call f i w)) \<and>
        (\<exists>b'. wait_ok c b' \<and> (asked_wait r b # ws') ! i = asked_wait (fst (nth_call f i w)) b')" if "i < Suc m" for i
    proof (cases i)
      case 0
      then show ?thesis using True less.prems(2) nth(2) by auto
    next
      case (Suc j)
      then show ?thesis using m(5) that nth(1) by simp
    qed
    show ?thesis
      using m(1-4) step True each nth by (intro exI [of _ "Suc m"] exI [of _ "asked_wait r b # ws'"]) simp
  qed
qed

text \<open>C30. A retried call always returns, whatever the closure does: after at most five calls, with the result of the last one.  It calls again
  exactly after a rate limit among the first four outcomes or a server error among the first two, and each wait in between is what
  the provider asked for or a back-off within the configured bounds, whichever is longer.\<close>

theorem retry_terminates:
  assumes "rc_max_backoff_ms c \<noteq> - 1"
  shows "\<exists>n \<le> 4. \<exists>waits. length waits = n \<and>
    llm_with_retry c scale nanos f w = Some (fst (nth_call f n w), waits, snd (nth_call f n w)) \<and>
    \<not> tried_again n (fst (nth_call f n w)) \<and>
    (\<forall>i < n. tried_again i (fst (nth_call f i w)) \<and>
       (\<exists>b. b \<le> max (rc_initial_backoff_ms c) (rc_max_backoff_ms c) \<and> waits ! i = asked_wait (fst (nth_call f i w)) b))"
  using loop_returns [of 0 c "rc_initial_backoff_ms c" scale nanos f "[]" w] assms
  by (auto simp: llm_with_retry_def wait_ok_def)

theorem retry_terminates_witness:
  "\<exists>waits. llm_with_retry \<lparr>rc_max_attempts = 5, rc_initial_backoff_ms = 1000, rc_max_backoff_ms = 60000\<rparr> (\<lambda>_ l. 2 * l) (\<lambda>_. 0)
     (\<lambda>n :: nat. (Inl (ServerError 503 ''down'') :: (unit, unit) llm_error + unit, Suc n)) 0 = Some (Inl (ServerError 503 ''down''), waits, 3)
   \<and> length waits = 2"
proof -
  let ?f = "\<lambda>n :: nat. (Inl (ServerError 503 ''down'') :: (unit, unit) llm_error + unit, Suc n)"
  let ?c = "\<lparr>rc_max_attempts = 5, rc_initial_backoff_ms = 1000, rc_max_backoff_ms = 60000\<rparr>"
  have call: "nth_call ?f n k = (Inl (ServerError 503 ''down''), Suc (n + k))" for n k by (induction n arbitrary: k) simp_all
  have "rc_max_backoff_ms ?c \<noteq> - 1" by simp
  from retry_terminates [OF this, of "\<lambda>_ l. 2 * l" "\<lambda>_. 0" ?f 0] obtain n waits where
    n: "length waits = n" "llm_with_retry ?c (\<lambda>_ l. 2 * l) (\<lambda>_. 0) ?f 0 = Some (fst (nth_call ?f n 0), waits, snd (nth_call ?f n 0))"
      "\<not> n < 2" "\<forall>i < n. i < 2" by (auto simp: call)
  have "n = 2" using n(3) n(4) [rule_format, of 2] by linarith
  with n(1,2) show ?thesis by (auto simp: call)
qed

end
