(* ===== verification/Bash_Policy.thy ===== *)
theory Bash_Policy
  imports Prelude
begin

section \<open>Which shell commands count as read-only (\<open>crates/driver-permission/src/bash_destructive.rs\<close>)\<close>

text \<open>
  A command is a \<open>str\<close>: the list of its UTF-8 bytes.  Slicing it at a byte that is not the start of a character panics, which the model
  shows as \<open>None\<close>.  The regular expressions are known by a name each; whether one matches is the argument \<open>re\<close>, the \<open>regex\<close> crate.
\<close>

subsection \<open>Patterns\<close>

datatype bash_pattern =
    GitResetHard | GitPushForce | GitCleanForce | GitCheckoutDot | GitRestoreDot | GitStashDrop | GitBranchDelete | GitNoVerify
  | GitAmend | RmRecursiveForce | RmRecursive | RmForce | SqlDrop | SqlDeleteAll | KubectlDelete | TerraformDestroy
  | GitCleanDryRun | SedInPlace

definition destructive_patterns :: "(bash_pattern \<times> string) list" where
  "destructive_patterns =
     [(GitResetHard, ''may discard uncommitted changes''),
      (GitPushForce, ''may overwrite remote history''),
      (GitCleanForce, ''may permanently delete untracked files''),
      (GitCheckoutDot, ''may discard all working tree changes''),
      (GitRestoreDot, ''may discard all working tree changes''),
      (GitStashDrop, ''may permanently remove stashed changes''),
      (GitBranchDelete, ''may force-delete a branch''),
      (GitNoVerify, ''may skip safety hooks''),
      (GitAmend, ''may rewrite the last commit''),
      (RmRecursiveForce, ''may recursively force-remove files''),
      (RmRecursive, ''may recursively remove files''),
      (RmForce, ''may force-remove files''),
      (SqlDrop, ''may drop or truncate database objects''),
      (SqlDeleteAll, ''may delete all rows from a database table''),
      (KubectlDelete, ''may delete Kubernetes resources''),
      (TerraformDestroy, ''may destroy Terraform infrastructure'')]"

fun first_destructive :: "(bash_pattern \<Rightarrow> string \<Rightarrow> bool) \<Rightarrow> string \<Rightarrow> (bash_pattern \<times> string) list \<Rightarrow> string option" where
  "first_destructive re cmd [] = None"
| "first_destructive re cmd ((p, w) # ps) =
     (if \<not> re p cmd then first_destructive re cmd ps
      else if contains ''untracked files'' w \<and> (contains ''--dry-run'' cmd \<or> re GitCleanDryRun cmd) then first_destructive re cmd ps
      else Some w)"

definition check_destructive_command :: "(bash_pattern \<Rightarrow> string \<Rightarrow> bool) \<Rightarrow> string \<Rightarrow> string option" where
  "check_destructive_command re cmd = first_destructive re cmd destructive_patterns"

definition check_sed_in_place :: "(bash_pattern \<Rightarrow> string \<Rightarrow> bool) \<Rightarrow> string \<Rightarrow> string option" where
  "check_sed_in_place re cmd = (if re SedInPlace cmd then Some ''Note: sed -i modifies files in place'' else None)"

subsection \<open>Lists\<close>

definition read_only_commands :: "string list" where
  "read_only_commands =
     [''ls'', ''find'', ''stat'', ''file'', ''du'', ''df'', ''tree'', ''realpath'', ''readlink'', ''basename'', ''dirname'',
      ''cat'', ''head'', ''tail'', ''less'', ''more'', ''tac'', ''hexdump'', ''xxd'', ''od'', ''strings'',
      ''grep'', ''egrep'', ''fgrep'', ''rg'', ''ag'', ''cut'', ''sort'', ''uniq'', ''rev'', ''wc'', ''comm'', ''cmp'', ''diff'',
      ''tr'',
      ''pwd'', ''echo'', ''printf'', ''true'', ''false'', ''test'', ''['', ''which'', ''type'', ''command'', ''hostname'',
      ''id'', ''whoami'', ''groups'', ''env'', ''printenv'', ''uname'', ''date'',
      ''ps'', ''top'', ''htop'', ''pgrep'', ''ip'', ''netstat'', ''ss'', ''lsof'']"

definition mutating_markers :: "string list" where
  "mutating_markers =
     [''$('', ''`'', ''<<'', ''<('', ''>('', ''rm '', ''mv '', ''cp '', ''chmod '', ''chown '', ''mkdir '', ''rmdir '', ''ln '', ''touch '',
      ''git push'', ''git commit'', ''git reset'', ''git checkout'', ''git restore'', ''git stash'', ''git branch'', ''git merge'',
      ''curl '', ''wget '', ''scp '', ''rsync '', ''sudo '', ''su '', ''tee '', ''awk '', ''perl '', ''python '', ''node '', ''ruby '']"

subsection \<open>Bytes, characters, white space\<close>

text \<open>Whether the string may be cut before this suffix.\<close>

fun char_boundary :: "string \<Rightarrow> bool" where
  "char_boundary [] = True"
| "char_boundary (c # _) = (\<not> continuation c)"

text \<open>\<open>(byte as char).is_whitespace()\<close>: a byte read as the Latin-1 character of its value.\<close>

definition latin_space :: "char \<Rightarrow> bool" where
  "latin_space c \<longleftrightarrow> byte c \<in> {9, 10, 11, 12, 13, 32, 133, 160}"

text \<open>The length of the white-space character a suffix starts with, zero if it starts with none.\<close>

definition space_length :: "string \<Rightarrow> nat" where
  "space_length s =
     (case map byte (take 3 s) of
        [] \<Rightarrow> 0
      | b # bs \<Rightarrow>
          if b \<in> {9, 10, 11, 12, 13, 32} then 1
          else if b = 194 \<and> bs \<noteq> [] \<and> hd bs \<in> {133, 160} then 2
          else if b = 225 \<and> bs = [154, 128] then 3
          else if b = 226 \<and> length bs = 2 \<and> hd bs = 128 \<and> (last bs \<in> {128..138} \<or> last bs \<in> {168, 169, 175}) then 3
          else if b = 226 \<and> bs = [129, 159] then 3
          else if b = 227 \<and> bs = [128, 128] then 3
          else 0)"

text \<open>\<open>split_whitespace\<close>.\<close>

function words_from :: "string \<Rightarrow> string \<Rightarrow> string list" where
  "words_from cur [] = (if cur = [] then [] else [cur])"
| "words_from cur (c # s) =
     (let n = space_length (c # s)
      in if n = 0 then words_from (cur @ [c]) s
         else (if cur = [] then [] else [cur]) @ words_from [] (drop n (c # s)))"
  by pat_completeness auto

termination
  by (relation "measure (\<lambda>(_, s). length s)") auto

definition split_whitespace :: "string \<Rightarrow> string list" where
  "split_whitespace s = words_from [] s"

subsection \<open>Redirections and clauses\<close>

definition shell_control :: "char \<Rightarrow> bool" where
  "shell_control c \<longleftrightarrow> c \<in> set ''|&;<>''"

definition target_char :: "char \<Rightarrow> bool" where
  "target_char c \<longleftrightarrow> \<not> latin_space c \<and> \<not> shell_control c"

text \<open>The scan of \<open>has_non_devnull_redirect\<close>, on the suffix that starts at the index.\<close>

function redirect_scan :: "string \<Rightarrow> bool option" where
  "redirect_scan [] = Some False"
| "redirect_scan (c # s) =
     (if c = CHR ''>'' \<and> s \<noteq> [] \<and> hd s = CHR ''&'' then redirect_scan (tl s)
      else if c = CHR ''>'' then
        (let s1 = (if s \<noteq> [] \<and> hd s = CHR ''>'' then tl s else s);
             s2 = dropWhile latin_space s1;
             rest = dropWhile target_char s2
         in if \<not> char_boundary s2 \<or> \<not> char_boundary rest then None
            else if takeWhile target_char s2 \<noteq> ''/dev/null'' then Some True
            else redirect_scan rest)
      else redirect_scan s)"
  by pat_completeness auto

termination
proof (relation "measure length")
  fix c s s1 s2 rest
  assume s1: "s1 = (if s \<noteq> [] \<and> hd s = CHR ''>'' then tl s else s)" and s2: "s2 = dropWhile latin_space s1" and r: "rest = dropWhile target_char s2"
  have "length rest \<le> length s2" unfolding r by (rule length_dropWhile_le)
  also have "length s2 \<le> length s1" unfolding s2 by (rule length_dropWhile_le)
  also have "length s1 \<le> length s" unfolding s1 by simp
  finally show "(rest, c # s) \<in> measure length" by simp
qed auto

definition has_non_devnull_redirect :: "string \<Rightarrow> bool option" where
  "has_non_devnull_redirect cmd = redirect_scan cmd"

text \<open>\<open>split_command_clauses\<close>: \<open>cur\<close> is the clause since \<open>last\<close>.  Each step that is not at the last byte slices two bytes.\<close>

fun split_clauses :: "string \<Rightarrow> string \<Rightarrow> string list option" where
  "split_clauses cur [] = Some (if cur = [] then [] else [cur])"
| "split_clauses cur [c] = Some (if c = CHR ''|'' \<or> c = CHR '';'' then [cur] else [cur @ [c]])"
| "split_clauses cur (c # d # s) =
     (if continuation c \<or> \<not> char_boundary s then None
      else if [c, d] = ''&&'' \<or> [c, d] = ''||'' then map_option (\<lambda>cs. cur # cs) (split_clauses [] s)
      else if c = CHR ''|'' \<or> c = CHR '';'' then map_option (\<lambda>cs. cur # cs) (split_clauses [] (d # s))
      else split_clauses (cur @ [c]) (d # s))"

definition split_command_clauses :: "string \<Rightarrow> string list option" where
  "split_command_clauses cmd = split_clauses [] cmd"

definition first_real_word :: "string \<Rightarrow> string" where
  "first_real_word clause =
     (let ws = split_whitespace clause;
          first_word = (if ws = [] then [] else hd ws)
      in if contains ''='' first_word then (case find (\<lambda>w. \<not> contains ''='' w) ws of None \<Rightarrow> [] | Some w \<Rightarrow> w)
         else first_word)"

definition is_read_only :: "(bash_pattern \<Rightarrow> string \<Rightarrow> bool) \<Rightarrow> string \<Rightarrow> bool option" where
  "is_read_only re cmd =
     (if split_whitespace cmd = [] then Some False
      else if check_destructive_command re cmd \<noteq> None then Some False
      else if check_sed_in_place re cmd \<noteq> None then Some False
      else case has_non_devnull_redirect cmd of
             None \<Rightarrow> None
           | Some True \<Rightarrow> Some False
           | Some False \<Rightarrow>
               if \<exists>m \<in> set mutating_markers. contains m cmd then Some False
               else case split_command_clauses cmd of
                      None \<Rightarrow> None
                    | Some cs \<Rightarrow> Some (cs \<noteq> [] \<and> (\<forall>c \<in> set cs. first_real_word c \<in> set read_only_commands)))"

subsection \<open>What a split promises\<close>

text \<open>The clauses with the operators put back between them; a trailing operator has no clause after it.\<close>

fun rebuild :: "string list \<Rightarrow> string list \<Rightarrow> string" where
  "rebuild [] seps = []"
| "rebuild [c] seps = c @ (if seps = [] then [] else hd seps)"
| "rebuild (c # cs) (sep # seps) = c @ sep @ rebuild cs seps"
| "rebuild (c # cs) [] = c @ rebuild cs []"

definition operators :: "string list" where
  "operators = [''&&'', ''||'', ''|'', '';'']"

text \<open>Nothing in a clause ends it.\<close>

definition one_clause :: "string \<Rightarrow> bool" where
  "one_clause c \<longleftrightarrow> CHR ''|'' \<notin> set c \<and> CHR '';'' \<notin> set c \<and> \<not> contains ''&&'' c"

lemma contains_snoc: "contains ''&&'' (s @ [c]) \<longleftrightarrow> contains ''&&'' s \<or> (s \<noteq> [] \<and> last s = CHR ''&'' \<and> c = CHR ''&'')"
proof (induction s)
  case (Cons a s)
  then show ?case by (cases s) auto
qed simp

lemma split_clauses_spec:
  assumes "split_clauses cur s = Some cs" "one_clause cur" "cur \<noteq> [] \<longrightarrow> s \<noteq> [] \<longrightarrow> \<not> (last cur = CHR ''&'' \<and> hd s = CHR ''&'')"
  shows "(\<exists>seps. set seps \<subseteq> set operators \<and> rebuild cs seps = cur @ s) \<and> (\<forall>c \<in> set cs. one_clause c)"
  using assms
proof (induction cur s arbitrary: cs rule: split_clauses.induct)
  case (1 cur)
  then show ?case by (intro conjI exI [of _ "[]"]) (auto split: if_splits)
next
  case (2 cur c)
  show ?case
  proof (cases "c = CHR ''|'' \<or> c = CHR '';''")
    case True
    then show ?thesis using 2 by (intro conjI exI [of _ "[[c]]"]) (auto simp: operators_def)
  next
    case False
    then show ?thesis using 2 by (intro conjI exI [of _ "[]"]) (auto simp: one_clause_def contains_snoc)
  qed
next
  case (3 cur c d s)
  have ok: "\<not> (continuation c \<or> \<not> char_boundary s)"
    using "3.prems"(1) by (cases "continuation c \<or> \<not> char_boundary s") simp_all
  have nil: "one_clause []" by (simp add: one_clause_def)
  have glue: "\<exists>seps. set seps \<subseteq> set operators \<and> rebuild (cur # ds) seps = cur @ sep @ r"
    if "set sps \<subseteq> set operators" "rebuild ds sps = r" "sep \<in> set operators" for ds sps sep r
    using that by (intro exI [of _ "sep # sps"]) (cases ds; auto)
  consider (double) "[c, d] = ''&&'' \<or> [c, d] = ''||''"
    | (single) "\<not> ([c, d] = ''&&'' \<or> [c, d] = ''||'')" "c = CHR ''|'' \<or> c = CHR '';''"
    | (plain) "\<not> ([c, d] = ''&&'' \<or> [c, d] = ''||'')" "\<not> (c = CHR ''|'' \<or> c = CHR '';'')" by blast
  then show ?case
  proof cases
    case double
    then obtain ds where ds: "split_clauses [] s = Some ds" "cs = cur # ds" using "3.prems"(1) ok by auto
    from "3.IH"(1) [OF ok double ds(1) nil] obtain sps where
      sps: "set sps \<subseteq> set operators" "rebuild ds sps = s" "\<forall>c \<in> set ds. one_clause c" by auto
    have "[c, d] \<in> set operators" using double by (auto simp: operators_def)
    from glue [OF sps(1,2) this] sps(3) "3.prems"(2) ds(2) show ?thesis by auto
  next
    case single
    then obtain ds where ds: "split_clauses [] (d # s) = Some ds" "cs = cur # ds" using "3.prems"(1) ok by auto
    from "3.IH"(2) [OF ok single ds(1) nil] obtain sps where
      sps: "set sps \<subseteq> set operators" "rebuild ds sps = d # s" "\<forall>c \<in> set ds. one_clause c" by auto
    have "[c] \<in> set operators" using single(2) by (auto simp: operators_def)
    from glue [OF sps(1,2) this] sps(3) "3.prems"(2) ds(2) show ?thesis by auto
  next
    case plain
    then have s': "split_clauses (cur @ [c]) (d # s) = Some cs" using "3.prems"(1) ok by auto
    have "one_clause (cur @ [c])"
      using "3.prems"(2,3) plain(2) by (auto simp: one_clause_def contains_snoc)
    from "3.IH"(3) [OF ok plain s' this] plain(1) show ?thesis by auto
  qed
qed

lemma prefix_contains: "contains p s \<Longrightarrow> contains p (a @ s)"
  by (induction a) auto

lemma contains_append: "contains p s \<Longrightarrow> contains p (s @ b)"
proof (induction s)
  case Nil
  then show ?case by (cases b) simp_all
next
  case (Cons c s)
  from Cons.prems consider "prefix p (c # s)" | "contains p s" by auto
  then show ?case
  proof cases
    case 1
    then have "prefix p (c # s @ b)" by (metis append_Cons prefix_prefix)
    then show ?thesis by simp
  qed (simp add: Cons.IH)
qed

lemma rebuild_contains: "c \<in> set cs \<Longrightarrow> contains p c \<Longrightarrow> contains p (rebuild cs seps)"
  by (induction cs seps rule: rebuild.induct) (auto intro: prefix_contains contains_append)

text \<open>C32. A command that is taken for read-only is a sequence of clauses joined by the four operators the classifier knows; each clause names a
  listed command as its first word that is no assignment and holds no further operator, and no clause holds one of the mutating markers or,
  like the whole command, a destructive pattern or an in-place \<open>sed\<close>.\<close>

theorem read_only_commands_decompose:
  assumes "is_read_only re cmd = Some True"
  shows "\<exists>clauses seps. clauses \<noteq> [] \<and> rebuild clauses seps = cmd \<and> set seps \<subseteq> set operators \<and>
    (\<forall>c \<in> set clauses. first_real_word c \<in> set read_only_commands \<and> one_clause c \<and> (\<forall>m \<in> set mutating_markers. \<not> contains m c)) \<and>
    has_non_devnull_redirect cmd = Some False \<and> check_destructive_command re cmd = None \<and> \<not> re SedInPlace cmd"
proof -
  obtain cs where cs: "split_command_clauses cmd = Some cs" "cs \<noteq> []" "\<forall>c \<in> set cs. first_real_word c \<in> set read_only_commands"
    and other: "has_non_devnull_redirect cmd = Some False" "check_destructive_command re cmd = None" "check_sed_in_place re cmd = None"
      "\<forall>m \<in> set mutating_markers. \<not> contains m cmd"
    using assms by (auto simp: is_read_only_def split: if_splits option.splits bool.splits)
  have "one_clause []" by (simp add: one_clause_def)
  from split_clauses_spec [OF cs(1) [unfolded split_command_clauses_def] this] obtain seps where
    s: "set seps \<subseteq> set operators" "rebuild cs seps = cmd" "\<forall>c \<in> set cs. one_clause c" by auto
  have "\<forall>c \<in> set cs. \<forall>m \<in> set mutating_markers. \<not> contains m c"
    using rebuild_contains [of _ cs _ seps] s(2) other(4) by blast
  with s cs(2,3) other show ?thesis
    by (intro exI [of _ cs] exI [of _ seps]) (auto simp: check_sed_in_place_def split: if_splits)
qed


theorem read_only_commands_decompose_witness:
  "is_read_only (\<lambda>_ _. False) ''X=1 ls | wc -l; pwd'' = Some True \<and>
   (\<exists>clauses seps. clauses \<noteq> [] \<and> rebuild clauses seps = ''X=1 ls | wc -l; pwd'')"
proof -
  have r: "is_read_only (\<lambda>_ _. False) ''X=1 ls | wc -l; pwd'' = Some True" by code_simp
  with read_only_commands_decompose [OF r] show ?thesis by blast
qed

text \<open>What no pattern and no marker names is left to the first word: a lone \<open>&\<close>, a line break, a redirection to a file written
  \<open>>&\<close>, a \<open>find\<close> that deletes and an \<open>env\<close> that runs its arguments.\<close>

definition unseen_commands :: "string list" where
  "unseen_commands =
     [''ls & dd if=a of=b'', ''ls'' @ [CHR 0x0A] @ ''dd if=a of=b'', ''ls >&out'', ''find . -delete'', ''env dd if=a of=b'']"

text \<open>The classifier takes five commands that write, delete or overwrite files for read-only, when (as for all of them) no pattern of a
  regular expression matches: a second command after a lone \<open>&\<close> or a line break, \<open>>&\<close> with a file, \<open>find -delete\<close>, and \<open>env\<close> with a command.\<close>

theorem commands_that_write_count_as_read_only:
  "list_all (\<lambda>cmd. is_read_only (\<lambda>_ _. False) cmd = Some True) unseen_commands"
  by code_simp

text \<open>The scan slices two bytes at every step, so it stops at the first character it cuts.\<close>

lemma split_clauses_cuts:
  assumes "continuation k" "CHR ''&'' \<notin> set a" "CHR ''|'' \<notin> set a"
  shows "split_clauses cur (a @ c # l # k # s) = None"
  using assms(2,3)
proof (induction a arbitrary: cur)
  case Nil
  then show ?case using assms(1) by simp
next
  case (Cons x a)
  have IH: "split_clauses cur (a @ c # l # k # s) = None" for cur using Cons by simp
  obtain d r where r: "a @ c # l # k # s = d # r" by (cases a) auto
  show ?case using IH Cons.prems unfolding append_Cons r by auto
qed

text \<open>A command that holds a character outside ASCII, with no \<open>&\<close> or \<open>|\<close> before it and at least one byte, stops the scan for operators with
  a panic: it slices the command at every byte, and \<open>k\<close> is a byte inside a character.\<close>

theorem non_ascii_commands_panic:
  assumes "continuation k" "CHR ''&'' \<notin> set a" "CHR ''|'' \<notin> set a"
  shows "split_command_clauses (a @ c # l # k # s) = None"
  unfolding split_command_clauses_def by (rule split_clauses_cuts [OF assms])

theorem non_ascii_commands_panic_witness:
  "split_command_clauses (''echo'' @ CHR '' '' # CHR 0xC3 # CHR 0xB1 # ''a'') = None \<and>
   is_read_only (\<lambda>_ _. False) (''echo '' @ [CHR 0xC3, CHR 0xB1]) = None"
proof -
  have "split_command_clauses (''echo'' @ CHR '' '' # CHR 0xC3 # CHR 0xB1 # ''a'') = None"
    by (rule non_ascii_commands_panic) code_simp+
  moreover have "is_read_only (\<lambda>_ _. False) (''echo '' @ [CHR 0xC3, CHR 0xB1]) = None" by code_simp
  ultimately show ?thesis by simp
qed

end
