(* ===== verification/Session_Binding.thy ===== *)
theory Session_Binding
  imports Agent_Store
begin

section \<open>Session bindings (\<open>crates/driver-claude/src/binding.rs\<close>, \<open>binding_sqlite.rs\<close>)\<close>

text \<open>
  Which session of the \<open>claude\<close> CLI a goal's next turn resumes: the records, the store in memory and the store in SQLite, and the
  contract the turn loop relies on.  A column of JSON holds the value it encodes; a statement at an instant at which the database does not
  answer fails.
\<close>

subsection \<open>Errors and records\<close>

text \<open>The payload of \<open>ParseLine\<close> is the line number and the raw line as \<open>Debug\<close> prints it.\<close>

datatype claude_error =
    BinaryNotFound
  | SpawnFailed string
  | MissingPipe string
  | ClaudeCancelled
  | ClaudeTimeout
  | SessionInvalid string
  | ParseLine nat string
  | ClaudeIo string
  | BindingFailed string

primrec claude_error_str :: "claude_error \<Rightarrow> string" where
  "claude_error_str BinaryNotFound = ''`claude` binary not found in PATH (try `npm i -g @anthropic-ai/claude-code`)''"
| "claude_error_str (SpawnFailed m) = ''failed to spawn claude: '' @ m"
| "claude_error_str (MissingPipe m) = ''missing pipe: '' @ m"
| "claude_error_str ClaudeCancelled = ''turn cancelled''"
| "claude_error_str ClaudeTimeout = ''turn timed out''"
| "claude_error_str (SessionInvalid m) = ''session expired or invalid: '' @ m"
| "claude_error_str (ParseLine n raw) = ''stream-json parse failure on line '' @ show_decimal n @ '': raw='' @ raw"
| "claude_error_str (ClaudeIo m) = ''io: '' @ m"
| "claude_error_str (BindingFailed m) = ''binding error: '' @ m"

record session_binding =
  sb_goal_id :: uuid
  sb_session_id :: string
  sb_model :: "string option"
  sb_workspace :: "string option"
  sb_created_at :: timestamp
  sb_updated_at :: timestamp
  sb_last_active_at :: timestamp
  sb_origin :: "origin_channel option"
  sb_dispatcher :: "dispatcher_identity option"

definition new_binding :: "timestamp \<Rightarrow> uuid \<Rightarrow> string \<Rightarrow> string option \<Rightarrow> string option \<Rightarrow> session_binding" where
  "new_binding now g sid model ws =
     \<lparr>sb_goal_id = g, sb_session_id = sid, sb_model = model, sb_workspace = ws, sb_created_at = now, sb_updated_at = now,
      sb_last_active_at = now, sb_origin = None, sb_dispatcher = None\<rparr>"

definition with_origin :: "origin_channel \<Rightarrow> session_binding \<Rightarrow> session_binding" where
  "with_origin o' b = b\<lparr>sb_origin := Some o'\<rparr>"

definition with_dispatcher :: "dispatcher_identity \<Rightarrow> session_binding \<Rightarrow> session_binding" where
  "with_dispatcher d b = b\<lparr>sb_dispatcher := Some d\<rparr>"

text \<open>The trait.  Each operation reads the clock.\<close>

record 's binding_ops =
  bo_get :: "timestamp \<Rightarrow> uuid \<Rightarrow> 's \<Rightarrow> claude_error + session_binding option"
  bo_upsert :: "timestamp \<Rightarrow> session_binding \<Rightarrow> 's \<Rightarrow> (claude_error + unit) \<times> 's"
  bo_clear :: "timestamp \<Rightarrow> uuid \<Rightarrow> 's \<Rightarrow> (claude_error + unit) \<times> 's"
  bo_mark_invalid :: "timestamp \<Rightarrow> uuid \<Rightarrow> 's \<Rightarrow> (claude_error + unit) \<times> 's"
  bo_touch :: "timestamp \<Rightarrow> uuid \<Rightarrow> 's \<Rightarrow> (claude_error + unit) \<times> 's"
  bo_purge :: "timestamp \<Rightarrow> timestamp \<Rightarrow> 's \<Rightarrow> (claude_error + nat) \<times> 's"
  bo_list_active :: "timestamp \<Rightarrow> 's \<Rightarrow> claude_error + session_binding list"

subsection \<open>In memory\<close>

type_synonym memory_bindings = "(uuid, session_binding) table"

definition mem_binding_get :: "timestamp \<Rightarrow> uuid \<Rightarrow> memory_bindings \<Rightarrow> claude_error + session_binding option" where
  "mem_binding_get now g s = Inr (map_of s g)"

definition mem_binding_upsert :: "timestamp \<Rightarrow> session_binding \<Rightarrow> memory_bindings \<Rightarrow> (claude_error + unit) \<times> memory_bindings" where
  "mem_binding_upsert now b s =
     (let created = (case map_of s (sb_goal_id b) of Some prior \<Rightarrow> sb_created_at prior | None \<Rightarrow> sb_created_at b)
      in (Inr (), AList.update (sb_goal_id b) (b\<lparr>sb_created_at := created, sb_updated_at := now, sb_last_active_at := now\<rparr>) s))"

definition mem_binding_clear :: "timestamp \<Rightarrow> uuid \<Rightarrow> memory_bindings \<Rightarrow> (claude_error + unit) \<times> memory_bindings" where
  "mem_binding_clear now g s = (Inr (), AList.delete g s)"

text \<open>The rest are the defaults of the trait.\<close>

definition memory_binding_ops :: "memory_bindings binding_ops" where
  "memory_binding_ops =
     \<lparr>bo_get = mem_binding_get, bo_upsert = mem_binding_upsert, bo_clear = mem_binding_clear, bo_mark_invalid = mem_binding_clear,
      bo_touch = (\<lambda>_ _ s. (Inr (), s)), bo_purge = (\<lambda>_ _ s. (Inr 0, s)), bo_list_active = (\<lambda>_ _. Inr [])\<rparr>"

subsection \<open>In SQLite\<close>

record binding_row =
  br_goal_id :: uuid
  br_session_id :: string
  br_model :: "string option"
  br_workspace :: "string option"
  br_invalid :: bool
  br_created_at :: int
  br_updated_at :: int
  br_last_active_at :: int
  br_origin :: "origin_channel option"
  br_dispatcher :: "dispatcher_identity option"

record binding_store =
  bs_idle_ttl :: "duration option"
  bs_max_age :: "duration option"
  bs_up :: "timestamp \<Rightarrow> bool"

definition with_idle_ttl :: "duration \<Rightarrow> binding_store \<Rightarrow> binding_store" where
  "with_idle_ttl ttl c = c\<lparr>bs_idle_ttl := (if ttl = 0 then None else Some ttl)\<rparr>"

definition with_max_age :: "duration \<Rightarrow> binding_store \<Rightarrow> binding_store" where
  "with_max_age age c = c\<lparr>bs_max_age := (if age = 0 then None else Some age)\<rparr>"

text \<open>The two cutoffs in Unix seconds.\<close>

definition ttl_cutoffs :: "timestamp \<Rightarrow> binding_store \<Rightarrow> int option \<times> int option" where
  "ttl_cutoffs now c =
     (let floor = (\<lambda>d. to_unix now - int d div second)
      in (map_option floor (bs_idle_ttl c), map_option floor (bs_max_age c)))"

definition row_to_binding :: "binding_row \<Rightarrow> session_binding" where
  "row_to_binding r =
     \<lparr>sb_goal_id = br_goal_id r, sb_session_id = br_session_id r, sb_model = br_model r, sb_workspace = br_workspace r,
      sb_created_at = from_unix (br_created_at r), sb_updated_at = from_unix (br_updated_at r),
      sb_last_active_at = from_unix (br_last_active_at r), sb_origin = br_origin r, sb_dispatcher = br_dispatcher r\<rparr>"

definition row_active :: "timestamp \<Rightarrow> binding_store \<Rightarrow> binding_row \<Rightarrow> bool" where
  "row_active now c r \<longleftrightarrow>
     \<not> br_invalid r \<and>
     (case fst (ttl_cutoffs now c) of None \<Rightarrow> True | Some t \<Rightarrow> t \<le> br_last_active_at r) \<and>
     (case snd (ttl_cutoffs now c) of None \<Rightarrow> True | Some t \<Rightarrow> t \<le> br_created_at r)"

definition db_down :: claude_error where "db_down = BindingFailed ''database''"

definition sql_binding_get ::
  "binding_store \<Rightarrow> timestamp \<Rightarrow> uuid \<Rightarrow> binding_row list \<Rightarrow> claude_error + session_binding option" where
  "sql_binding_get c now g s =
     (if \<not> bs_up c now then Inl db_down
      else Inr (map_option row_to_binding (find (\<lambda>r. br_goal_id r = g \<and> row_active now c r) s)))"

definition merged_row :: "timestamp \<Rightarrow> session_binding \<Rightarrow> binding_row \<Rightarrow> binding_row" where
  "merged_row now b r =
     r\<lparr>br_session_id := sb_session_id b, br_model := sb_model b, br_workspace := sb_workspace b, br_invalid := False,
       br_updated_at := to_unix now, br_last_active_at := to_unix now,
       br_origin := (case sb_origin b of None \<Rightarrow> br_origin r | Some c \<Rightarrow> Some c),
       br_dispatcher := (case sb_dispatcher b of None \<Rightarrow> br_dispatcher r | Some d \<Rightarrow> Some d)\<rparr>"

definition fresh_row :: "timestamp \<Rightarrow> session_binding \<Rightarrow> binding_row" where
  "fresh_row now b =
     \<lparr>br_goal_id = sb_goal_id b, br_session_id = sb_session_id b, br_model = sb_model b, br_workspace = sb_workspace b,
      br_invalid = False, br_created_at = to_unix (sb_created_at b), br_updated_at = to_unix now, br_last_active_at = to_unix now,
      br_origin = sb_origin b, br_dispatcher = sb_dispatcher b\<rparr>"

definition sql_binding_upsert ::
  "binding_store \<Rightarrow> timestamp \<Rightarrow> session_binding \<Rightarrow> binding_row list \<Rightarrow> (claude_error + unit) \<times> binding_row list" where
  "sql_binding_upsert c now b s =
     (if \<not> bs_up c now then (Inl db_down, s)
      else if \<exists>r \<in> set s. br_goal_id r = sb_goal_id b
           then (Inr (), map (\<lambda>r. if br_goal_id r = sb_goal_id b then merged_row now b r else r) s)
      else (Inr (), s @ [fresh_row now b]))"

definition sql_binding_clear ::
  "binding_store \<Rightarrow> timestamp \<Rightarrow> uuid \<Rightarrow> binding_row list \<Rightarrow> (claude_error + unit) \<times> binding_row list" where
  "sql_binding_clear c now g s = (if \<not> bs_up c now then (Inl db_down, s) else (Inr (), filter (\<lambda>r. br_goal_id r \<noteq> g) s))"

definition sql_binding_mark_invalid ::
  "binding_store \<Rightarrow> timestamp \<Rightarrow> uuid \<Rightarrow> binding_row list \<Rightarrow> (claude_error + unit) \<times> binding_row list" where
  "sql_binding_mark_invalid c now g s =
     (if \<not> bs_up c now then (Inl db_down, s)
      else (Inr (), map (\<lambda>r. if br_goal_id r = g then r\<lparr>br_invalid := True, br_updated_at := to_unix now\<rparr> else r) s))"

definition sql_binding_touch ::
  "binding_store \<Rightarrow> timestamp \<Rightarrow> uuid \<Rightarrow> binding_row list \<Rightarrow> (claude_error + unit) \<times> binding_row list" where
  "sql_binding_touch c now g s =
     (if \<not> bs_up c now then (Inl db_down, s)
      else (Inr (), map (\<lambda>r. if br_goal_id r = g \<and> \<not> br_invalid r then r\<lparr>br_last_active_at := to_unix now\<rparr> else r) s))"

definition sql_binding_purge ::
  "binding_store \<Rightarrow> timestamp \<Rightarrow> timestamp \<Rightarrow> binding_row list \<Rightarrow> (claude_error + nat) \<times> binding_row list" where
  "sql_binding_purge c now cutoff s =
     (if \<not> bs_up c now then (Inl db_down, s)
      else (Inr (length (filter (\<lambda>r. br_last_active_at r < to_unix cutoff) s)), filter (\<lambda>r. \<not> br_last_active_at r < to_unix cutoff) s))"

definition sql_binding_list_active :: "binding_store \<Rightarrow> timestamp \<Rightarrow> binding_row list \<Rightarrow> claude_error + session_binding list" where
  "sql_binding_list_active c now s =
     (if \<not> bs_up c now then Inl db_down
      else Inr (map row_to_binding (sort_key (\<lambda>r. - br_last_active_at r) (filter (row_active now c) s))))"

definition sqlite_binding_ops :: "binding_store \<Rightarrow> binding_row list binding_ops" where
  "sqlite_binding_ops c =
     \<lparr>bo_get = sql_binding_get c, bo_upsert = sql_binding_upsert c, bo_clear = sql_binding_clear c,
      bo_mark_invalid = sql_binding_mark_invalid c, bo_touch = sql_binding_touch c, bo_purge = sql_binding_purge c,
      bo_list_active = sql_binding_list_active c\<rparr>"

subsection \<open>What a turn relies on\<close>

text \<open>
  A lookup never makes a session up: what it returns after an upsert is that session, after an invalidation nothing, and neither touches the
  binding of another goal.
\<close>

locale session_bindings =
  fixes ok :: "'s \<Rightarrow> bool"
    and get :: "timestamp \<Rightarrow> uuid \<Rightarrow> 's \<Rightarrow> claude_error + session_binding option"
    and upsert :: "timestamp \<Rightarrow> session_binding \<Rightarrow> 's \<Rightarrow> (claude_error + unit) \<times> 's"
    and mark_invalid :: "timestamp \<Rightarrow> uuid \<Rightarrow> 's \<Rightarrow> (claude_error + unit) \<times> 's"
  assumes ok_upsert: "ok s \<Longrightarrow> ok (snd (upsert now b s))"
    and ok_invalid: "ok s \<Longrightarrow> ok (snd (mark_invalid now g s))"
    and get_upsert: "ok s \<Longrightarrow> upsert now b s = (Inr (), s') \<Longrightarrow> get later (sb_goal_id b) s' = Inr (Some b') \<Longrightarrow>
      sb_session_id b' = sb_session_id b"
    and get_invalid: "ok s \<Longrightarrow> mark_invalid now g s = (Inr (), s') \<Longrightarrow> get later g s' \<noteq> Inr (Some b')"
    and get_other: "ok s \<Longrightarrow> g \<noteq> sb_goal_id b \<Longrightarrow> get later g (snd (upsert now b s)) = get later g s"
    and invalid_other: "ok s \<Longrightarrow> g \<noteq> h \<Longrightarrow> get later g (snd (mark_invalid now h s)) = get later g s"
begin

text \<open>Invalidating forgets an upsert, whatever session it stored.\<close>

lemma invalidated_upsert:
  assumes "ok s" "upsert now b s = (Inr (), s1)" "mark_invalid now' (sb_goal_id b) s1 = (Inr (), s2)"
  shows "ok s2 \<and> get later (sb_goal_id b) s2 \<noteq> Inr (Some b')"
  using ok_upsert [OF assms(1), of now b] assms ok_invalid [of s1 now' "sb_goal_id b"] get_invalid [of s1 now' "sb_goal_id b" s2 later b']
  by simp

end

lemma find_none_if: "(\<And>x. x \<in> set xs \<Longrightarrow> \<not> P x) \<Longrightarrow> find P xs = None"
  by (simp add: find_None_iff)

lemma find_Some_in: "find P xs = Some x \<Longrightarrow> x \<in> set xs \<and> P x"
  by (metis find_Some_iff nth_mem)

lemma find_map_other:
  assumes "\<And>x. x \<in> set xs \<Longrightarrow> P x \<Longrightarrow> f x = x" "\<And>x. x \<in> set xs \<Longrightarrow> P (f x) = P x"
  shows "find P (map f xs) = find P xs"
  using assms by (induction xs) auto

text \<open>At most one row per goal: \<open>goal_id\<close> is the primary key.\<close>

definition binding_rows_ok :: "binding_row list \<Rightarrow> bool" where
  "binding_rows_ok s \<longleftrightarrow> distinct (map br_goal_id s)"

lemma same_goals_ok: "(\<And>r. r \<in> set s \<Longrightarrow> br_goal_id (f r) = br_goal_id r) \<Longrightarrow> binding_rows_ok s \<Longrightarrow> binding_rows_ok (map f s)"
  by (simp add: binding_rows_ok_def comp_def cong: map_cong)

lemma sql_upsert_ok: "binding_rows_ok s \<Longrightarrow> binding_rows_ok (snd (sql_binding_upsert c now b s))"
proof (cases "\<exists>r \<in> set s. br_goal_id r = sb_goal_id b")
  case True
  assume "binding_rows_ok s"
  with True show ?thesis by (auto simp: sql_binding_upsert_def intro!: same_goals_ok) (simp add: merged_row_def)
next
  case False
  assume "binding_rows_ok s"
  with False show ?thesis by (auto simp: sql_binding_upsert_def binding_rows_ok_def fresh_row_def)
qed

lemma find_upsert_other:
  assumes "g \<noteq> sb_goal_id b"
  shows "find (\<lambda>r. br_goal_id r = g \<and> P r) (snd (sql_binding_upsert c now b s)) = find (\<lambda>r. br_goal_id r = g \<and> P r) s"
proof -
  have "find (\<lambda>r. br_goal_id r = g \<and> P r) (map (\<lambda>r. if br_goal_id r = sb_goal_id b then merged_row now b r else r) s) =
      find (\<lambda>r. br_goal_id r = g \<and> P r) s"
    by (rule find_map_other) (use assms in \<open>auto simp: merged_row_def\<close>)
  then show ?thesis using assms by (simp add: sql_binding_upsert_def find_append fresh_row_def split: option.splits)
qed

lemma find_invalid_other:
  assumes "g \<noteq> h"
  shows "find (\<lambda>r. br_goal_id r = g \<and> P r) (snd (sql_binding_mark_invalid c now h s)) = find (\<lambda>r. br_goal_id r = g \<and> P r) s"
proof -
  have "find (\<lambda>r. br_goal_id r = g \<and> P r)
      (map (\<lambda>r. if br_goal_id r = h then r\<lparr>br_invalid := True, br_updated_at := to_unix now\<rparr> else r) s) =
      find (\<lambda>r. br_goal_id r = g \<and> P r) s"
    by (rule find_map_other) (use assms in auto)
  then show ?thesis by (simp add: sql_binding_mark_invalid_def)
qed

interpretation memory: session_bindings "\<lambda>_. True" mem_binding_get mem_binding_upsert mem_binding_clear
  by unfold_locales (auto simp: mem_binding_get_def mem_binding_upsert_def mem_binding_clear_def map_of_update map_of_delete split: option.splits)

interpretation sqlite: session_bindings binding_rows_ok "sql_binding_get c" "sql_binding_upsert c" "sql_binding_mark_invalid c"
proof
  show "binding_rows_ok (snd (sql_binding_upsert c now b s))" if "binding_rows_ok s" for s now b
    using that by (rule sql_upsert_ok)
  show "binding_rows_ok (snd (sql_binding_mark_invalid c now g s))" if "binding_rows_ok s" for s now g
    using that by (auto simp: sql_binding_mark_invalid_def intro: same_goals_ok)
  show "sb_session_id b' = sb_session_id b"
    if up: "sql_binding_upsert c now b s = (Inr (), s')" and got: "sql_binding_get c later (sb_goal_id b) s' = Inr (Some b')"
    for s now b s' later b'
  proof -
    obtain r where r: "r \<in> set s'" "br_goal_id r = sb_goal_id b" "b' = row_to_binding r"
      using got by (auto simp: sql_binding_get_def split: if_splits dest!: find_Some_in)
    have "br_session_id r = sb_session_id b"
      using up r(1,2) by (auto simp: sql_binding_upsert_def merged_row_def fresh_row_def split: if_splits)
    with r(3) show ?thesis by (simp add: row_to_binding_def)
  qed
  show "sql_binding_get c later g s' \<noteq> Inr (Some b')"
    if "binding_rows_ok s" "sql_binding_mark_invalid c now g s = (Inr (), s')" for s now g s' later b'
    using that(2) by (auto simp: sql_binding_mark_invalid_def sql_binding_get_def find_Some_iff row_active_def split: if_splits)
  show "sql_binding_get c later g (snd (sql_binding_upsert c now b s)) = sql_binding_get c later g s"
    if "binding_rows_ok s" "g \<noteq> sb_goal_id b" for s g b later now
    using that(2) by (simp add: sql_binding_get_def find_upsert_other)
  show "sql_binding_get c later g (snd (sql_binding_mark_invalid c now h s)) = sql_binding_get c later g s"
    if "binding_rows_ok s" "g \<noteq> h" for s g h later now
    using that(2) by (simp add: sql_binding_get_def find_invalid_other)
qed

subsection \<open>A session that got too old\<close>

text \<open>An upsert keeps the row's creation instant, which the age filter reads.\<close>

lemma aged_row_upsert:
  assumes "binding_rows_ok s" "r \<in> set s" "br_goal_id r = sb_goal_id b"
  shows "\<exists>r' \<in> set (snd (sql_binding_upsert c now b s)). br_goal_id r' = sb_goal_id b \<and> br_created_at r' = br_created_at r"
proof (cases "bs_up c now")
  case True
  then have "merged_row now b r \<in> set (snd (sql_binding_upsert c now b s))"
    using assms(2,3) by (auto simp: sql_binding_upsert_def)
  then show ?thesis using assms(3) by (intro bexI) (simp_all add: merged_row_def)
next
  case False
  then show ?thesis using assms(2,3) by (auto simp: sql_binding_upsert_def)
qed

lemma aged_rows_hidden:
  assumes "binding_rows_ok s" "r \<in> set s" "bs_max_age c = Some age" "br_created_at r < to_unix now - int age div second"
  shows "sql_binding_get c now (br_goal_id r) s \<in> {Inr None, Inl db_down}"
proof -
  have "\<not> row_active now c x" if "x \<in> set s" "br_goal_id x = br_goal_id r" for x
  proof -
    have "x = r" using assms(1,2) that by (auto simp: binding_rows_ok_def distinct_map inj_on_def)
    then show ?thesis using assms(3,4) by (simp add: row_active_def ttl_cutoffs_def Let_def)
  qed
  then have "find (\<lambda>x. br_goal_id x = br_goal_id r \<and> row_active now c x) s = None" by (auto simp: find_None_iff)
  then show ?thesis by (simp add: sql_binding_get_def)
qed

fun upsert_all :: "binding_store \<Rightarrow> (timestamp \<times> session_binding) list \<Rightarrow> binding_row list \<Rightarrow> binding_row list" where
  "upsert_all c [] s = s"
| "upsert_all c ((t, b) # bs) s = upsert_all c bs (snd (sql_binding_upsert c t b s))"

text \<open>C35. Once a goal's row is older than the configured maximum age, storing new sessions does not help: whatever is upserted for the goal in
  the meantime, no lookup after that instant finds a binding, so every later turn of the goal starts a session of its own.\<close>

theorem aged_binding_never_resumes:
  assumes "binding_rows_ok s" and "r \<in> set s" and "\<forall>p \<in> set upserts. sb_goal_id (snd p) = br_goal_id r"
    and "bs_max_age c = Some age" and "br_created_at r < to_unix now - int age div second"
  shows "sql_binding_get c now (br_goal_id r) (upsert_all c upserts s) \<in> {Inr None, Inl db_down}"
  using assms(1-3,5)
proof (induction upserts arbitrary: s r)
  case Nil
  then show ?case using aged_rows_hidden [OF _ _ assms(4)] by simp
next
  case (Cons p upserts)
  obtain t b where p: "p = (t, b)" by (cases p)
  have g: "br_goal_id r = sb_goal_id b" using Cons.prems(3) p by auto
  obtain r' where r': "r' \<in> set (snd (sql_binding_upsert c t b s))" "br_goal_id r' = sb_goal_id b" "br_created_at r' = br_created_at r"
    using aged_row_upsert [OF Cons.prems(1,2) g, of c t] by auto
  from Cons.IH [OF sql_upsert_ok [OF Cons.prems(1)] r'(1)] Cons.prems(3,4) r'(2,3) g show ?case by (simp add: p)
qed

theorem aged_binding_never_resumes_witness:
  defines "c \<equiv> with_max_age (60 * 1000000000) \<lparr>bs_idle_ttl = None, bs_max_age = None, bs_up = \<lambda>_. True\<rparr>"
    and "b \<equiv> new_binding 0 (Uuid 1) ''first'' None None"
  shows "sql_binding_get c 100000000000 (Uuid 1)
    (upsert_all c [(90000000000, new_binding 90000000000 (Uuid 1) ''second'' None None)] [fresh_row 0 b]) = Inr None"
proof -
  have "sql_binding_get c 100000000000 (br_goal_id (fresh_row 0 b))
    (upsert_all c [(90000000000, new_binding 90000000000 (Uuid 1) ''second'' None None)] [fresh_row 0 b]) \<in> {Inr None, Inl db_down}"
    by (rule aged_binding_never_resumes [of _ _ _ _ "60 * 1000000000"])
       (simp_all add: c_def b_def binding_rows_ok_def fresh_row_def new_binding_def with_max_age_def to_unix_def second_def)
  then show ?thesis by (auto simp: fresh_row_def b_def c_def new_binding_def sql_binding_get_def with_max_age_def)
qed

end
