(* ===== verification/Claude_Turn.thy ===== *)
theory Claude_Turn
  imports Session_Binding Agent_Registry
begin

section \<open>One turn of a goal (\<open>crates/driver-loop/src/attempt.rs\<close>)\<close>

text \<open>
  Goals and budgets of \<open>driver-types\<close>, the events of the \<open>claude\<close> CLI, and \<open>run_attempt\<close>, which runs the CLI once and maps what it streams to
  an outcome.  The subprocess is an argument: from the call it gets (prompt and session to resume) it has the events it streams, the time
  it takes and the evaluator's verdict.  So are the parsers of serde and \<open>to_lowercase\<close>.
\<close>

subsection \<open>Goals and budgets (\<open>driver-types/src/goal.rs\<close>, \<open>acceptance.rs\<close>, \<open>attempt.rs\<close>)\<close>

record budget_guards =
  bg_max_turns :: u32
  bg_max_wall_time :: duration
  bg_max_tokens :: "64 word"
  bg_max_consecutive_denies :: u32
  bg_max_consecutive_errors :: u32
  bg_max_consecutive_413 :: u32

datatype budget_axis = AxisTurns | AxisWallTime | AxisTokens | AxisConsecutiveDenies | AxisConsecutiveErrors | AxisConsecutive413

definition is_exhausted :: "budget_guards \<Rightarrow> budget_usage \<Rightarrow> budget_axis option" where
  "is_exhausted b u =
     (if bg_max_turns b \<le> bu_turns u then Some AxisTurns
      else if bg_max_wall_time b \<le> bu_wall_time u then Some AxisWallTime
      else if bg_max_tokens b \<le> bu_tokens u then Some AxisTokens
      else if bg_max_consecutive_denies b \<le> bu_consecutive_denies u then Some AxisConsecutiveDenies
      else if 0 < bg_max_consecutive_errors b \<and> bg_max_consecutive_errors b \<le> bu_consecutive_errors u then Some AxisConsecutiveErrors
      else if 0 < bg_max_consecutive_413 b \<and> bg_max_consecutive_413 b \<le> bu_consecutive_413 u then Some AxisConsecutive413
      else None)"

datatype acceptance_criterion =
    ShellCommand string "32 word option" "string option" "64 word"
  | FileMatches string string bool
  | CustomCriterion string json
  | LlmJudge string

record goal =
  go_id :: uuid
  go_description :: string
  go_acceptance :: "acceptance_criterion list"
  go_budget :: budget_guards
  go_workspace :: "string option"
  go_metadata :: "(string \<times> json) list"

definition with_agent_id :: "string \<Rightarrow> goal \<Rightarrow> goal" where
  "with_agent_id a g = g\<lparr>go_metadata := json_insert ''agent_id'' (JString a) (go_metadata g)\<rparr>"

definition goal_agent_id :: "goal \<Rightarrow> string option" where
  "goal_agent_id g =
     (case map_of (go_metadata g) ''agent_id'' of
        Some (JString s) \<Rightarrow> if s = [] then None else Some s
      | _ \<Rightarrow> None)"

datatype attempt_outcome =
    AttemptDone
  | NeedsRetry "acceptance_failure list"
  | AttemptContinue string
  | AttemptSleep "64 word" string
  | BudgetExhausted budget_axis
  | AttemptCancelled
  | AttemptEscalate string

record 'd full_attempt = "'d attempt_result" +
  at_outcome :: attempt_outcome

subsection \<open>What the CLI streams (\<open>driver-claude/src/event.rs\<close>)\<close>

record token_usage =
  tu_input :: "64 word"
  tu_output :: "64 word"
  tu_cache_creation :: "64 word"
  tu_cache_read :: "64 word"

datatype claude_event =
    SystemInit string
  | AssistantEvent string
  | UserEvent string
  | ResultSuccess string "string option" token_usage
  | ResultMaxTurns string
  | ResultError "string option" "string option"
  | OtherEvent

primrec event_session_id :: "claude_event \<Rightarrow> string option" where
  "event_session_id (SystemInit s) = Some s"
| "event_session_id (AssistantEvent s) = Some s"
| "event_session_id (UserEvent s) = Some s"
| "event_session_id (ResultSuccess s r u) = Some s"
| "event_session_id (ResultMaxTurns s) = Some s"
| "event_session_id (ResultError s m) = s"
| "event_session_id OtherEvent = None"

subsection \<open>The prompt\<close>

definition nl :: string where "nl = [CHR 0x0A]"

definition operator_block :: "(string \<times> json) list \<Rightarrow> string" where
  "operator_block extras =
     (case map_of extras ''operator_messages'' of
        Some (JArray msgs) \<Rightarrow>
          if msgs = [] then []
          else ''[OPERATOR INTERRUPT]'' @ nl @
            concat (map (\<lambda>m. case json_str (Some m) of Some s \<Rightarrow> s @ nl | None \<Rightarrow> []) msgs) @ ''[END OPERATOR INTERRUPT]'' @ nl @ nl
      | _ \<Rightarrow> [])"

definition tick_block :: "(string \<times> json) list \<Rightarrow> string" where
  "tick_block extras =
     (case json_str (map_of extras ''synthetic_tick_prompt'') of
        Some t \<Rightarrow> if t = [] then [] else t @ nl @ nl
      | None \<Rightarrow> [])"

definition attempt_prompt :: "goal \<Rightarrow> (string \<times> json) list \<Rightarrow> string" where
  "attempt_prompt g extras =
     (if json_true (map_of extras ''compact_turn'')
      then ''/compact '' @ (case json_str (map_of extras ''compact_focus'') of Some f \<Rightarrow> f | None \<Rightarrow> ''continue working'')
      else operator_block extras @ tick_block extras @ go_description g)"

subsection \<open>Reading the stream\<close>

text \<open>\<open>io_ended\<close> is the instant at which the binding is stored; a stream that just ends is \<open>Ok(None)\<close>.\<close>

record turn_io =
  io_spawn :: "claude_error option"
  io_events :: "(claude_error + claude_event) list"
  io_ended :: timestamp
  io_elapsed :: duration
  io_verdict :: "string + acceptance_verdict"

record claude_call =
  cc_prompt :: string
  cc_resume :: "string option"

record 's turn_deps =
  td_ops :: "'s binding_ops"
  td_parse :: "string \<Rightarrow> json option"
  td_as_u64 :: "json \<Rightarrow> 64 word option"
  td_lower :: "string \<Rightarrow> string"
  td_origin :: "json \<Rightarrow> origin_channel option"
  td_dispatcher :: "json \<Rightarrow> dispatcher_identity option"
  td_model :: "string option"

datatype driver_error =
    DriverConfig string
  | DriverWorkspace string
  | DriverTraversal string
  | DriverHarness string
  | DriverClaude claude_error
  | DriverPermission string
  | DriverAcceptance string
  | DriverSocket string
  | DriverIo string
  | DriverSerde string
  | DriverYaml string
  | DriverNats string
  | DriverOther string

definition map_sleep_result :: "(json \<Rightarrow> 64 word option) \<Rightarrow> json \<Rightarrow> attempt_outcome option" where
  "map_sleep_result as_u64 v =
     (if \<not> json_true (json_get ''__nexo_sleep__'' v) then None
      else case Option.bind (json_get ''duration_ms'' v) as_u64 of
             None \<Rightarrow> None
           | Some d \<Rightarrow>
               (case json_str (json_get ''reason'' v) of
                  None \<Rightarrow> None
                | Some r \<Rightarrow> Some (AttemptSleep d r)))"

record turn_read =
  tr_session :: "string option"
  tr_usage :: budget_usage
  tr_text :: "string option"
  tr_claimed_done :: bool
  tr_session_invalid :: bool
  tr_error :: "string option"

datatype stream_end = StreamEnded | StreamParked attempt_outcome | StreamBroke claude_error

definition sat_add :: "64 word \<Rightarrow> 64 word \<Rightarrow> 64 word" where
  "sat_add a b = (if unat a + unat b < 2 ^ 64 then a + b else - 1)"

definition charge_tokens :: "token_usage \<Rightarrow> budget_usage \<Rightarrow> budget_usage" where
  "charge_tokens tu u = u\<lparr>bu_tokens := sat_add (bu_tokens u) (tu_input tu + tu_output tu + tu_cache_read tu)\<rparr>"

fun read_events :: "'s turn_deps \<Rightarrow> (claude_error + claude_event) list \<Rightarrow> turn_read \<Rightarrow> stream_end \<times> turn_read" where
  "read_events d [] t = (StreamEnded, t)"
| "read_events d (Inl e # evs) t = (StreamBroke e, t)"
| "read_events d (Inr ev # evs) t =
     (let t1 = (case event_session_id ev of Some s \<Rightarrow> t\<lparr>tr_session := Some s\<rparr> | None \<Rightarrow> t)
      in case ev of
           ResultSuccess s result tu \<Rightarrow>
             let t2 = t1\<lparr>tr_usage := charge_tokens tu (tr_usage t1)\<rparr>
             in (case Option.bind (Option.bind result (td_parse d)) (map_sleep_result (td_as_u64 d)) of
                   Some out \<Rightarrow> (StreamParked out, t2)
                 | None \<Rightarrow> (StreamEnded, t2\<lparr>tr_text := result, tr_claimed_done := True\<rparr>))
         | ResultMaxTurns s \<Rightarrow> (StreamEnded, t1\<lparr>tr_error := Some ''claude reported max turns''\<rparr>)
         | ResultError s message \<Rightarrow>
             let m = (case message of Some m \<Rightarrow> m | None \<Rightarrow> [])
             in (StreamEnded, t1\<lparr>tr_session_invalid := tr_session_invalid t1 \<or> contains ''session'' (td_lower d m), tr_error := Some m\<rparr>)
         | _ \<Rightarrow> read_events d evs t1)"

subsection \<open>The attempt\<close>

definition session_extras :: "string option \<Rightarrow> (string \<times> json) list" where
  "session_extras sid = (case sid of Some s \<Rightarrow> [(''claude_code.session_id'', JString s)] | None \<Rightarrow> [])"

definition attempt_of ::
  "goal \<Rightarrow> u32 \<Rightarrow> attempt_outcome \<Rightarrow> budget_usage \<Rightarrow> acceptance_verdict option \<Rightarrow> string option \<Rightarrow> (string \<times> json) list \<Rightarrow> 'd full_attempt" where
  "attempt_of g turn out u acc text extras =
     \<lparr>at_goal_id = go_id g, at_turn_index = turn, at_decisions = [], at_usage_after = u, at_acceptance = acc, at_final_text = text,
      at_harness_extras = extras, at_outcome = out\<rparr>"

definition synthetic :: "goal \<Rightarrow> u32 \<Rightarrow> attempt_outcome \<Rightarrow> budget_usage \<Rightarrow> 'd full_attempt" where
  "synthetic g turn out u = attempt_of g turn out u None None []"

definition broken_stream :: "claude_error \<Rightarrow> attempt_outcome" where
  "broken_stream e =
     (if e = ClaudeCancelled then AttemptCancelled
      else if e = ClaudeTimeout then AttemptContinue ''turn timeout''
      else AttemptEscalate (''stream error: '' @ claude_error_str e))"

text \<open>A member of the metadata that is there, is not null and parses.\<close>

definition metadata_value :: "(json \<Rightarrow> 'a option) \<Rightarrow> string \<Rightarrow> goal \<Rightarrow> 'a option" where
  "metadata_value parse k g =
     (case map_of (go_metadata g) k of
        None \<Rightarrow> None
      | Some v \<Rightarrow> if v = JNull then None else parse v)"

definition turn_binding :: "'s turn_deps \<Rightarrow> timestamp \<Rightarrow> goal \<Rightarrow> string \<Rightarrow> string \<Rightarrow> session_binding" where
  "turn_binding d now g ws sid =
     (let b = new_binding now (go_id g) sid (td_model d) (Some ws);
          b1 = (case metadata_value (td_origin d) ''origin_channel'' g of Some c \<Rightarrow> with_origin c b | None \<Rightarrow> b)
      in case metadata_value (td_dispatcher d) ''dispatcher'' g of Some i \<Rightarrow> with_dispatcher i b1 | None \<Rightarrow> b1)"

definition store_binding ::
  "'s turn_deps \<Rightarrow> timestamp \<Rightarrow> goal \<Rightarrow> string \<Rightarrow> string option \<Rightarrow> 's \<Rightarrow> (claude_error + unit) \<times> 's" where
  "store_binding d now g ws sid s =
     (case sid of None \<Rightarrow> (Inr (), s) | Some i \<Rightarrow> bo_upsert (td_ops d) now (turn_binding d now g ws i) s)"

text \<open>The largest \<open>Duration\<close>, at which \<open>saturating_add\<close> stops.\<close>

definition max_duration :: duration where "max_duration = (2 ^ 64 - 1) * 10 ^ 9 + 999999999"

definition charge_time :: "duration \<Rightarrow> budget_usage \<Rightarrow> budget_usage" where
  "charge_time t u = u\<lparr>bu_wall_time := min (bu_wall_time u + t) max_duration\<rparr>"

text \<open>After the stream has ended: store the binding, then tell the outcome.\<close>

definition settle_turn ::
  "'s turn_deps \<Rightarrow> turn_io \<Rightarrow> goal \<Rightarrow> u32 \<Rightarrow> string \<Rightarrow> turn_read \<Rightarrow> 's \<Rightarrow> (driver_error + 'd full_attempt) \<times> 's" where
  "settle_turn d io g turn ws t s =
     (case store_binding d (io_ended io) g ws (tr_session t) s of
        (Inl e, s1) \<Rightarrow> (Inl (DriverClaude e), s1)
      | (Inr _, s1) \<Rightarrow>
          let u = charge_time (io_elapsed io) (tr_usage t);
              result = (\<lambda>out acc. attempt_of g turn out u acc (tr_text t) (session_extras (tr_session t)))
          in if tr_session_invalid t then
               (case bo_mark_invalid (td_ops d) (io_ended io) (go_id g) s1 of
                  (Inl e, s2) \<Rightarrow> (Inl (DriverClaude e), s2)
                | (Inr _, s2) \<Rightarrow> (Inr (result (AttemptContinue ''session invalid: retrying'') None), s2))
             else case tr_error t of
                    Some m \<Rightarrow> (Inr (result (AttemptEscalate m) None), s1)
                  | None \<Rightarrow>
                      if \<not> tr_claimed_done t then (Inr (result (AttemptContinue ''stream ended without result event'') None), s1)
                      else case io_verdict io of
                             Inl m \<Rightarrow> (Inl (DriverAcceptance m), s1)
                           | Inr v \<Rightarrow> (Inr (result (if av_met v then AttemptDone else NeedsRetry (av_failures v)) (Some v)), s1))"

definition attempt_call :: "goal \<Rightarrow> (string \<times> json) list \<Rightarrow> session_binding option \<Rightarrow> claude_call" where
  "attempt_call g extras prior = \<lparr>cc_prompt = attempt_prompt g extras, cc_resume = map_option sb_session_id prior\<rparr>"

definition first_read :: "session_binding option \<Rightarrow> budget_usage \<Rightarrow> turn_read" where
  "first_read prior u =
     \<lparr>tr_session = map_option sb_session_id prior, tr_usage = u, tr_text = None, tr_claimed_done = False, tr_session_invalid = False,
      tr_error = None\<rparr>"

definition run_attempt ::
  "'s turn_deps \<Rightarrow> timestamp \<Rightarrow> (claude_call \<Rightarrow> turn_io) \<Rightarrow> goal \<Rightarrow> u32 \<Rightarrow> budget_usage \<Rightarrow> (string \<times> json) list \<Rightarrow> string \<Rightarrow> 's \<Rightarrow>
     (driver_error + 'd full_attempt) \<times> 's" where
  "run_attempt d now claude g turn u extras ws s =
     (case bo_get (td_ops d) now (go_id g) s of
        Inl e \<Rightarrow> (Inl (DriverClaude e), s)
      | Inr prior \<Rightarrow>
          let io = claude (attempt_call g extras prior)
          in case io_spawn io of
               Some e \<Rightarrow>
                 (Inr (synthetic g turn (if e = ClaudeCancelled then AttemptCancelled else AttemptEscalate (''spawn failed: '' @ claude_error_str e)) u), s)
             | None \<Rightarrow>
                 (case read_events d (io_events io) (first_read prior u) of
                    (StreamBroke e, t) \<Rightarrow> (Inr (synthetic g turn (broken_stream e) (tr_usage t)), s)
                  | (StreamParked out, t) \<Rightarrow>
                      (Inr (attempt_of g turn out (tr_usage t) None None (session_extras (tr_session t))), s)
                  | (StreamEnded, t) \<Rightarrow> settle_turn d io g turn ws t s))"

end
