(* ===== verification/Goal_Policies.thy ===== *)
theory Goal_Policies
  imports Claude_Turn
begin

section \<open>What to do after a failed turn, and when to compact (\<open>driver-loop/src/replay.rs\<close>, \<open>driver-types/src/compact_policy.rs\<close>)\<close>

text \<open>
  The default policies of the goal loop, as functions of the contexts the loop gives them, and the circuit breaker of compactions.
  Floating-point arithmetic is an argument: \<open>positive\<close> decides whether a fraction is above zero and \<open>reaches\<close> whether the quotient of the
  tokens by the window is at least the fraction.
\<close>

subsection \<open>Replay\<close>

datatype replay_hint = HintContinue | HintEscalate

record replay_context =
  rx_goal_id :: uuid
  rx_turn_index :: u32
  rx_checkpoint :: "string option"
  rx_usage :: budget_usage
  rx_error :: string
  rx_hint :: replay_hint

datatype replay_decision =
    FreshSessionRetry "string option"
  | NextTurn "string option"
  | CompactAndRetry
  | ReplayEscalate string

definition contains_any :: "string list \<Rightarrow> string \<Rightarrow> bool" where
  "contains_any ps s \<longleftrightarrow> (\<exists>p \<in> set ps. contains p s)"

definition session_dead :: "string \<Rightarrow> bool" where
  "session_dead msg \<longleftrightarrow> contains ''session'' msg \<and> contains_any [''not found'', ''expired'', ''invalid''] msg"

definition transient :: "string \<Rightarrow> bool" where
  "transient msg \<longleftrightarrow> contains_any [''timeout'', ''rate limit'', ''unavailable'', ''temporarily''] msg"

definition prompt_too_long :: "string \<Rightarrow> bool" where
  "prompt_too_long msg \<longleftrightarrow>
     contains_any [''prompt too long'', ''prompt_too_long'', ''context_length_exceeded'', ''payload_too_large''] msg"

definition default_fresh_session_retries :: u32 where "default_fresh_session_retries = 1"

definition default_replay :: "(string \<Rightarrow> string) \<Rightarrow> u32 \<Rightarrow> replay_context \<Rightarrow> replay_decision" where
  "default_replay lower retries x =
     (let msg = lower (rx_error x)
      in if prompt_too_long msg then CompactAndRetry
         else if session_dead msg then FreshSessionRetry (rx_checkpoint x)
         else if transient msg then
           (if bu_consecutive_errors (rx_usage x) < retries then FreshSessionRetry (rx_checkpoint x)
            else ReplayEscalate (''transient errors persist after '' @ show_decimal (unat retries) @ '' retries: '' @ rx_error x))
         else NextTurn None)"

subsection \<open>Compaction\<close>

definition FOCUS_TRUNCATE_CHARS :: nat where "FOCUS_TRUNCATE_CHARS = 140"

text \<open>\<open>TokenPressure\<close> also carries the quotient of its two numbers as a float.\<close>

datatype compact_trigger =
    TokenPressure "64 word" "64 word"
  | AgeTrigger "64 word" "64 word"

primrec compact_trigger_str :: "compact_trigger \<Rightarrow> string" where
  "compact_trigger_str (TokenPressure t w) = ''token_pressure''"
| "compact_trigger_str (AgeTrigger a m) = ''age''"

record 'f auto_compaction =
  au_token_pct :: 'f
  au_max_age_minutes :: "64 word"
  au_buffer_tokens :: "64 word"
  au_min_turns_between :: u32
  au_max_consecutive_failures :: u32

record 'f compact_context =
  cx_goal_id :: uuid
  cx_turn_index :: u32
  cx_usage :: budget_usage
  cx_context_window :: "64 word"
  cx_last_compact_turn :: "u32 option"
  cx_goal_description :: string
  cx_session_age_minutes :: "64 word"
  cx_auto_config :: "'f auto_compaction option"

record 'f compact_policy =
  cp_enabled :: bool
  cp_threshold :: 'f
  cp_min_turns_between :: u32
  cp_max_consecutive_failures :: u32

definition default_compact_policy :: "'f \<Rightarrow> 'f compact_policy" where
  "default_compact_policy seven_tenths =
     \<lparr>cp_enabled = True, cp_threshold = seven_tenths, cp_min_turns_between = 5, cp_max_consecutive_failures = 3\<rparr>"

definition sat_sub :: "('a::len) word \<Rightarrow> 'a word \<Rightarrow> 'a word" where
  "sat_sub a b = (if b \<le> a then a - b else 0)"

definition compact_focus :: "string \<Rightarrow> string" where
  "compact_focus description = ''continue goal: '' @ take_chars FOCUS_TRUNCATE_CHARS description"

definition compact_min_gap :: "'f compact_policy \<Rightarrow> 'f compact_context \<Rightarrow> u32" where
  "compact_min_gap p x = (case cx_auto_config x of Some a \<Rightarrow> au_min_turns_between a | None \<Rightarrow> cp_min_turns_between p)"

definition compact_pct :: "('f \<Rightarrow> bool) \<Rightarrow> 'f compact_policy \<Rightarrow> 'f compact_context \<Rightarrow> 'f" where
  "compact_pct positive p x =
     (case cx_auto_config x of
        Some a \<Rightarrow> if positive (au_token_pct a) then au_token_pct a else cp_threshold p
      | None \<Rightarrow> cp_threshold p)"

definition default_compact ::
  "('f \<Rightarrow> bool) \<Rightarrow> (64 word \<Rightarrow> 64 word \<Rightarrow> 'f \<Rightarrow> bool) \<Rightarrow> 'f compact_policy \<Rightarrow> 'f compact_context \<Rightarrow> (string \<times> compact_trigger) option" where
  "default_compact positive reaches p x =
     (if \<not> cp_enabled p \<or> cx_context_window x = 0 then None
      else if sat_sub (cx_turn_index x) (case cx_last_compact_turn x of Some t \<Rightarrow> t | None \<Rightarrow> 0) < compact_min_gap p x then None
      else if reaches (bu_tokens (cx_usage x)) (cx_context_window x) (compact_pct positive p x)
      then Some (compact_focus (cx_goal_description x), TokenPressure (bu_tokens (cx_usage x)) (cx_context_window x))
      else case cx_auto_config x of
             None \<Rightarrow> None
           | Some a \<Rightarrow>
               if 0 < au_max_age_minutes a \<and> au_max_age_minutes a \<le> cx_session_age_minutes x
               then Some (compact_focus (cx_goal_description x), AgeTrigger (cx_session_age_minutes x) (au_max_age_minutes a))
               else None)"

record compact_breaker =
  cb_failures :: u32
  cb_last_turn :: "u32 option"

definition new_compact_breaker :: compact_breaker where
  "new_compact_breaker = \<lparr>cb_failures = 0, cb_last_turn = None\<rparr>"

definition is_tripped :: "u32 \<Rightarrow> compact_breaker \<Rightarrow> bool" where
  "is_tripped n b \<longleftrightarrow> 0 < n \<and> n \<le> cb_failures b"

definition sat_inc :: "('a::len) word \<Rightarrow> 'a word" where
  "sat_inc a = (if a = - 1 then a else a + 1)"

definition record_failure :: "compact_breaker \<Rightarrow> compact_breaker" where
  "record_failure b = b\<lparr>cb_failures := sat_inc (cb_failures b)\<rparr>"

definition record_success :: "u32 \<Rightarrow> compact_breaker \<Rightarrow> compact_breaker" where
  "record_success turn b = \<lparr>cb_failures = 0, cb_last_turn = Some turn\<rparr>"

text \<open>The per-result policy of micro-compaction.\<close>

record micro_context =
  mx_call_id :: string
  mx_body_byte_size :: "64 word"
  mx_turn_index :: u32
  mx_cache_breakpoint :: u32

record micro_decision =
  md_call_id :: string
  md_original_byte_size :: "64 word"
  md_marker_turn :: u32

record micro_policy =
  mp_enabled :: bool
  mp_min_body_bytes :: "64 word"

definition default_micro_policy :: micro_policy where
  "default_micro_policy = \<lparr>mp_enabled = True, mp_min_body_bytes = 8 * 1024\<rparr>"

definition micro_compact :: "micro_policy \<Rightarrow> micro_context \<Rightarrow> micro_decision option" where
  "micro_compact p x =
     (if \<not> mp_enabled p then None
      else if mx_body_byte_size x < mp_min_body_bytes p then None
      else if mx_turn_index x < mx_cache_breakpoint x then None
      else Some \<lparr>md_call_id = mx_call_id x, md_original_byte_size = mx_body_byte_size x, md_marker_turn = mx_turn_index x\<rparr>)"

lemma unat_sat_inc: "unat (sat_inc (a :: 'a::len word)) = (if a = - 1 then unat a else unat a + 1)"
proof (cases "a = - 1")
  case False
  then have "a + 1 \<noteq> 0" by (metis add.commute add_eq_0_iff minus_equation_iff)
  with False show ?thesis by (simp add: sat_inc_def unatSuc add.commute)
qed (simp add: sat_inc_def)

lemma sat_inc_ge: "unat a \<le> unat (sat_inc a)"
  by (simp add: unat_sat_inc)

end
