(* ===== verification/Goal_Loop.thy ===== *)
theory Goal_Loop
  imports Goal_Policies "HOL-Library.List_Lexorder" "HOL-Library.Char_ord"
begin

section \<open>The goal loop (\<open>crates/driver-loop/src/orchestrator.rs\<close>)\<close>

text \<open>
  The orchestrator's tables, the operations other tasks call on them, and \<open>run_goal\<close>, which drives a goal turn by turn.  An iteration of the
  loop is one step: what other tasks do to the tables in between is the function \<open>others\<close>, and what the world answers during the iteration
  (git, the CLI, hooks, the sleep) is a record \<open>iteration_io\<close>.  Everything the loop publishes or does outside is a list of effects.  One loop
  runs per goal id, so the token and the receiver a loop holds are the entries of its goal.
\<close>

subsection \<open>State\<close>

text \<open>A \<open>watch\<close> sender is its value, a cancellation token whether it was cancelled itself; the root cancels all its children.  A hook is its name.\<close>

record orchestrator =
  od_paused :: "(uuid, bool) table"
  od_cancel :: "(uuid, bool) table"
  od_overrides :: "(uuid, budget_guards) table"
  od_interrupts :: "(uuid, string list) table"
  od_breaker :: compact_breaker
  od_dreams :: "(string, string) table"
  od_root_cancelled :: bool

definition new_orchestrator :: "string option \<Rightarrow> orchestrator" where
  "new_orchestrator hook =
     \<lparr>od_paused = [], od_cancel = [], od_overrides = [], od_interrupts = [], od_breaker = new_compact_breaker,
      od_dreams = (case hook of Some h \<Rightarrow> [(''_default'', h)] | None \<Rightarrow> []), od_root_cancelled = False\<rparr>"

subsection \<open>What other tasks call\<close>

definition register_auto_dream :: "string \<Rightarrow> string \<Rightarrow> orchestrator \<Rightarrow> string option \<times> orchestrator" where
  "register_auto_dream agent h s = (map_of (od_dreams s) agent, s\<lparr>od_dreams := AList.update agent h (od_dreams s)\<rparr>)"

definition unregister_auto_dream :: "string \<Rightarrow> orchestrator \<Rightarrow> string option \<times> orchestrator" where
  "unregister_auto_dream agent s = (map_of (od_dreams s) agent, s\<lparr>od_dreams := AList.delete agent (od_dreams s)\<rparr>)"

definition auto_dream_agents :: "orchestrator \<Rightarrow> string list" where
  "auto_dream_agents s = sort (map fst (od_dreams s))"

definition has_auto_dream :: "orchestrator \<Rightarrow> bool" where
  "has_auto_dream s \<longleftrightarrow> od_dreams s \<noteq> []"

definition set_auto_dream :: "string option \<Rightarrow> orchestrator \<Rightarrow> orchestrator" where
  "set_auto_dream hook s =
     (case hook of
        Some h \<Rightarrow> s\<lparr>od_dreams := AList.update ''_default'' h (od_dreams s)\<rparr>
      | None \<Rightarrow> s\<lparr>od_dreams := []\<rparr>)"

definition set_pause :: "bool \<Rightarrow> uuid \<Rightarrow> orchestrator \<Rightarrow> bool \<times> orchestrator" where
  "set_pause b g s =
     (case map_of (od_paused s) g of
        Some _ \<Rightarrow> (True, s\<lparr>od_paused := AList.update g b (od_paused s)\<rparr>)
      | None \<Rightarrow> (False, s))"

definition pause_goal :: "uuid \<Rightarrow> orchestrator \<Rightarrow> bool \<times> orchestrator" where
  "pause_goal = set_pause True"

definition resume_goal :: "uuid \<Rightarrow> orchestrator \<Rightarrow> bool \<times> orchestrator" where
  "resume_goal = set_pause False"

definition is_paused :: "uuid \<Rightarrow> orchestrator \<Rightarrow> bool" where
  "is_paused g s = (case map_of (od_paused s) g of Some b \<Rightarrow> b | None \<Rightarrow> False)"

definition year :: duration where "year = 60 * 60 * 24 * 365 * 10 ^ 9"

definition fresh_override :: "u32 \<Rightarrow> budget_guards" where
  "fresh_override n =
     \<lparr>bg_max_turns = n, bg_max_wall_time = year, bg_max_tokens = - 1, bg_max_consecutive_denies = - 1, bg_max_consecutive_errors = - 1,
      bg_max_consecutive_413 = 2\<rparr>"

definition set_goal_max_turns :: "uuid \<Rightarrow> u32 \<Rightarrow> orchestrator \<Rightarrow> u32 option \<times> orchestrator" where
  "set_goal_max_turns g n s =
     (case map_of (od_cancel s) g of
        None \<Rightarrow> (None, s)
      | Some _ \<Rightarrow>
          let e = (case map_of (od_overrides s) g of Some b \<Rightarrow> b | None \<Rightarrow> fresh_override n);
              e1 = (if bg_max_turns e < n then e\<lparr>bg_max_turns := n\<rparr> else e)
          in (Some (bg_max_turns e1), s\<lparr>od_overrides := AList.update g e1 (od_overrides s)\<rparr>))"

definition interrupt_goal :: "uuid \<Rightarrow> string \<Rightarrow> orchestrator \<Rightarrow> nat \<times> orchestrator" where
  "interrupt_goal g msg s =
     (let q = (case map_of (od_interrupts s) g of Some q \<Rightarrow> q | None \<Rightarrow> []) @ [msg]
      in (length q, s\<lparr>od_interrupts := AList.update g q (od_interrupts s)\<rparr>))"

definition drain_interrupts :: "uuid \<Rightarrow> orchestrator \<Rightarrow> string list \<times> orchestrator" where
  "drain_interrupts g s =
     (case map_of (od_interrupts s) g of
        Some q \<Rightarrow> (q, s\<lparr>od_interrupts := AList.update g [] (od_interrupts s)\<rparr>)
      | None \<Rightarrow> ([], s))"

definition or_insert :: "'k \<Rightarrow> 'v \<Rightarrow> ('k, 'v) table \<Rightarrow> ('k, 'v) table" where
  "or_insert k v m = (case map_of m k of Some _ \<Rightarrow> m | None \<Rightarrow> AList.update k v m)"

definition pre_register_goal :: "uuid \<Rightarrow> orchestrator \<Rightarrow> orchestrator" where
  "pre_register_goal g s = s\<lparr>od_paused := or_insert g False (od_paused s), od_cancel := or_insert g False (od_cancel s)\<rparr>"

definition cancel_goal :: "uuid \<Rightarrow> orchestrator \<Rightarrow> bool \<times> orchestrator" where
  "cancel_goal g s =
     (case map_of (od_cancel s) g of
        Some _ \<Rightarrow> (True, s\<lparr>od_cancel := AList.update g True (od_cancel s)\<rparr>)
      | None \<Rightarrow> (False, s))"

definition is_goal_cancelled :: "uuid \<Rightarrow> orchestrator \<Rightarrow> bool" where
  "is_goal_cancelled g s = (case map_of (od_cancel s) g of Some b \<Rightarrow> b \<or> od_root_cancelled s | None \<Rightarrow> False)"

definition shutdown :: "orchestrator \<Rightarrow> orchestrator" where
  "shutdown s = s\<lparr>od_root_cancelled := True\<rparr>"

subsection \<open>Effects\<close>

record goal_outcome =
  gc_goal_id :: uuid
  gc_outcome :: attempt_outcome
  gc_total_turns :: u32
  gc_usage :: budget_usage
  gc_final_text :: "string option"
  gc_acceptance :: "acceptance_verdict option"
  gc_elapsed :: duration

record compact_summary =
  cs_agent_id :: uuid
  cs_summary :: string
  cs_turn_index :: u32
  cs_before_tokens :: "64 word"
  cs_after_tokens :: "64 word"
  cs_stored_at :: timestamp

datatype 'd loop_effect =
    GoalStarted goal
  | AttemptStarted u32 budget_usage
  | AttemptCompleted "'d full_attempt"
  | CompactCompleted u32 "64 word"
  | StoredSummary compact_summary
  | SummaryStored u32 "64 word" "64 word"
  | Progress u32 budget_usage "string option"
  | ExtractTick
  | Extracted u32 string
  | ExtractSkipped string
  | DreamChecked string
  | CompactRequested u32 string "64 word" "64 word" compact_trigger
  | Accepted acceptance_verdict
  | ReplayDecided u32 replay_decision string
  | RolledBack string
  | Escalated string
  | BudgetSpent budget_axis budget_usage
  | GoalCompleted goal_outcome

record ('s, 'd) loop_state =
  lp_usage :: budget_usage
  lp_failures :: "acceptance_failure list"
  lp_acceptance :: "acceptance_verdict option"
  lp_text :: "string option"
  lp_turns :: u32
  lp_extras :: "(string \<times> json) list option"
  lp_was_compact :: bool
  lp_before_tokens :: "64 word"
  lp_orch :: orchestrator
  lp_bindings :: 's
  lp_effects :: "'d loop_effect list"

datatype wake_result = WakeFired "64 word" | WakeCancelled

text \<open>One iteration's answers.  \<open>it_checkpoint\<close> is \<open>None\<close> when the checkpoint failed, \<open>it_diff\<close> when there is no diff to show.\<close>

record iteration_io =
  it_now :: timestamp
  it_age_minutes :: "64 word"
  it_checkpoint :: "string option"
  it_claude :: "claude_call \<Rightarrow> turn_io"
  it_diff :: "string option"
  it_extract_skip :: "string option"
  it_wake :: wake_result

record ('s, 'f) loop_cfg =
  lc_deps :: "'s turn_deps"
  lc_replay :: "replay_context \<Rightarrow> replay_decision"
  lc_compact :: "'f compact_context \<Rightarrow> (string \<times> compact_trigger) option"
  lc_context_window :: "64 word"
  lc_auto_config :: "'f auto_compaction option"
  lc_progress_every :: u32
  lc_extract :: bool
  lc_memory_dir :: bool
  lc_workspace :: string

definition put_effects :: "'d loop_effect list \<Rightarrow> ('s, 'd) loop_state \<Rightarrow> ('s, 'd) loop_state" where
  "put_effects es ls = ls\<lparr>lp_effects := lp_effects ls @ es\<rparr>"

subsection \<open>Before the turn\<close>

definition effective_budget :: "goal \<Rightarrow> orchestrator \<Rightarrow> budget_guards" where
  "effective_budget g s =
     (case map_of (od_overrides s) (go_id g) of
        Some b \<Rightarrow> (go_budget g)\<lparr>bg_max_turns := max (bg_max_turns b) (bg_max_turns (go_budget g))\<rparr>
      | None \<Rightarrow> go_budget g)"

definition loop_gate :: "goal \<Rightarrow> ('s, 'd) loop_state \<Rightarrow> attempt_outcome option \<times> ('s, 'd) loop_state" where
  "loop_gate g ls =
     (case is_exhausted (effective_budget g (lp_orch ls)) (lp_usage ls) of
        Some axis \<Rightarrow> (Some (BudgetExhausted axis), put_effects [BudgetSpent axis (lp_usage ls)] ls)
      | None \<Rightarrow> (if is_goal_cancelled (go_id g) (lp_orch ls) then Some AttemptCancelled else None, ls))"

definition failure_json :: "acceptance_failure \<Rightarrow> json" where
  "failure_json f =
     JObject ([(''criterion_index'', JNumber (show_decimal (af_criterion_index f))), (''criterion_label'', JString (af_criterion_label f)),
               (''message'', JString (af_message f))] @
              (case af_evidence f of Some e \<Rightarrow> [(''evidence'', JString e)] | None \<Rightarrow> []))"

definition build_attempt_extras :: "acceptance_failure list \<Rightarrow> budget_guards \<Rightarrow> u32 \<Rightarrow> (string \<times> json) list" where
  "build_attempt_extras failures b turn =
     (let m = json_insert ''max_turns'' (JNumber (show_decimal (unat (bg_max_turns b))))
                (json_insert ''turn_index'' (JNumber (show_decimal (unat turn))) [])
      in if failures = [] then m else json_insert ''prior_failures'' (JArray (map failure_json failures)) m)"

text \<open>The extras of the attempt: what an earlier iteration prepared, or fresh ones, with the operator's messages.\<close>

definition attempt_extras :: "goal \<Rightarrow> ('s, 'd) loop_state \<Rightarrow> (string \<times> json) list \<times> orchestrator" where
  "attempt_extras g ls =
     (let extras = (case lp_extras ls of Some e \<Rightarrow> e | None \<Rightarrow> build_attempt_extras (lp_failures ls) (go_budget g) (lp_turns ls))
      in case drain_interrupts (go_id g) (lp_orch ls) of
           (pending, s) \<Rightarrow>
             (if pending = [] then extras else json_insert ''operator_messages'' (JArray (map JString pending)) extras, s))"

definition no_git :: string where "no_git = ''<no-git>''"

definition checkpoint_of :: "iteration_io \<Rightarrow> string" where
  "checkpoint_of io = (case it_checkpoint io of Some sha \<Rightarrow> sha | None \<Rightarrow> no_git)"

definition with_diff :: "iteration_io \<Rightarrow> 'd full_attempt \<Rightarrow> 'd full_attempt" where
  "with_diff io r =
     (case it_diff io of
        Some diff \<Rightarrow>
          if checkpoint_of io = no_git then r
          else r\<lparr>at_harness_extras := json_insert ''worktree.checkpoint_sha'' (JString (checkpoint_of io))
                  (json_insert ''worktree.diff_stat'' (JString diff) (at_harness_extras r))\<rparr>
      | None \<Rightarrow> r)"

subsection \<open>After the turn\<close>

text \<open>A compact turn: its outcome only tells whether the compaction worked.\<close>

definition compact_worked :: "attempt_outcome \<Rightarrow> bool" where
  "compact_worked out = (case out of AttemptDone \<Rightarrow> True | NeedsRetry _ \<Rightarrow> True | _ \<Rightarrow> False)"

definition absorb_compact ::
  "('s, 'f) loop_cfg \<Rightarrow> goal \<Rightarrow> iteration_io \<Rightarrow> 'd full_attempt \<Rightarrow> ('s, 'd) loop_state \<Rightarrow> ('s, 'd) loop_state" where
  "absorb_compact c g io r ls =
     (let worked = compact_worked (at_outcome r); s = lp_orch ls; turns = lp_turns ls; tokens = bu_tokens (lp_usage ls);
          s1 = s\<lparr>od_breaker := (if worked then record_success turns else record_failure) (od_breaker s)\<rparr>;
          stored = (case at_final_text r of
                      Some text \<Rightarrow>
                        [StoredSummary \<lparr>cs_agent_id = go_id g, cs_summary = text, cs_turn_index = turns, cs_before_tokens = lp_before_tokens ls,
                          cs_after_tokens = tokens, cs_stored_at = it_now io\<rparr>]
                    | None \<Rightarrow> []) @
                   [SummaryStored turns (lp_before_tokens ls) tokens] @ (if lc_extract c \<and> lc_memory_dir c then [ExtractTick] else [])
      in put_effects ([AttemptCompleted r, CompactCompleted turns tokens] @ (if worked then stored else []))
           (ls\<lparr>lp_was_compact := False, lp_orch := s1\<rparr>))"

definition extract_effects :: "('s, 'f) loop_cfg \<Rightarrow> iteration_io \<Rightarrow> u32 \<Rightarrow> 'd full_attempt \<Rightarrow> 'd loop_effect list" where
  "extract_effects c io turns r =
     (if \<not> lc_extract c then []
      else ExtractTick #
        (case it_extract_skip io of
           Some reason \<Rightarrow> [ExtractSkipped reason]
         | None \<Rightarrow> (case at_final_text r of Some text \<Rightarrow> if lc_memory_dir c then [Extracted turns text] else [] | None \<Rightarrow> [])))"

definition dream_effects :: "goal \<Rightarrow> orchestrator \<Rightarrow> 'd loop_effect list" where
  "dream_effects g s =
     (case goal_agent_id g of
        None \<Rightarrow> []
      | Some a \<Rightarrow> (case map_of (od_dreams s) a of Some _ \<Rightarrow> [DreamChecked a] | None \<Rightarrow> []))"

text \<open>A turn of work is counted, reported and followed by the hooks.\<close>

definition count_turn ::
  "('s, 'f) loop_cfg \<Rightarrow> goal \<Rightarrow> iteration_io \<Rightarrow> 'd full_attempt \<Rightarrow> ('s, 'd) loop_state \<Rightarrow> ('s, 'd) loop_state" where
  "count_turn c g io r ls =
     (let turns = lp_turns ls + 1; u = (lp_usage ls)\<lparr>bu_turns := turns\<rparr>;
          progress = (if 0 < lc_progress_every c \<and> 0 < turns \<and> turns mod lc_progress_every c = 0
                      then [Progress turns u (at_final_text r)] else [])
      in put_effects ([AttemptCompleted r] @ progress @ extract_effects c io turns r @ dream_effects g (lp_orch ls))
           (ls\<lparr>lp_text := at_final_text r, lp_acceptance := at_acceptance r, lp_turns := turns, lp_usage := u\<rparr>))"

definition schedule_compact ::
  "('s, 'f) loop_cfg \<Rightarrow> goal \<Rightarrow> iteration_io \<Rightarrow> ('s, 'd) loop_state \<Rightarrow> ('s, 'd) loop_state" where
  "schedule_compact c g io ls =
     (let b = od_breaker (lp_orch ls);
          max_failures = (case lc_auto_config c of Some a \<Rightarrow> au_max_consecutive_failures a | None \<Rightarrow> 3);
          x = \<lparr>cx_goal_id = go_id g, cx_turn_index = lp_turns ls, cx_usage = lp_usage ls, cx_context_window = lc_context_window c,
               cx_last_compact_turn = cb_last_turn b, cx_goal_description = go_description g,
               cx_session_age_minutes = it_age_minutes io, cx_auto_config = lc_auto_config c\<rparr>
      in if is_tripped max_failures b then ls
         else case lc_compact c x of
                None \<Rightarrow> ls
              | Some (focus, trigger) \<Rightarrow>
                  put_effects [CompactRequested (lp_turns ls) focus (bu_tokens (lp_usage ls)) (it_age_minutes io) trigger]
                    (ls\<lparr>lp_before_tokens := bu_tokens (lp_usage ls), lp_was_compact := True,
                       lp_extras := Some (json_insert ''compact_focus'' (JString focus) (json_insert ''compact_turn'' (JBool True) []))\<rparr>))"

definition clear_errors :: "('s, 'd) loop_state \<Rightarrow> ('s, 'd) loop_state" where
  "clear_errors ls = ls\<lparr>lp_usage := (lp_usage ls)\<lparr>bu_consecutive_errors := 0\<rparr>\<rparr>"

text \<open>The turn is taken back: the same logical turn runs again.\<close>

definition undo_turn :: "('s, 'd) loop_state \<Rightarrow> ('s, 'd) loop_state" where
  "undo_turn ls =
     (let turns = sat_sub (lp_turns ls) 1
      in ls\<lparr>lp_turns := turns, lp_usage := (lp_usage ls)\<lparr>bu_turns := turns\<rparr>, lp_failures := []\<rparr>)"

definition rollback_effects :: "string option \<Rightarrow> 'd loop_effect list" where
  "rollback_effects sha = (case sha of Some s \<Rightarrow> [RolledBack s] | None \<Rightarrow> [])"

definition replay_turn ::
  "('s, 'f) loop_cfg \<Rightarrow> goal \<Rightarrow> iteration_io \<Rightarrow> replay_hint \<Rightarrow> string \<Rightarrow> ('s, 'd) loop_state \<Rightarrow> attempt_outcome option \<times> ('s, 'd) loop_state" where
  "replay_turn c g io hint reason ls =
     (let cp = (if checkpoint_of io = no_git then None else Some (checkpoint_of io));
          x = \<lparr>rx_goal_id = go_id g, rx_turn_index = lp_turns ls, rx_checkpoint = cp, rx_usage = lp_usage ls, rx_error = reason, rx_hint = hint\<rparr>;
          d = lc_replay c x; ls1 = put_effects [ReplayDecided (lp_turns ls) d reason] ls; u = lp_usage ls
      in case d of
           FreshSessionRetry sha \<Rightarrow>
             (None, undo_turn (put_effects (rollback_effects sha)
                (ls1\<lparr>lp_bindings := snd (bo_mark_invalid (td_ops (lc_deps c)) (it_now io) (go_id g) (lp_bindings ls)),
                     lp_usage := u\<lparr>bu_consecutive_errors := sat_inc (bu_consecutive_errors u)\<rparr>\<rparr>)))
         | NextTurn sha \<Rightarrow> (None, put_effects (rollback_effects sha) (ls1\<lparr>lp_failures := []\<rparr>))
         | CompactAndRetry \<Rightarrow> (None, undo_turn (ls1\<lparr>lp_usage := u\<lparr>bu_consecutive_413 := sat_inc (bu_consecutive_413 u)\<rparr>\<rparr>))
         | ReplayEscalate why \<Rightarrow> (Some (AttemptEscalate why), put_effects [Escalated why] ls1))"

definition build_tick_prompt :: "string \<Rightarrow> 64 word \<Rightarrow> string" where
  "build_tick_prompt reason elapsed_ms =
     ''<tick>'' @ nl @ ''kind: sleep_wake'' @ nl @ ''elapsed_ms: '' @ show_decimal (unat elapsed_ms) @ nl @ ''reason: '' @ reason @ nl @ ''</tick>''"

definition wake_up :: "goal \<Rightarrow> iteration_io \<Rightarrow> string \<Rightarrow> ('s, 'd) loop_state \<Rightarrow> attempt_outcome option \<times> ('s, 'd) loop_state" where
  "wake_up g io reason ls =
     (case it_wake io of
        WakeCancelled \<Rightarrow> (Some AttemptCancelled, ls)
      | WakeFired ms \<Rightarrow>
          (None, ls\<lparr>lp_extras := Some (json_insert ''synthetic_tick_prompt'' (JString (build_tick_prompt reason ms))
                      (build_attempt_extras (lp_failures ls) (go_budget g) (lp_turns ls)))\<rparr>))"

definition judge_turn ::
  "('s, 'f) loop_cfg \<Rightarrow> goal \<Rightarrow> iteration_io \<Rightarrow> attempt_outcome \<Rightarrow> ('s, 'd) loop_state \<Rightarrow> attempt_outcome option \<times> ('s, 'd) loop_state" where
  "judge_turn c g io out ls =
     (case out of
        AttemptDone \<Rightarrow> (Some AttemptDone, clear_errors ls)
      | NeedsRetry failures \<Rightarrow> (None, (clear_errors ls)\<lparr>lp_failures := failures\<rparr>)
      | AttemptSleep ms reason \<Rightarrow> wake_up g io reason ((clear_errors ls)\<lparr>lp_failures := []\<rparr>)
      | AttemptContinue reason \<Rightarrow> replay_turn c g io HintContinue reason ls
      | AttemptEscalate reason \<Rightarrow> replay_turn c g io HintEscalate reason ls
      | AttemptCancelled \<Rightarrow> (Some AttemptCancelled, ls)
      | BudgetExhausted axis \<Rightarrow> (Some (BudgetExhausted axis), put_effects [BudgetSpent axis (lp_usage ls)] ls))"

subsection \<open>The loop\<close>

definition begin_attempt :: "goal \<Rightarrow> ('s, 'd) loop_state \<Rightarrow> (string \<times> json) list \<times> ('s, 'd) loop_state" where
  "begin_attempt g ls =
     (case attempt_extras g ls of
        (extras, s) \<Rightarrow> (extras, put_effects [AttemptStarted (lp_turns ls) (lp_usage ls)] (ls\<lparr>lp_extras := None, lp_orch := s\<rparr>)))"

definition after_attempt ::
  "('s, 'f) loop_cfg \<Rightarrow> goal \<Rightarrow> iteration_io \<Rightarrow> 'd full_attempt \<Rightarrow> ('s, 'd) loop_state \<Rightarrow> attempt_outcome option \<times> ('s, 'd) loop_state" where
  "after_attempt c g io r ls =
     (let ls1 = ls\<lparr>lp_usage := at_usage_after r\<rparr>
      in if lp_was_compact ls then (None, absorb_compact c g io r ls1)
         else judge_turn c g io (at_outcome r)
           (put_effects (case at_acceptance r of Some v \<Rightarrow> [Accepted v] | None \<Rightarrow> [])
             (schedule_compact c g io (count_turn c g io r ls1))))"

definition goal_turn ::
  "('s, 'f) loop_cfg \<Rightarrow> goal \<Rightarrow> iteration_io \<Rightarrow> ('s, 'd) loop_state \<Rightarrow> (driver_error + attempt_outcome option) \<times> ('s, 'd) loop_state" where
  "goal_turn c g io ls =
     (case begin_attempt g ls of
        (extras, ls1) \<Rightarrow>
          (case run_attempt (lc_deps c) (it_now io) (it_claude io) g (lp_turns ls) (lp_usage ls) extras (lc_workspace c) (lp_bindings ls) of
             (Inl e, s) \<Rightarrow> (Inl e, ls1\<lparr>lp_bindings := s\<rparr>)
           | (Inr r, s) \<Rightarrow>
               (case after_attempt c g io (with_diff io r) (ls1\<lparr>lp_bindings := s\<rparr>) of
                  (out, ls2) \<Rightarrow> (Inr out, ls2))))"

text \<open>An iteration that finds the goal paused, and not cancelled, waits for what the others do next.\<close>

partial_function (option) goal_loop ::
  "('s, 'f) loop_cfg \<Rightarrow> goal \<Rightarrow> (nat \<Rightarrow> orchestrator \<Rightarrow> orchestrator) \<Rightarrow> (nat \<Rightarrow> iteration_io) \<Rightarrow> nat \<Rightarrow> ('s, 'd) loop_state \<Rightarrow>
     ((driver_error + attempt_outcome) \<times> ('s, 'd) loop_state) option" where
  "goal_loop c g others io n ls =
     (let ls1 = ls\<lparr>lp_orch := others n (lp_orch ls)\<rparr>
      in if is_paused (go_id g) (lp_orch ls1) \<and> \<not> is_goal_cancelled (go_id g) (lp_orch ls1) then goal_loop c g others io (n + 1) ls1
         else case loop_gate g ls1 of
                (Some out, ls2) \<Rightarrow> Some (Inr out, ls2)
              | (None, ls2) \<Rightarrow>
                  (case goal_turn c g (io n) ls2 of
                     (Inl e, ls3) \<Rightarrow> Some (Inl e, ls3)
                   | (Inr (Some out), ls3) \<Rightarrow> Some (Inr out, ls3)
                   | (Inr None, ls3) \<Rightarrow> goal_loop c g others io (n + 1) ls3))"

definition first_state :: "string option \<Rightarrow> orchestrator \<Rightarrow> 's \<Rightarrow> ('s, 'd) loop_state" where
  "first_state summary s b =
     \<lparr>lp_usage = no_usage, lp_failures = [], lp_acceptance = None, lp_text = None, lp_turns = 0,
      lp_extras = map_option (\<lambda>t. [(''compact_summary'', JString t)]) summary, lp_was_compact = False, lp_before_tokens = 0,
      lp_orch = s, lp_bindings = b, lp_effects = []\<rparr>"

definition end_goal :: "uuid \<Rightarrow> orchestrator \<Rightarrow> orchestrator" where
  "end_goal g s =
     s\<lparr>od_paused := AList.delete g (od_paused s), od_cancel := AList.delete g (od_cancel s),
       od_overrides := AList.delete g (od_overrides s), od_interrupts := AList.delete g (od_interrupts s)\<rparr>"

definition outcome_of :: "goal \<Rightarrow> duration \<Rightarrow> attempt_outcome \<Rightarrow> ('s, 'd) loop_state \<Rightarrow> goal_outcome" where
  "outcome_of g t out ls =
     \<lparr>gc_goal_id = go_id g, gc_outcome = out, gc_total_turns = lp_turns ls, gc_usage = lp_usage ls, gc_final_text = lp_text ls,
      gc_acceptance = lp_acceptance ls, gc_elapsed = t\<rparr>"

text \<open>\<open>ensure\<close> is the error of making the workspace or writing its configuration, \<open>summary\<close> what the summary store has for the goal.\<close>

definition run_goal ::
  "('s, 'f) loop_cfg \<Rightarrow> goal \<Rightarrow> driver_error option \<Rightarrow> string option \<Rightarrow> duration \<Rightarrow> (nat \<Rightarrow> orchestrator \<Rightarrow> orchestrator) \<Rightarrow> (nat \<Rightarrow> iteration_io) \<Rightarrow>
     orchestrator \<Rightarrow> 's \<Rightarrow> ((driver_error + goal_outcome) \<times> ('s, 'd) loop_state) option" where
  "run_goal c g ensure summary t others io s b =
     (let ls = put_effects [GoalStarted g] (first_state summary (pre_register_goal (go_id g) s) b)
      in case ensure of
           Some e \<Rightarrow> Some (Inl e, ls)
         | None \<Rightarrow>
             (case goal_loop c g others io 0 ls of
                None \<Rightarrow> None
              | Some (Inl e, ls1) \<Rightarrow> Some (Inl e, ls1)
              | Some (Inr out, ls1) \<Rightarrow>
                  let r = outcome_of g t out ls1
                  in Some (Inr r, put_effects [GoalCompleted r] (ls1\<lparr>lp_orch := end_goal (go_id g) (lp_orch ls1)\<rparr>))))"

end
