(* ===== verification/Goal_Facts.thy ===== *)
theory Goal_Facts
  imports Goal_Loop
begin

section \<open>What the goal loop guarantees\<close>

text \<open>
  Lemmas on one attempt and one iteration, the rules for the loop (an invariant for what it returns, a measure for that it returns), and the
  properties of \<open>run_goal\<close>.
\<close>

subsection \<open>One attempt\<close>

text \<open>An attempt only charges tokens and time.\<close>

definition same_counts :: "budget_usage \<Rightarrow> budget_usage \<Rightarrow> bool" where
  "same_counts u v \<longleftrightarrow>
     bu_turns u = bu_turns v \<and> bu_consecutive_denies u = bu_consecutive_denies v \<and> bu_consecutive_errors u = bu_consecutive_errors v \<and>
     bu_consecutive_413 u = bu_consecutive_413 v"

lemma same_counts_refl [simp]: "same_counts u u"
  by (simp add: same_counts_def)

lemma charges_counts [simp]:
  "same_counts (charge_tokens tu u) v = same_counts u v" "same_counts (charge_time t u) v = same_counts u v"
  by (simp_all add: same_counts_def charge_tokens_def charge_time_def)

lemma read_events_counts: "read_events d evs t = (end, t') \<Longrightarrow> same_counts (tr_usage t') (tr_usage t)"
proof (induction d evs t rule: read_events.induct)
  case (3 d ev evs t)
  let ?t1 = "case event_session_id ev of Some s \<Rightarrow> t\<lparr>tr_session := Some s\<rparr> | None \<Rightarrow> t"
  have u: "tr_usage ?t1 = tr_usage t" by (simp split: option.split)
  show ?case
    using "3.prems" "3.IH" [OF refl] u by (cases ev) (auto simp: Let_def split: option.splits if_splits)
qed auto

lemma read_events_wall: "read_events d evs t = (end, t') \<Longrightarrow> bu_wall_time (tr_usage t') = bu_wall_time (tr_usage t)"
proof (induction d evs t rule: read_events.induct)
  case (3 d ev evs t)
  let ?t1 = "case event_session_id ev of Some s \<Rightarrow> t\<lparr>tr_session := Some s\<rparr> | None \<Rightarrow> t"
  have u: "tr_usage ?t1 = tr_usage t" by (simp split: option.split)
  show ?case
    using "3.prems" "3.IH" [OF refl] u by (cases ev) (auto simp: Let_def charge_tokens_def split: option.splits if_splits)
qed auto

lemma map_sleep_result_Some: "map_sleep_result f v = Some out \<Longrightarrow> \<exists>ms why. out = AttemptSleep ms why"
  by (auto simp: map_sleep_result_def split: if_splits option.splits)

lemma read_events_parked: "read_events d evs t = (StreamParked out, t') \<Longrightarrow> \<exists>ms why. out = AttemptSleep ms why"
proof (induction d evs t rule: read_events.induct)
  case (3 d ev evs t)
  show ?case
    using "3.prems" "3.IH" [OF refl]
    by (cases ev) (auto simp: Let_def bind_eq_Some_conv dest: map_sleep_result_Some split: option.splits)
qed auto

lemma attempt_of_simps [simp]:
  "at_usage_after (attempt_of g n out u acc text e) = u" "at_outcome (attempt_of g n out u acc text e) = out"
  "at_acceptance (attempt_of g n out u acc text e) = acc" "at_usage_after (synthetic g n out u) = u"
  "at_outcome (synthetic g n out u) = out" "at_final_text (attempt_of g n out u acc text e) = text"
  by (simp_all add: attempt_of_def synthetic_def)

lemma settle_turn_Inr:
  assumes "settle_turn d io g n ws t s = (Inr r, s')"
  shows "same_counts (at_usage_after r) (tr_usage t) \<and>
    (at_outcome r = AttemptDone \<longrightarrow> (\<exists>v. io_verdict io = Inr v \<and> av_met v \<and> at_acceptance r = Some v))"
  using assms by (auto simp: settle_turn_def Let_def split: prod.splits sum.splits if_splits option.splits)

lemma run_attempt_counts:
  assumes "run_attempt d now claude g n u extras ws s = (Inr r, s')"
  shows "same_counts (at_usage_after r) u"
  using assms settle_turn_Inr
  by (fastforce simp: run_attempt_def Let_def first_read_def same_counts_def dest: read_events_counts
      split: sum.splits option.splits prod.splits stream_end.splits)

text \<open>Only a turn that claimed to be done and whose verdict is positive is done.\<close>

lemma run_attempt_done:
  assumes "run_attempt d now claude g n u extras ws s = (Inr r, s')" "at_outcome r = AttemptDone"
  shows "\<exists>call v. io_verdict (claude call) = Inr v \<and> av_met v \<and> at_acceptance r = Some v"
proof -
  obtain prior where prior: "bo_get (td_ops d) now (go_id g) s = Inr prior"
    using assms(1) by (auto simp: run_attempt_def split: sum.splits)
  let ?io = "claude (attempt_call g extras prior)"
  have spawn: "io_spawn ?io = None"
    using assms prior by (auto simp: run_attempt_def Let_def split: option.splits if_splits)
  obtain ending t where read: "read_events d (io_events ?io) (first_read prior u) = (ending, t)" by (metis surj_pair)
  from assms prior spawn read have "settle_turn d ?io g n ws t s = (Inr r, s')"
    by (cases ending) (auto simp: run_attempt_def Let_def broken_stream_def dest: read_events_parked split: if_splits)
  from settle_turn_Inr [OF this] assms(2) show ?thesis by blast
qed

subsection \<open>One iteration\<close>

lemma put_effects_simps [simp]:
  "lp_usage (put_effects es ls) = lp_usage ls" "lp_turns (put_effects es ls) = lp_turns ls" "lp_orch (put_effects es ls) = lp_orch ls"
  "lp_was_compact (put_effects es ls) = lp_was_compact ls" "lp_acceptance (put_effects es ls) = lp_acceptance ls"
  "lp_bindings (put_effects es ls) = lp_bindings ls" "lp_extras (put_effects es ls) = lp_extras ls"
  "lp_failures (put_effects es ls) = lp_failures ls" "lp_text (put_effects es ls) = lp_text ls"
  "lp_effects (put_effects es ls) = lp_effects ls @ es"
  by (simp_all add: put_effects_def)

lemma with_diff_simps [simp]:
  "at_usage_after (with_diff io r) = at_usage_after r" "at_outcome (with_diff io r) = at_outcome r"
  "at_acceptance (with_diff io r) = at_acceptance r"
  by (simp_all add: with_diff_def split: option.split)

lemma begin_attempt_simps:
  assumes "begin_attempt g ls = (extras, ls1)"
  shows "lp_usage ls1 = lp_usage ls" "lp_turns ls1 = lp_turns ls" "lp_was_compact ls1 = lp_was_compact ls"
    "lp_effects ls1 = lp_effects ls @ [AttemptStarted (lp_turns ls) (lp_usage ls)]" "lp_bindings ls1 = lp_bindings ls"
    "lp_acceptance ls1 = lp_acceptance ls" "lp_orch ls1 = snd (drain_interrupts (go_id g) (lp_orch ls))"
  using assms by (auto simp: begin_attempt_def attempt_extras_def Let_def split: prod.splits)

lemma goal_turn_Inr:
  assumes "goal_turn c g io ls = (Inr out, ls')"
  obtains extras ls1 r s where "begin_attempt g ls = (extras, ls1)"
    and "run_attempt (lc_deps c) (it_now io) (it_claude io) g (lp_turns ls) (lp_usage ls) extras (lc_workspace c) (lp_bindings ls) = (Inr r, s)"
    and "after_attempt c g io (with_diff io r) (ls1\<lparr>lp_bindings := s\<rparr>) = (out, ls')"
  using assms by (auto simp: goal_turn_def split: prod.splits sum.splits)

lemma goal_turn_Inl:
  fixes ls :: "('s, 'd) loop_state"
  assumes "goal_turn c g io ls = (Inl e, ls')"
  obtains extras ls1 s where "begin_attempt g ls = (extras, ls1)"
    and "run_attempt (lc_deps c) (it_now io) (it_claude io) g (lp_turns ls) (lp_usage ls) extras (lc_workspace c) (lp_bindings ls)
      = (Inl e :: driver_error + 'd full_attempt, s)" and "ls' = ls1\<lparr>lp_bindings := s\<rparr>"
  using assms by (auto simp: goal_turn_def split: prod.splits sum.splits)

lemma schedule_compact_simps [simp]:
  "lp_usage (schedule_compact c g io ls) = lp_usage ls" "lp_turns (schedule_compact c g io ls) = lp_turns ls"
  "lp_orch (schedule_compact c g io ls) = lp_orch ls" "lp_acceptance (schedule_compact c g io ls) = lp_acceptance ls"
  "lp_bindings (schedule_compact c g io ls) = lp_bindings ls"
  by (simp_all add: schedule_compact_def Let_def split: option.split)

lemma count_turn_simps [simp]:
  "lp_turns (count_turn c g io r ls) = lp_turns ls + 1" "lp_usage (count_turn c g io r ls) = (lp_usage ls)\<lparr>bu_turns := lp_turns ls + 1\<rparr>"
  "lp_acceptance (count_turn c g io r ls) = at_acceptance r" "lp_orch (count_turn c g io r ls) = lp_orch ls"
  "lp_was_compact (count_turn c g io r ls) = lp_was_compact ls" "lp_bindings (count_turn c g io r ls) = lp_bindings ls"
  by (simp_all add: count_turn_def Let_def)

lemma absorb_compact_simps [simp]:
  "lp_turns (absorb_compact c g io r ls) = lp_turns ls" "lp_usage (absorb_compact c g io r ls) = lp_usage ls"
  "lp_was_compact (absorb_compact c g io r ls) = False" "lp_acceptance (absorb_compact c g io r ls) = lp_acceptance ls"
  by (simp_all add: absorb_compact_def Let_def)

text \<open>What the loop may do next: the turn and its two error counters.\<close>

definition loop_pos :: "('s, 'd) loop_state \<Rightarrow> u32 \<times> u32 \<times> u32" where
  "loop_pos ls = (lp_turns ls, bu_consecutive_errors (lp_usage ls), bu_consecutive_413 (lp_usage ls))"

text \<open>Every way a turn of work goes on moves the position forward.\<close>

definition moved_on :: "u32 \<times> u32 \<times> u32 \<Rightarrow> u32 \<times> u32 \<times> u32 \<Rightarrow> bool" where
  "moved_on p q \<longleftrightarrow>
     (case p of (t, e, f) \<Rightarrow>
        q = (t + 1, 0, f) \<or> q = (t + 1, e, f) \<or> q = (sat_sub (t + 1) 1, sat_inc e, f) \<or> q = (sat_sub (t + 1) 1, e, sat_inc f))"

lemma judge_turn_moves:
  assumes "judge_turn c g io out ls = (None, ls')" "bu_turns (lp_usage ls) = lp_turns ls" "loop_pos ls = (t + 1, e, f)"
  shows "bu_turns (lp_usage ls') = lp_turns ls' \<and> moved_on (t, e, f) (loop_pos ls')"
proof (cases out)
  case (AttemptSleep ms why)
  then show ?thesis using assms
    by (auto simp: judge_turn_def wake_up_def clear_errors_def loop_pos_def moved_on_def split: wake_result.splits)
next
  case (AttemptContinue why)
  then show ?thesis using assms
    by (auto simp: judge_turn_def replay_turn_def Let_def undo_turn_def loop_pos_def moved_on_def split: replay_decision.splits)
next
  case (AttemptEscalate why)
  then show ?thesis using assms
    by (auto simp: judge_turn_def replay_turn_def Let_def undo_turn_def loop_pos_def moved_on_def split: replay_decision.splits)
qed (use assms in \<open>auto simp: judge_turn_def clear_errors_def loop_pos_def moved_on_def\<close>)

text \<open>A compact turn leaves the position where it is.\<close>

lemma after_attempt_moves:
  assumes "after_attempt c g io r ls = (None, ls')" "same_counts (at_usage_after r) (lp_usage ls)" "bu_turns (lp_usage ls) = lp_turns ls"
  shows "bu_turns (lp_usage ls') = lp_turns ls' \<and>
    (if lp_was_compact ls then loop_pos ls' = loop_pos ls \<and> \<not> lp_was_compact ls' else moved_on (loop_pos ls) (loop_pos ls'))"
proof (cases "lp_was_compact ls")
  case True
  then show ?thesis using assms by (auto simp: after_attempt_def Let_def loop_pos_def same_counts_def)
next
  case False
  let ?ls = "put_effects (case at_acceptance r of Some v \<Rightarrow> [Accepted v] | None \<Rightarrow> [])
    (schedule_compact c g io (count_turn c g io r (ls\<lparr>lp_usage := at_usage_after r\<rparr>)))"
  have "judge_turn c g io (at_outcome r) ?ls = (None, ls')" using assms(1) False by (simp add: after_attempt_def Let_def)
  moreover have "bu_turns (lp_usage ?ls) = lp_turns ?ls" by simp
  moreover have "loop_pos ?ls = (lp_turns ls + 1, bu_consecutive_errors (lp_usage ls), bu_consecutive_413 (lp_usage ls))"
    using assms(2) by (simp add: loop_pos_def same_counts_def)
  ultimately show ?thesis using judge_turn_moves False by (fastforce simp: loop_pos_def)
qed

lemma goal_turn_moves:
  assumes "goal_turn c g io ls = (Inr None, ls')" "bu_turns (lp_usage ls) = lp_turns ls"
  shows "bu_turns (lp_usage ls') = lp_turns ls' \<and>
    (if lp_was_compact ls then loop_pos ls' = loop_pos ls \<and> \<not> lp_was_compact ls' else moved_on (loop_pos ls) (loop_pos ls'))"
proof -
  obtain extras ls1 r s where a: "begin_attempt g ls = (extras, ls1)"
    "run_attempt (lc_deps c) (it_now io) (it_claude io) g (lp_turns ls) (lp_usage ls) extras (lc_workspace c) (lp_bindings ls) = (Inr r, s)"
    "after_attempt c g io (with_diff io r) (ls1\<lparr>lp_bindings := s\<rparr>) = (None, ls')"
    using assms(1) by (rule goal_turn_Inr)
  have "loop_pos (ls1\<lparr>lp_bindings := s\<rparr>) = loop_pos ls" by (simp add: loop_pos_def begin_attempt_simps [OF a(1)])
  with after_attempt_moves [OF a(3)] run_attempt_counts [OF a(2)] assms(2) show ?thesis
    by (auto simp: begin_attempt_simps [OF a(1)] split: if_splits)
qed

subsection \<open>The loop returns\<close>

text \<open>
  How many iterations are left: a turn counts as many as it may have retries, an error of either kind one; a compact turn follows a turn of
  work, so it is the half of a step.
\<close>

definition iterations_left :: "nat \<Rightarrow> nat \<Rightarrow> nat \<Rightarrow> ('s, 'd) loop_state \<Rightarrow> nat" where
  "iterations_left m e f ls =
     (case loop_pos ls of (t, i, j) \<Rightarrow>
        2 * ((m - unat t) * (e + f + 1) + (e - unat i) + (f - unat j)) + (if lp_was_compact ls then 1 else 0))"

lemma unat_inc: "x < y \<Longrightarrow> unat (x + 1 :: 'a::len word) = unat x + 1"
proof -
  assume "x < y"
  then have "x \<noteq> - 1" by auto
  then show ?thesis using unat_sat_inc [of x] by (simp add: sat_inc_def)
qed

lemma unat_sat_inc_less: "x < y \<Longrightarrow> unat (sat_inc (x :: 'a::len word)) = unat x + 1"
  by (metis unat_sat_inc word_order.extremum_strict)

lemma moved_on_decreases:
  assumes "moved_on p q" "p = (t, i, j)" "t < m" "i < e" "j < f"
    and "\<And>p. left p = (case p of (t, i, j) \<Rightarrow> (unat m - unat t) * (unat e + unat f + 1) + (unat e - unat i) + (unat f - unat (j :: u32)))"
  shows "left q < left p"
proof -
  have t1: "unat (t + 1) = unat t + 1" using unat_inc [OF assms(3)] .
  have undone: "sat_sub (t + 1) 1 = t"
    using t1 by (auto simp: sat_sub_def word_le_nat_alt)
  have lt: "unat t < unat m" "unat i < unat e" "unat j < unat f" using assms(3-5) by (simp_all add: word_less_nat_alt)
  let ?w = "unat e + unat f + 1"
  have step: "(unat m - unat t) * ?w = (unat m - (unat t + 1)) * ?w + ?w"
    using lt(1) by (metis Suc_diff_Suc Suc_eq_plus1 add.commute mult_Suc)
  have inc: "unat (sat_inc i) = unat i + 1" "unat (sat_inc j) = unat j + 1" using unat_sat_inc_less assms(4,5) by blast+
  consider "q = (t + 1, 0, j)" | "q = (t + 1, i, j)" | "q = (t, sat_inc i, j)" | "q = (t, i, sat_inc j)"
    using assms(1,2) undone by (auto simp: moved_on_def)
  then show ?thesis
  proof cases
    case 1
    then show ?thesis using step lt t1 by (simp add: assms(2,6))
  next
    case 2
    then show ?thesis using step lt t1 by (simp add: assms(2,6))
  next
    case 3
    then show ?thesis using lt inc by (simp add: assms(2,6))
  next
    case 4
    then show ?thesis using lt inc by (simp add: assms(2,6))
  qed
qed

lemma is_exhausted_None:
  assumes "is_exhausted b u = None"
  shows "bu_turns u < bg_max_turns b" "bu_wall_time u < bg_max_wall_time b" "bu_tokens u < bg_max_tokens b"
    "bu_consecutive_denies u < bg_max_consecutive_denies b"
    "0 < bg_max_consecutive_errors b \<Longrightarrow> bu_consecutive_errors u < bg_max_consecutive_errors b"
    "0 < bg_max_consecutive_413 b \<Longrightarrow> bu_consecutive_413 u < bg_max_consecutive_413 b"
  using assms by (auto simp: is_exhausted_def not_le split: if_splits)

lemma loop_gate_None:
  assumes "loop_gate g ls = (None, ls')"
  shows "ls' = ls" "is_exhausted (effective_budget g (lp_orch ls)) (lp_usage ls) = None" "\<not> is_goal_cancelled (go_id g) (lp_orch ls)"
  using assms by (auto simp: loop_gate_def split: option.splits if_splits)

lemma effective_budget_simps [simp]:
  "bg_max_wall_time (effective_budget g s) = bg_max_wall_time (go_budget g)" "bg_max_tokens (effective_budget g s) = bg_max_tokens (go_budget g)"
  "bg_max_consecutive_denies (effective_budget g s) = bg_max_consecutive_denies (go_budget g)"
  "bg_max_consecutive_errors (effective_budget g s) = bg_max_consecutive_errors (go_budget g)"
  "bg_max_consecutive_413 (effective_budget g s) = bg_max_consecutive_413 (go_budget g)"
  by (simp_all add: effective_budget_def split: option.split)

text \<open>Attempts are counted by the events that announce them.\<close>

fun is_start :: "'d loop_effect \<Rightarrow> bool" where
  "is_start (AttemptStarted n u) = True"
| "is_start _ = False"

definition starts :: "('s, 'd) loop_state \<Rightarrow> 'd loop_effect list" where
  "starts ls = filter is_start (lp_effects ls)"

definition attempts :: "('s, 'd) loop_state \<Rightarrow> nat" where
  "attempts ls = length (starts ls)"

lemma starts_put [simp]: "starts (put_effects es ls) = starts ls @ filter is_start es"
  by (simp add: starts_def)

lemma schedule_compact_starts [simp]: "starts (schedule_compact c g io ls) = starts ls"
  by (simp add: schedule_compact_def Let_def split: option.split) (simp add: starts_def)

lemma count_turn_starts [simp]: "starts (count_turn c g io r ls) = starts ls"
  by (simp add: count_turn_def Let_def extract_effects_def dream_effects_def split: option.split) (simp add: starts_def)

lemma absorb_compact_starts [simp]: "starts (absorb_compact c g io r ls) = starts ls"
  by (simp add: absorb_compact_def Let_def split: option.split) (simp add: starts_def)

lemma starts_upd [simp]:
  "starts (ls\<lparr>lp_usage := u\<rparr>) = starts ls" "starts (ls\<lparr>lp_failures := fs\<rparr>) = starts ls" "starts (ls\<lparr>lp_bindings := b\<rparr>) = starts ls"
  "starts (ls\<lparr>lp_extras := e\<rparr>) = starts ls" "starts (ls\<lparr>lp_orch := s\<rparr>) = starts ls" "starts (ls\<lparr>lp_turns := n\<rparr>) = starts ls"
  by (simp_all add: starts_def)

lemma undo_turn_starts [simp]: "starts (undo_turn ls) = starts ls"
  by (simp add: undo_turn_def Let_def)

lemma replay_turn_starts: "starts (snd (replay_turn c g io hint why ls)) = starts ls"
  by (simp add: replay_turn_def Let_def rollback_effects_def split: replay_decision.split option.split)

lemma judge_turn_starts: "starts (snd (judge_turn c g io out ls)) = starts ls"
  by (simp add: judge_turn_def replay_turn_starts wake_up_def clear_errors_def split: attempt_outcome.split wake_result.split)

lemma after_attempt_starts: "starts (snd (after_attempt c g io r ls)) = starts ls"
  by (simp add: after_attempt_def Let_def judge_turn_starts split: option.split)

lemma goal_turn_starts:
  assumes "goal_turn c g io ls = (res, ls')"
  shows "starts ls' = starts ls @ [AttemptStarted (lp_turns ls) (lp_usage ls)]"
proof (cases res)
  case (Inl e)
  from assms [unfolded Inl] show ?thesis by (rule goal_turn_Inl) (simp add: starts_def begin_attempt_simps)
next
  case (Inr out)
  from assms [unfolded Inr] show ?thesis
  proof (rule goal_turn_Inr)
    fix extras ls1 r s
    assume a: "begin_attempt g ls = (extras, ls1)" "after_attempt c g io (with_diff io r) (ls1\<lparr>lp_bindings := s\<rparr>) = (out, ls')"
    from after_attempt_starts [of c g io "with_diff io r" "ls1\<lparr>lp_bindings := s\<rparr>"]
    show ?thesis by (simp add: a(2)) (simp add: starts_def begin_attempt_simps [OF a(1)])
  qed
qed

lemma goal_turn_attempts: "goal_turn c g io ls = (res, ls') \<Longrightarrow> attempts ls' = attempts ls + 1"
  by (simp add: attempts_def goal_turn_starts)

lemma loop_gate_starts: "loop_gate g ls = (out, ls') \<Longrightarrow> starts ls' = starts ls"
  by (auto simp: loop_gate_def split: option.splits if_splits)

lemma goal_turn_decreases:
  assumes "goal_turn c g io ls = (Inr None, ls')" "bu_turns (lp_usage ls) = lp_turns ls" "lp_turns ls < m"
    and "bu_consecutive_errors (lp_usage ls) < e" "bu_consecutive_413 (lp_usage ls) < f"
  shows "bu_turns (lp_usage ls') = lp_turns ls' \<and> iterations_left (unat m) (unat e) (unat f) ls' < iterations_left (unat m) (unat e) (unat f) ls"
proof -
  define left :: "u32 \<times> u32 \<times> u32 \<Rightarrow> nat" where
    "left = (\<lambda>p. case p of (t, i, j) \<Rightarrow> (unat m - unat t) * (unat e + unat f + 1) + (unat e - unat i) + (unat f - unat j))"
  have left: "iterations_left (unat m) (unat e) (unat f) s = 2 * left (loop_pos s) + (if lp_was_compact s then 1 else 0)" for s :: "('a, 'b) loop_state"
    by (simp add: iterations_left_def left_def split: prod.splits)
  have "left (loop_pos ls') < left (loop_pos ls)" if "moved_on (loop_pos ls) (loop_pos ls')"
    by (rule moved_on_decreases [OF that _ assms(3-5)]) (simp_all add: loop_pos_def left_def)
  with goal_turn_moves [OF assms(1,2)] show ?thesis by (auto simp: left split: if_splits)
qed

lemma goal_loop_returns:
  assumes "\<And>n s. k \<le> n \<Longrightarrow> is_paused (go_id g) (others n s) \<Longrightarrow> is_goal_cancelled (go_id g) (others n s)"
    and "\<And>n s. bg_max_turns (effective_budget g (others n s)) \<le> m"
    and "0 < bg_max_consecutive_errors (go_budget g)" "0 < bg_max_consecutive_413 (go_budget g)"
    and "bu_turns (lp_usage ls) = lp_turns ls"
  defines "left \<equiv> iterations_left (unat m) (unat (bg_max_consecutive_errors (go_budget g))) (unat (bg_max_consecutive_413 (go_budget g)))"
  shows "\<exists>res ls'. goal_loop c g others io n ls = Some (res, ls') \<and> attempts ls' \<le> attempts ls + left ls"
  using assms(5)
proof (induction "left ls + (k - n)" arbitrary: n ls rule: less_induct)
  case less
  let ?ls1 = "ls\<lparr>lp_orch := others n (lp_orch ls)\<rparr>"
  have left1 [simp]: "left ?ls1 = left ls" "attempts ?ls1 = attempts ls"
    by (simp_all add: left_def iterations_left_def loop_pos_def attempts_def)
  show ?case
  proof (cases "is_paused (go_id g) (lp_orch ?ls1) \<and> \<not> is_goal_cancelled (go_id g) (lp_orch ?ls1)")
    case True
    with assms(1) [of n] have "n < k" by fastforce
    then have "left ?ls1 + (k - (n + 1)) < left ls + (k - n)" by simp
    from less.hyps [OF this] less.prems True show ?thesis by (subst goal_loop.simps) (simp add: Let_def)
  next
    case running: False
    show ?thesis
    proof (cases "fst (loop_gate g ?ls1)")
      case (Some out)
      then obtain ls2 where "loop_gate g ?ls1 = (Some out, ls2)" by (metis prod.collapse)
      moreover from this have "attempts ls2 = attempts ls" using loop_gate_starts by (fastforce simp: attempts_def)
      ultimately show ?thesis using running by (subst goal_loop.simps) (auto simp: Let_def)
    next
      case None
      then have gate: "loop_gate g ?ls1 = (None, ?ls1)" by (metis loop_gate_None(1) prod.collapse)
      note ok = is_exhausted_None [OF loop_gate_None(2) [OF gate]]
      obtain res ls3 where turn: "goal_turn c g (io n) ?ls1 = (res, ls3)" by (metis surj_pair)
      have n3: "attempts ls3 = attempts ls + 1" using goal_turn_attempts [OF turn] by simp
      have t: "lp_turns ?ls1 < m" using ok(1) assms(2) [of n "lp_orch ls"] less.prems by simp
      have pos: "0 < left ls"
        using t by (simp add: left_def iterations_left_def loop_pos_def word_less_nat_alt split: prod.splits)
      show ?thesis
      proof (cases res)
        case (Inl e)
        then show ?thesis using running gate turn n3 pos by (subst goal_loop.simps) (auto simp: Let_def)
      next
        case (Inr out)
        show ?thesis
        proof (cases out)
          case (Some fin)
          then show ?thesis using Inr running gate turn n3 pos by (subst goal_loop.simps) (auto simp: Let_def)
        next
          case None
          have dec: "bu_turns (lp_usage ls3) = lp_turns ls3" "left ls3 < left ls"
            using goal_turn_decreases [where e = "bg_max_consecutive_errors (go_budget g)" and f = "bg_max_consecutive_413 (go_budget g)",
                OF turn [unfolded Inr None] _ t] ok(5,6) assms(3,4) less.prems left1(1) by (simp_all add: left_def)
          then have "left ls3 + (k - (n + 1)) < left ls + (k - n)" by simp
          from less.hyps [OF this dec(1)] obtain r' ls' where
            "goal_loop c g others io (n + 1) ls3 = Some (r', ls')" "attempts ls' \<le> attempts ls3 + left ls3" by blast
          then show ?thesis using Inr None running gate turn n3 dec(2)
            by (subst goal_loop.simps) (auto simp: Let_def)
        qed
      qed
    qed
  qed
qed

text \<open>C2. A goal ends: with both error budgets set, if nobody raises the turn cap above \<open>m\<close> and pauses stop being left standing at some point,
  \<open>run_goal\<close> returns, whatever the CLI, the policies and the other tasks do, and it has started at most twice as many attempts as
  the turns with their retries allow (a compaction may follow each turn).\<close>

theorem goal_loop_terminates:
  fixes c :: "('s, 'f) loop_cfg"
  assumes "0 < bg_max_consecutive_errors (go_budget g)" and "0 < bg_max_consecutive_413 (go_budget g)"
    and "\<And>n s. bg_max_turns (effective_budget g (others n s)) \<le> m"
    and "\<And>n s. k \<le> n \<Longrightarrow> is_paused (go_id g) (others n s) \<Longrightarrow> is_goal_cancelled (go_id g) (others n s)"
  defines "e \<equiv> unat (bg_max_consecutive_errors (go_budget g))" and "f \<equiv> unat (bg_max_consecutive_413 (go_budget g))"
  shows "\<exists>res (ls :: ('s, 'd) loop_state). run_goal c g ensure summary t others io s b = Some (res, ls) \<and> attempts ls \<le> 2 * (unat m * (e + f + 1) + e + f)"
proof (cases ensure)
  case (Some err)
  then show ?thesis by (simp add: run_goal_def Let_def attempts_def starts_def first_state_def put_effects_def)
next
  case None
  define ls :: "('s, 'd) loop_state" where "ls = put_effects [GoalStarted g] (first_state summary (pre_register_goal (go_id g) s) b)"
  have turns: "bu_turns (lp_usage ls) = lp_turns ls" by (simp add: ls_def first_state_def no_usage_def)
  have "\<exists>res ls'. goal_loop c g others io 0 ls = Some (res, ls') \<and> attempts ls' \<le> attempts ls + iterations_left (unat m) e f ls"
    unfolding e_def f_def by (rule goal_loop_returns [where k = k]) (use assms(1-4) turns in auto)
  then obtain res ls' where
    r: "goal_loop c g others io 0 ls = Some (res, ls')" "attempts ls' \<le> attempts ls + iterations_left (unat m) e f ls" by blast
  have "attempts ls = 0" by (simp add: ls_def first_state_def attempts_def starts_def)
  moreover have "iterations_left (unat m) e f ls = 2 * (unat m * (e + f + 1) + e + f)"
    by (simp add: ls_def iterations_left_def loop_pos_def first_state_def no_usage_def)
  ultimately have "attempts ls' \<le> 2 * (unat m * (e + f + 1) + e + f)" using r(2) by simp
  then show ?thesis using None r(1) by (cases res) (simp_all add: run_goal_def Let_def ls_def [symmetric] attempts_def)
qed

definition demo_goal :: goal where
  "demo_goal =
     \<lparr>go_id = Uuid 7, go_description = ''fix the build'', go_acceptance = [],
      go_budget = \<lparr>bg_max_turns = 5, bg_max_wall_time = 60, bg_max_tokens = 1000, bg_max_consecutive_denies = 3,
                   bg_max_consecutive_errors = 3, bg_max_consecutive_413 = 2\<rparr>,
      go_workspace = None, go_metadata = []\<rparr>"

definition hands_off :: "nat \<Rightarrow> orchestrator \<Rightarrow> orchestrator" where
  "hands_off n s = s\<lparr>od_paused := [], od_overrides := []\<rparr>"

theorem goal_loop_terminates_witness:
  "\<forall>(c :: (memory_bindings, unit) loop_cfg) io s. \<exists>res (ls :: (memory_bindings, unit) loop_state).
     run_goal c demo_goal None None 0 hands_off io s [] = Some (res, ls) \<and> attempts ls \<le> 70"
proof (intro allI)
  fix c :: "(memory_bindings, unit) loop_cfg" and io s
  have "\<exists>res (ls :: (memory_bindings, unit) loop_state). run_goal c demo_goal None None 0 hands_off io s [] = Some (res, ls) \<and>
    attempts ls \<le> 2 * (unat (5 :: u32) * (unat (bg_max_consecutive_errors (go_budget demo_goal)) +
      unat (bg_max_consecutive_413 (go_budget demo_goal)) + 1) + unat (bg_max_consecutive_errors (go_budget demo_goal)) +
      unat (bg_max_consecutive_413 (go_budget demo_goal)))"
    by (rule goal_loop_terminates [where k = 0])
       (simp_all add: demo_goal_def hands_off_def effective_budget_def is_paused_def)
  then show "\<exists>res (ls :: (memory_bindings, unit) loop_state).
     run_goal c demo_goal None None 0 hands_off io s [] = Some (res, ls) \<and> attempts ls \<le> 70"
    by (simp add: demo_goal_def)
qed

subsection \<open>What the loop returns\<close>

text \<open>The rule for what the loop returns: an invariant that the other tasks and every turn that goes on keep, and the three ways out.\<close>

lemma goal_loop_rule:
  assumes "goal_loop c g others io n ls = Some (res, ls')" and "I ls"
    and "\<And>n ls. I ls \<Longrightarrow> I (ls\<lparr>lp_orch := others n (lp_orch ls)\<rparr>)"
    and "\<And>n ls ls'. I ls \<Longrightarrow> lp_orch ls \<in> range (others n) \<Longrightarrow> loop_gate g ls = (None, ls) \<Longrightarrow> goal_turn c g (io n) ls = (Inr None, ls') \<Longrightarrow> I ls'"
    and "\<And>n ls out ls'. I ls \<Longrightarrow> loop_gate g ls = (Some out, ls') \<Longrightarrow> Q (Inr out) ls'"
    and "\<And>n ls out ls'. I ls \<Longrightarrow> lp_orch ls \<in> range (others n) \<Longrightarrow> loop_gate g ls = (None, ls) \<Longrightarrow> goal_turn c g (io n) ls = (Inr (Some out), ls') \<Longrightarrow> Q (Inr out) ls'"
    and "\<And>n ls e ls'. I ls \<Longrightarrow> lp_orch ls \<in> range (others n) \<Longrightarrow> loop_gate g ls = (None, ls) \<Longrightarrow> goal_turn c g (io n) ls = (Inl e, ls') \<Longrightarrow> Q (Inl e) ls'"
  shows "Q res ls'"
proof -
  let ?P = "\<lambda>c' g' others' io' n ls y. c' = c \<and> g' = g \<and> others' = others \<and> io' = io \<longrightarrow> I ls \<longrightarrow> Q (fst y) (snd y)"
  have "?P c g others io n ls (res, ls')"
  proof (rule goal_loop.raw_induct [where P = ?P, OF _ assms(1)], intro impI, elim conjE)
    fix loop c' g' others' io' n ls y
    assume IH: "\<And>c' g' others' io' n ls y. loop c' g' others' io' n ls = Some y \<Longrightarrow> ?P c' g' others' io' n ls y"
      and eq: "c' = c" "g' = g" "others' = others" "io' = io" and inv: "I ls"
      and body: "(let ls1 = ls\<lparr>lp_orch := others' n (lp_orch ls)\<rparr>
         in if is_paused (go_id g') (lp_orch ls1) \<and> \<not> is_goal_cancelled (go_id g') (lp_orch ls1) then loop c' g' others' io' (n + 1) ls1
            else case loop_gate g' ls1 of
                   (None, ls2) \<Rightarrow>
                     (case goal_turn c' g' (io' n) ls2 of
                        (Inl e, ls3) \<Rightarrow> Some (Inl e, ls3)
                      | (Inr None, ls3) \<Rightarrow> loop c' g' others' io' (n + 1) ls3
                      | (Inr (Some out), ls3) \<Rightarrow> Some (Inr out, ls3))
                 | (Some out, ls2) \<Rightarrow> Some (Inr out, ls2)) = Some y"
    let ?ls1 = "ls\<lparr>lp_orch := others n (lp_orch ls)\<rparr>"
    have inv1: "I ?ls1" using assms(3) inv by blast
    have from_others: "lp_orch ?ls1 \<in> range (others n)" by simp
    show "Q (fst y) (snd y)"
    proof (cases "is_paused (go_id g) (lp_orch ?ls1) \<and> \<not> is_goal_cancelled (go_id g) (lp_orch ?ls1)")
      case True
      with body have "loop c g others io (n + 1) ?ls1 = Some y" by (simp add: eq)
      from IH [OF this] inv1 show ?thesis by simp
    next
      case running: False
      show ?thesis
      proof (cases "fst (loop_gate g ?ls1)")
        case (Some out)
        then obtain ls2 where gate: "loop_gate g ?ls1 = (Some out, ls2)" by (metis prod.collapse)
        with body running have "y = (Inr out, ls2)" by (auto simp: eq Let_def)
        with assms(5) [OF inv1 gate] show ?thesis by simp
      next
        case None
        then have gate: "loop_gate g ?ls1 = (None, ?ls1)" by (metis loop_gate_None(1) prod.collapse)
        obtain r ls3 where turn: "goal_turn c g (io n) ?ls1 = (r, ls3)" by (metis surj_pair)
        consider e where "r = Inl e" | "r = Inr None" | out where "r = Inr (Some out)" by (metis option.exhaust sum.exhaust)
        then show ?thesis
        proof cases
          case (1 e)
          with body running gate turn have "y = (Inl e, ls3)" by (auto simp: eq Let_def)
          with assms(7) [OF inv1 from_others gate turn [unfolded 1]] show ?thesis by simp
        next
          case 2
          with body running gate turn have "loop c g others io (n + 1) ls3 = Some y" by (auto simp: eq Let_def split: if_splits)
          from IH [OF this] assms(4) [OF inv1 from_others gate turn [unfolded 2]] show ?thesis by simp
        next
          case (3 out)
          with body running gate turn have "y = (Inr out, ls3)" by (auto simp: eq Let_def)
          with assms(6) [OF inv1 from_others gate turn [unfolded 3]] show ?thesis by simp
        qed
      qed
    qed
  qed
  with assms(2) show ?thesis by simp
qed

lemma judge_turn_done:
  assumes "judge_turn c g io out ls = (Some AttemptDone, ls')"
  shows "out = AttemptDone \<and> lp_acceptance ls' = lp_acceptance ls \<and> lp_effects ls' = lp_effects ls"
  using assms
  by (auto simp: judge_turn_def replay_turn_def wake_up_def Let_def clear_errors_def split: attempt_outcome.splits replay_decision.splits wake_result.splits)

lemma after_attempt_done:
  assumes "after_attempt c g io r ls = (Some AttemptDone, ls')"
  shows "at_outcome r = AttemptDone \<and> lp_acceptance ls' = at_acceptance r \<and> (\<forall>v. at_acceptance r = Some v \<longrightarrow> Accepted v \<in> set (lp_effects ls'))"
  using assms by (auto simp: after_attempt_def Let_def split: if_splits option.splits dest!: judge_turn_done)

lemma goal_turn_done:
  assumes "goal_turn c g io ls = (Inr (Some AttemptDone), ls')"
  shows "\<exists>call v. io_verdict (it_claude io call) = Inr v \<and> av_met v \<and> lp_acceptance ls' = Some v \<and> Accepted v \<in> set (lp_effects ls')"
proof -
  obtain extras ls1 r s where
    a: "run_attempt (lc_deps c) (it_now io) (it_claude io) g (lp_turns ls) (lp_usage ls) extras (lc_workspace c) (lp_bindings ls) = (Inr r, s)"
      "after_attempt c g io (with_diff io r) (ls1\<lparr>lp_bindings := s\<rparr>) = (Some AttemptDone, ls')"
    using assms by (rule goal_turn_Inr)
  from after_attempt_done [OF a(2)] run_attempt_done [OF a(1)] show ?thesis by auto
qed

lemma run_goal_Some:
  assumes "run_goal c g ensure summary t others io s b = Some (res, ls)"
  obtains (failed) e where "ensure = Some e" "res = Inl e" "ls = put_effects [GoalStarted g] (first_state summary (pre_register_goal (go_id g) s) b)"
    | (broke) e where "ensure = None" "res = Inl e"
        "goal_loop c g others io 0 (put_effects [GoalStarted g] (first_state summary (pre_register_goal (go_id g) s) b)) = Some (Inl e, ls)"
    | (ended) out ls1 where "ensure = None" "res = Inr (outcome_of g t out ls1)"
        "goal_loop c g others io 0 (put_effects [GoalStarted g] (first_state summary (pre_register_goal (go_id g) s) b)) = Some (Inr out, ls1)"
        "ls = put_effects [GoalCompleted (outcome_of g t out ls1)] (ls1\<lparr>lp_orch := end_goal (go_id g) (lp_orch ls1)\<rparr>)"
  using assms by (auto simp: run_goal_def Let_def split: option.splits prod.splits sum.splits)

text \<open>C1. A goal counts as done only if the evaluator's verdict on what the CLI left behind was positive: that verdict is the outcome's and was
  published, and the goal has left the orchestrator's tables.\<close>

theorem goal_done_is_accepted:
  assumes "run_goal c g ensure summary t others io s b = Some (Inr r, ls)" and "gc_outcome r = AttemptDone"
  shows "\<exists>n call v. io_verdict (it_claude (io n) call) = Inr v \<and> av_met v \<and> gc_acceptance r = Some v \<and> Accepted v \<in> set (lp_effects ls) \<and>
    GoalCompleted r \<in> set (lp_effects ls) \<and> map_of (od_cancel (lp_orch ls)) (go_id g) = None \<and>
    map_of (od_paused (lp_orch ls)) (go_id g) = None \<and> map_of (od_interrupts (lp_orch ls)) (go_id g) = None"
  using assms(1)
proof (cases rule: run_goal_Some)
  case (ended out ls1)
  let ?Q = "\<lambda>(res :: driver_error + attempt_outcome) ls. res = Inr AttemptDone \<longrightarrow>
    (\<exists>n call v. io_verdict (it_claude (io n) call) = Inr v \<and> av_met v \<and> lp_acceptance ls = Some v \<and> Accepted v \<in> set (lp_effects ls))"
  have "?Q (Inr out) ls1"
    by (rule goal_loop_rule [OF ended(3), where I = "\<lambda>_. True" and Q = ?Q])
       (auto simp: loop_gate_def split: option.splits if_splits dest!: goal_turn_done)
  with ended assms(2) show ?thesis by (fastforce simp: outcome_of_def end_goal_def map_of_delete)
qed simp_all

text \<open>C3. Every attempt is started within the budget: below the caps on time, tokens, denials and both kinds of errors of the goal, and below
  every bound on its effective turn cap; the turn number is the one the usage counts.\<close>

theorem attempts_start_within_budget:
  fixes ls :: "('s, 'd) loop_state"
  assumes "run_goal c g ensure summary t others io s b = Some (res, ls)" and "\<And>n s. bg_max_turns (effective_budget g (others n s)) \<le> m"
    and "AttemptStarted n u \<in> set (lp_effects ls)"
  defines "w \<equiv> go_budget g"
  shows "n = bu_turns u \<and> n < m \<and> bu_wall_time u < bg_max_wall_time w \<and> bu_tokens u < bg_max_tokens w \<and>
    bu_consecutive_denies u < bg_max_consecutive_denies w \<and>
    (0 < bg_max_consecutive_errors w \<longrightarrow> bu_consecutive_errors u < bg_max_consecutive_errors w) \<and>
    (0 < bg_max_consecutive_413 w \<longrightarrow> bu_consecutive_413 u < bg_max_consecutive_413 w)"
proof -
  define good where "good n u \<longleftrightarrow> n = bu_turns u \<and> n < m \<and> is_exhausted (w\<lparr>bg_max_turns := - 1\<rparr>) u = None" for n u
  define safe :: "('s, 'd) loop_state \<Rightarrow> bool" where "safe ls \<longleftrightarrow> (\<forall>n u. AttemptStarted n u \<in> set (starts ls) \<longrightarrow> good n u)" for ls
  let ?I = "\<lambda>ls. safe ls \<and> bu_turns (lp_usage ls) = lp_turns ls"
  have open_budget: "is_exhausted (w\<lparr>bg_max_turns := - 1\<rparr>) u = None"
    if "is_exhausted (effective_budget g s) u = None" for s u
  proof -
    have "bu_turns u < - 1" using is_exhausted_None(1) [OF that] by (metis order_less_le_trans word_order.extremum)
    then show ?thesis using is_exhausted_None [OF that] by (auto simp: is_exhausted_def w_def not_le)
  qed
  have turn: "safe ls'"
    if "?I ls" "lp_orch ls \<in> range (others n)" "loop_gate g ls = (None, ls)" "goal_turn c g (io n) ls = (r, ls')" for n ls r ls'
  proof -
    note gate = loop_gate_None(2) [OF that(3)]
    have "lp_turns ls < m"
      using is_exhausted_None(1) [OF gate] assms(2) that(1,2) by (metis order_less_le_trans rangeE)
    then have "good (lp_turns ls) (lp_usage ls)" using open_budget [OF gate] that(1) by (simp add: good_def)
    then show ?thesis using that(1) goal_turn_starts [OF that(4)] by (auto simp: safe_def)
  qed
  have loop: "safe ls'" if "goal_loop c g others io 0 ls = Some (r, ls')" "?I ls" for r ls ls'
  proof (rule goal_loop_rule [OF that(1), where I = ?I and Q = "\<lambda>_. safe"])
    show "?I ls''" if "?I ls" "lp_orch ls \<in> range (others n)" "loop_gate g ls = (None, ls)" "goal_turn c g (io n) ls = (Inr None, ls'')"
      for n ls ls''
      using turn [OF that] goal_turn_moves [OF that(4)] that(1) by simp
  qed (use that(2) turn in \<open>auto simp: safe_def dest: loop_gate_starts\<close>)
  have "?I (put_effects [GoalStarted g] (first_state summary (pre_register_goal (go_id g) s) b))"
    by (simp add: safe_def starts_def first_state_def no_usage_def)
  with assms(1) loop have "safe ls"
    by (cases rule: run_goal_Some) (auto simp: safe_def)
  then have "good n u" using assms(3) by (simp add: safe_def starts_def)
  then show ?thesis using is_exhausted_None [of "w\<lparr>bg_max_turns := - 1\<rparr>" u] by (auto simp: good_def)
qed

subsection \<open>A small run\<close>

definition sample_deps :: "memory_bindings turn_deps" where
  "sample_deps =
     \<lparr>td_ops = memory_binding_ops, td_parse = (\<lambda>_. None), td_as_u64 = (\<lambda>_. None), td_lower = (\<lambda>s. s), td_origin = (\<lambda>_. None),
      td_dispatcher = (\<lambda>_. None), td_model = None\<rparr>"

definition sample_loop_cfg :: "(memory_bindings, unit) loop_cfg" where
  "sample_loop_cfg =
     \<lparr>lc_deps = sample_deps, lc_replay = default_replay (\<lambda>s. s) 1, lc_compact = (\<lambda>_. None), lc_context_window = 0, lc_auto_config = None,
      lc_progress_every = 0, lc_extract = False, lc_memory_dir = False, lc_workspace = ''/work''\<rparr>"

definition sample_verdict :: "bool \<Rightarrow> acceptance_verdict" where
  "sample_verdict met = \<lparr>av_met = met, av_failures = [], av_evaluated_at = 0, av_elapsed_ms = 0\<rparr>"

text \<open>The first turn is rejected, the second one accepted.\<close>

definition sample_io :: "nat \<Rightarrow> iteration_io" where
  "sample_io n =
     \<lparr>it_now = 0, it_age_minutes = 0, it_checkpoint = None,
      it_claude = (\<lambda>_. \<lparr>io_spawn = None, io_events = [Inr (ResultSuccess ''s1'' None \<lparr>tu_input = 3, tu_output = 4, tu_cache_creation = 0, tu_cache_read = 0\<rparr>)],
        io_ended = 0, io_elapsed = 1, io_verdict = Inr (sample_verdict (0 < n))\<rparr>),
      it_diff = None, it_extract_skip = None, it_wake = WakeCancelled\<rparr>"

definition sample_run :: "((driver_error + goal_outcome) \<times> (memory_bindings, unit) loop_state) option" where
  "sample_run = run_goal sample_loop_cfg demo_goal None None 9 hands_off sample_io (new_orchestrator None) []"

lemmas sample_defs = sample_deps_def sample_loop_cfg_def sample_verdict_def sample_io_def demo_goal_def hands_off_def

lemmas turn_defs = goal_turn_def begin_attempt_def attempt_extras_def drain_interrupts_def run_attempt_def settle_turn_def
  store_binding_def turn_binding_def metadata_value_def after_attempt_def count_turn_def schedule_compact_def judge_turn_def
  with_diff_def first_read_def attempt_of_def memory_binding_ops_def mem_binding_get_def mem_binding_upsert_def extract_effects_def
  dream_effects_def goal_agent_id_def charge_tokens_def charge_time_def sat_add_def max_duration_def clear_errors_def put_effects_def
  loop_gate_def effective_budget_def is_exhausted_def is_goal_cancelled_def is_paused_def

lemma sample_run_done: "\<exists>r ls. sample_run = Some (Inr r, ls) \<and> gc_outcome r = AttemptDone \<and> gc_total_turns r = 2 \<and>
    AttemptStarted 1 ((no_usage)\<lparr>bu_turns := 1, bu_wall_time := 1, bu_tokens := 7\<rparr>) \<in> set (lp_effects ls)"
  unfolding sample_run_def run_goal_def
  apply (subst goal_loop.simps)
  apply (simp add: Let_def first_state_def pre_register_goal_def or_insert_def new_orchestrator_def no_usage_def sample_defs turn_defs)
  apply (subst goal_loop.simps)
  apply (simp add: Let_def sample_defs turn_defs outcome_of_def)
  apply (simp add: word_le_nat_alt)
  done

theorem goal_done_is_accepted_witness:
  "\<exists>r ls v. sample_run = Some (Inr r, ls) \<and> gc_acceptance r = Some v \<and> av_met v \<and> GoalCompleted r \<in> set (lp_effects ls)"
proof -
  obtain r ls where "sample_run = Some (Inr r, ls)" "gc_outcome r = AttemptDone" using sample_run_done by blast
  with goal_done_is_accepted [OF this [unfolded sample_run_def]] show ?thesis by blast
qed

theorem attempts_start_within_budget_witness:
  "\<exists>r ls u. sample_run = Some (r, ls) \<and> AttemptStarted 1 u \<in> set (lp_effects ls) \<and> bu_tokens u < 1000"
proof -
  obtain r ls where r: "sample_run = Some (Inr r, ls)"
    "AttemptStarted 1 ((no_usage)\<lparr>bu_turns := 1, bu_wall_time := 1, bu_tokens := 7\<rparr>) \<in> set (lp_effects ls)" using sample_run_done by blast
  have "bu_tokens ((no_usage)\<lparr>bu_turns := 1, bu_wall_time := 1, bu_tokens := 7\<rparr>) < bg_max_tokens (go_budget demo_goal)"
    using attempts_start_within_budget [OF r(1) [unfolded sample_run_def] _ r(2), of 5]
    by (simp add: hands_off_def effective_budget_def demo_goal_def)
  then have "bu_tokens ((no_usage)\<lparr>bu_turns := 1, bu_wall_time := 1, bu_tokens := 7\<rparr>) < 1000" by (simp add: demo_goal_def)
  with r show ?thesis by blast
qed

subsection \<open>Where the loop does not do what its comments say\<close>

text \<open>What failed never reaches the CLI: the prompt of a turn that follows rejected work is the goal's description, whatever the failures.\<close>

theorem failures_never_reach_the_cli: "attempt_prompt g (build_attempt_extras failures b n) = go_description g"
  by (simp add: attempt_prompt_def build_attempt_extras_def Let_def json_true_def operator_block_def tick_block_def json_str_def
      map_of_json_insert)

text \<open>A compact turn takes the operator's waiting messages from the queue and does not show them: its prompt is the compact command alone.\<close>

theorem compact_turn_drops_interrupts:
  assumes "begin_attempt g ls = (extras, ls')"
    and "lp_extras ls = Some (json_insert ''compact_focus'' (JString focus) (json_insert ''compact_turn'' (JBool True) []))"
  shows "attempt_prompt g extras = ''/compact '' @ focus \<and> fst (drain_interrupts (go_id g) (lp_orch ls')) = []"
proof -
  obtain pending s where d: "drain_interrupts (go_id g) (lp_orch ls) = (pending, s)" by (metis surj_pair)
  then have s: "fst (drain_interrupts (go_id g) s) = []"
    by (auto simp: drain_interrupts_def map_of_update split: option.splits)
  have "map_of extras ''compact_turn'' = Some (JBool True)" "map_of extras ''compact_focus'' = Some (JString focus)" "lp_orch ls' = s"
    using assms d by (auto simp: begin_attempt_def attempt_extras_def Let_def split: if_splits)
  with s show ?thesis by (simp add: attempt_prompt_def json_true_def json_str_def)
qed

theorem compact_turn_drops_interrupts_witness:
  "\<exists>ls :: (memory_bindings, unit) loop_state. fst (drain_interrupts (Uuid 7) (lp_orch ls)) = [''stop''] \<and>
     attempt_prompt demo_goal (fst (begin_attempt demo_goal ls)) = ''/compact all''"
proof -
  define ls :: "(memory_bindings, unit) loop_state" where
    "ls = (first_state None (snd (interrupt_goal (Uuid 7) ''stop'' (new_orchestrator None))) [])
       \<lparr>lp_extras := Some (json_insert ''compact_focus'' (JString ''all'') (json_insert ''compact_turn'' (JBool True) []))\<rparr>"
  obtain extras ls' where b: "begin_attempt demo_goal ls = (extras, ls')" by (metis surj_pair)
  from compact_turn_drops_interrupts [OF b, of "''all''"] have "attempt_prompt demo_goal (fst (begin_attempt demo_goal ls)) = ''/compact all''"
    by (simp add: b) (simp add: ls_def)
  moreover have "fst (drain_interrupts (Uuid 7) (lp_orch ls)) = [''stop'']"
    by (simp add: ls_def first_state_def interrupt_goal_def drain_interrupts_def new_orchestrator_def Let_def)
  ultimately show ?thesis by blast
qed

text \<open>A turn leaves the tokens alone.\<close>

lemma judge_turn_orch: "lp_orch (snd (judge_turn c g io out ls)) = lp_orch ls"
  by (simp add: judge_turn_def replay_turn_def Let_def undo_turn_def wake_up_def clear_errors_def
      split: attempt_outcome.split replay_decision.split wake_result.split)

lemma after_attempt_tokens: "od_cancel (lp_orch (snd (after_attempt c g io r ls))) = od_cancel (lp_orch ls)"
  by (simp add: after_attempt_def Let_def judge_turn_orch absorb_compact_def)

lemma goal_turn_tokens:
  assumes "goal_turn c g io ls = (res, ls')"
  shows "od_cancel (lp_orch ls') = od_cancel (lp_orch ls)"
proof -
  have first: "od_cancel (lp_orch ls1) = od_cancel (lp_orch ls)" if "begin_attempt g ls = (extras, ls1)" for extras ls1
    by (simp add: begin_attempt_simps(7) [OF that] drain_interrupts_def split: option.split)
  show ?thesis
  proof (cases res)
    case (Inl e)
    from assms [unfolded Inl] show ?thesis by (rule goal_turn_Inl) (simp add: first)
  next
    case (Inr out)
    from assms [unfolded Inr] show ?thesis
    proof (rule goal_turn_Inr)
      fix extras ls1 r s
      assume a: "begin_attempt g ls = (extras, ls1)" "after_attempt c g io (with_diff io r) (ls1\<lparr>lp_bindings := s\<rparr>) = (out, ls')"
      from after_attempt_tokens [of c g io "with_diff io r" "ls1\<lparr>lp_bindings := s\<rparr>"] first [OF a(1)]
      show ?thesis by (simp add: a(2))
    qed
  qed
qed

text \<open>A turn that runs while the compact flag is up is absorbed, whatever it reports.\<close>

lemma flagged_turn_absorbed:
  assumes "goal_turn c g io ls = (Inr out, ls')" "lp_was_compact ls"
  shows "out = None \<and> lp_turns ls' = lp_turns ls"
proof -
  obtain extras ls1 r s where a: "begin_attempt g ls = (extras, ls1)" "after_attempt c g io (with_diff io r) (ls1\<lparr>lp_bindings := s\<rparr>) = (out, ls')"
    using assms(1) by (rule goal_turn_Inr)
  then show ?thesis using assms(2) by (auto simp: after_attempt_def Let_def begin_attempt_simps [OF a(1)])
qed

text \<open>C33. When a compaction falls due on a turn that parks the goal, the tick prompt replaces the compact command but the flag stays up: the
  turn that wakes up is a turn of work and is treated as a compaction, so even its accepted completion is discarded.\<close>

theorem woken_turn_counts_as_compaction:
  assumes "after_attempt c g io r ls = (out, ls')" and "\<not> lp_was_compact ls"
    and "at_outcome r = AttemptSleep ms why" and "it_wake io = WakeFired e"
    and "lp_was_compact (schedule_compact c g io (count_turn c g io r (ls\<lparr>lp_usage := at_usage_after r\<rparr>)))"
    and "goal_turn c g io' (ls'\<lparr>lp_orch := s\<rparr>) = (Inr out', ls'')"
  shows "out = None \<and> map_option (attempt_prompt g) (lp_extras ls') = Some (build_tick_prompt why e @ nl @ nl @ go_description g) \<and>
    out' = None \<and> lp_turns ls'' = lp_turns ls'"
proof -
  have l: "out = None" "lp_was_compact ls'" "lp_extras ls' = Some (json_insert ''synthetic_tick_prompt'' (JString (build_tick_prompt why e))
      (build_attempt_extras [] (go_budget g) (lp_turns ls + 1)))"
    using assms(1-5) by (auto simp: after_attempt_def Let_def judge_turn_def wake_up_def clear_errors_def)
  have "build_tick_prompt why e \<noteq> []" by (simp add: build_tick_prompt_def)
  then have "map_option (attempt_prompt g) (lp_extras ls') = Some (build_tick_prompt why e @ nl @ nl @ go_description g)"
    by (simp add: l attempt_prompt_def build_attempt_extras_def Let_def json_true_def operator_block_def tick_block_def json_str_def)
  then show ?thesis using l flagged_turn_absorbed [OF assms(6)] by simp
qed

definition eager_cfg :: "(memory_bindings, unit) loop_cfg" where
  "eager_cfg = sample_loop_cfg\<lparr>lc_compact := \<lambda>_. Some (''all'', AgeTrigger 2 1)\<rparr>"

definition parked_attempt :: "unit full_attempt" where
  "parked_attempt = attempt_of demo_goal 0 (AttemptSleep 5 ''tests run'') no_usage None None []"

theorem woken_turn_counts_as_compaction_witness:
  "\<exists>out ls' ls''. after_attempt eager_cfg demo_goal ((sample_io 0)\<lparr>it_wake := WakeFired 5\<rparr>) parked_attempt
       (first_state None (new_orchestrator None) []) = (out, ls') \<and>
     goal_turn eager_cfg demo_goal (sample_io 1) ls' = (Inr None, ls'') \<and> lp_turns ls'' = lp_turns ls'"
proof -
  obtain out ls' where a: "after_attempt eager_cfg demo_goal ((sample_io 0)\<lparr>it_wake := WakeFired 5\<rparr>) parked_attempt
    (first_state None (new_orchestrator None) []) = (out, ls')" by (metis surj_pair)
  have bindings: "lp_bindings ls' = []"
    using a by (auto simp: after_attempt_def Let_def eager_cfg_def sample_loop_cfg_def first_state_def judge_turn_def parked_attempt_def
        attempt_of_def sample_io_def wake_up_def clear_errors_def)
  obtain extras ls1 where b: "begin_attempt demo_goal ls' = (extras, ls1)" by (metis surj_pair)
  obtain r s where "run_attempt (lc_deps eager_cfg) (it_now (sample_io 1)) (it_claude (sample_io 1)) demo_goal (lp_turns ls') (lp_usage ls')
    extras (lc_workspace eager_cfg) (lp_bindings ls') = (Inr r :: driver_error + unit full_attempt, s)"
    by (simp add: bindings eager_cfg_def sample_defs turn_defs Let_def)
  then obtain out' ls'' where t: "goal_turn eager_cfg demo_goal (sample_io 1) ls' = (Inr out', ls'')"
    by (cases "after_attempt eager_cfg demo_goal (sample_io 1) (with_diff (sample_io 1) r) (ls1\<lparr>lp_bindings := s\<rparr>)")
       (simp add: goal_turn_def b)
  have "out = None \<and> map_option (attempt_prompt demo_goal) (lp_extras ls') =
      Some (build_tick_prompt ''tests run'' 5 @ nl @ nl @ go_description demo_goal) \<and> out' = None \<and> lp_turns ls'' = lp_turns ls'"
  proof (rule woken_turn_counts_as_compaction [OF a])
    show "goal_turn eager_cfg demo_goal (sample_io 1) (ls'\<lparr>lp_orch := lp_orch ls'\<rparr>) = (Inr out', ls'')" using t by simp
  qed (simp_all add: first_state_def parked_attempt_def attempt_of_def schedule_compact_def Let_def eager_cfg_def sample_loop_cfg_def
      new_orchestrator_def new_compact_breaker_def is_tripped_def count_turn_def put_effects_def)
  with a t show ?thesis by blast
qed

text \<open>A parked turn leaves no session behind: its binding is not stored, so a goal whose first turn parks wakes up in a new session; and the
  time it took is not charged to the wall-clock budget, nor is that of a turn that timed out.\<close>

theorem parked_turn_leaves_no_trace:
  assumes "run_attempt d now claude g n u extras ws s = (Inr r, s')"
    and "(\<exists>ms why. at_outcome r = AttemptSleep ms why) \<or> at_outcome r = AttemptContinue ''turn timeout''"
  shows "s' = s \<and> bu_wall_time (at_usage_after r) = bu_wall_time u"
proof -
  obtain prior where prior: "bo_get (td_ops d) now (go_id g) s = Inr prior"
    using assms(1) by (auto simp: run_attempt_def split: sum.splits)
  let ?io = "claude (attempt_call g extras prior)"
  show ?thesis
  proof (cases "io_spawn ?io")
    case (Some e)
    then show ?thesis using assms(1) prior by (auto simp: run_attempt_def Let_def)
  next
    case None
    obtain ending t where read: "read_events d (io_events ?io) (first_read prior u) = (ending, t)" by (metis surj_pair)
    have u: "bu_wall_time (tr_usage t) = bu_wall_time u" using read_events_wall [OF read] by (simp add: first_read_def)
    show ?thesis
    proof (cases ending)
      case StreamEnded
      then have "settle_turn d ?io g n ws t s = (Inr r, s')"
        using assms(1) prior None read by (simp add: run_attempt_def Let_def)
      then show ?thesis using assms(2) by (auto simp: settle_turn_def Let_def split: prod.splits sum.splits if_splits option.splits)
    qed (use assms(1) prior None read u in \<open>auto simp: run_attempt_def Let_def\<close>)
  qed
qed

theorem parked_turn_leaves_no_trace_witness:
  "\<exists>r :: unit full_attempt. run_attempt sample_deps 0 (\<lambda>_. \<lparr>io_spawn = None, io_events = [Inr (SystemInit ''s1''), Inl ClaudeTimeout],
       io_ended = 5, io_elapsed = 60, io_verdict = Inl []\<rparr>) demo_goal 0 no_usage [] ''/work'' [] = (Inr r, []) \<and> bu_wall_time (at_usage_after r) = 0"
proof -
  let ?run = "run_attempt sample_deps 0 (\<lambda>_. \<lparr>io_spawn = None, io_events = [Inr (SystemInit ''s1''), Inl ClaudeTimeout],
       io_ended = 5, io_elapsed = 60, io_verdict = Inl []\<rparr>) demo_goal 0 no_usage [] ''/work'' []"
  obtain r :: "unit full_attempt" and s' where r: "?run = (Inr r, s')" "at_outcome r = AttemptContinue ''turn timeout''"
    by (auto simp: sample_deps_def memory_binding_ops_def mem_binding_get_def run_attempt_def Let_def broken_stream_def)
  from parked_turn_leaves_no_trace [OF r(1)] r show ?thesis by (simp add: no_usage_def)
qed



text \<open>Nothing resets the count of prompts that were too long: it never falls from one turn to the next, a successful turn included.\<close>

theorem too_long_prompts_add_up:
  assumes "goal_turn c g io ls = (Inr None, ls')" and "bu_turns (lp_usage ls) = lp_turns ls"
  shows "bu_consecutive_413 (lp_usage ls) \<le> bu_consecutive_413 (lp_usage ls')"
  using goal_turn_moves [OF assms] sat_inc_ge [of "bu_consecutive_413 (lp_usage ls)"]
  by (auto simp: loop_pos_def moved_on_def word_le_nat_alt split: if_splits)

theorem too_long_prompts_add_up_witness:
  "\<exists>ls' :: (memory_bindings, unit) loop_state.
     goal_turn sample_loop_cfg demo_goal (sample_io 0) (first_state None (new_orchestrator None) []) = (Inr None, ls') \<and>
     0 \<le> bu_consecutive_413 (lp_usage ls')"
proof -
  obtain ls' :: "(memory_bindings, unit) loop_state" where
    t: "goal_turn sample_loop_cfg demo_goal (sample_io 0) (first_state None (new_orchestrator None) []) = (Inr None, ls')"
    by (simp add: first_state_def new_orchestrator_def sample_defs turn_defs Let_def)
  from too_long_prompts_add_up [OF t] t show ?thesis by (simp add: first_state_def no_usage_def)
qed

end
