(* ===== verification/Cron_Store.thy ===== *)
theory Cron_Store
  imports Json "HOL-Library.Signed_Division" "HOL-Library.List_Lexorder" "HOL-Library.Char_ord"
begin

section \<open>Scheduled prompts (\<open>crates/core/src/cron_schedule.rs\<close>, \<open>crates/core/src/agent/cron_tool.rs\<close>)\<close>

text \<open>
  The entries an agent schedules for itself: the rules for the next fire, the jitter, the SQLite store and the tools that call it.  Instants are
  Unix seconds.  The cron crate is an argument: it parses an expression into the list of its fires after an instant, of which the code reads
  the first two.  So is the arithmetic on \<open>f64\<close> with which jitter windows are scaled.
\<close>

subsection \<open>Entries\<close>

text \<open>A row of the table and an entry differ only in the type of the failure count.\<close>

record 'n cron_fields =
  ce_id :: string
  ce_binding_id :: string
  ce_cron_expr :: string
  ce_prompt :: string
  ce_channel :: "string option"
  ce_model_provider :: "string option"
  ce_model_name :: "string option"
  ce_recipient :: "string option"
  ce_recurring :: bool
  ce_created_at :: int
  ce_next_fire_at :: int
  ce_last_fired_at :: "int option"
  ce_failure_count :: 'n
  ce_paused :: bool
  ce_permanent :: bool
  ce_tenant_id :: "string option"

type_synonym cron_entry = "u32 cron_fields"
type_synonym cron_row = "int cron_fields"

definition with_failures :: "'m \<Rightarrow> 'n cron_fields \<Rightarrow> 'm cron_fields" where
  "with_failures n e =
     \<lparr>ce_id = ce_id e, ce_binding_id = ce_binding_id e, ce_cron_expr = ce_cron_expr e, ce_prompt = ce_prompt e, ce_channel = ce_channel e,
      ce_model_provider = ce_model_provider e, ce_model_name = ce_model_name e, ce_recipient = ce_recipient e, ce_recurring = ce_recurring e,
      ce_created_at = ce_created_at e, ce_next_fire_at = ce_next_fire_at e, ce_last_fired_at = ce_last_fired_at e, ce_failure_count = n,
      ce_paused = ce_paused e, ce_permanent = ce_permanent e, ce_tenant_id = ce_tenant_id e\<rparr>"

definition row_to_cron_entry :: "cron_row \<Rightarrow> cron_entry" where
  "row_to_cron_entry r = with_failures (word_of_int (max 0 (ce_failure_count r))) r"

definition cron_entry_to_row :: "cron_entry \<Rightarrow> cron_row" where
  "cron_entry_to_row e = with_failures (uint (ce_failure_count e)) e"

datatype cron_error =
    InvalidCron string string
  | IntervalTooShort string string
  | BindingFull string nat string
  | CronNotFound string
  | CronSql string

subsection \<open>The next fire\<close>

definition MAX_CRON_ENTRIES_PER_BINDING :: nat where "MAX_CRON_ENTRIES_PER_BINDING = 50"

definition MIN_CRON_INTERVAL_SECS :: "64 word" where "MIN_CRON_INTERVAL_SECS = 60"

record cron_lib =
  cl_parse :: "string \<Rightarrow> string + (int \<Rightarrow> int list)"
  cl_in_range :: "int \<Rightarrow> bool"

definition six_fields :: "string \<Rightarrow> string" where
  "six_fields expr = (if count_words False expr = 5 then ''0 '' @ expr else expr)"

definition next_fire_after :: "cron_lib \<Rightarrow> string \<Rightarrow> int \<Rightarrow> cron_error + int" where
  "next_fire_after lib expr from =
     (case cl_parse lib (six_fields expr) of
        Inl m \<Rightarrow> Inl (InvalidCron expr m)
      | Inr after \<Rightarrow>
          if \<not> cl_in_range lib from then Inl (InvalidCron expr ''bad timestamp'')
          else case after from of
                 [] \<Rightarrow> Inl (InvalidCron expr ''no future fire'')
               | [a] \<Rightarrow> Inr a
               | a # b # _ \<Rightarrow>
                   if (word_of_int (b - a) :: 64 word) < MIN_CRON_INTERVAL_SECS then Inl (IntervalTooShort expr ''interval < 60s'')
                   else Inr a)"

subsection \<open>Jitter (\<open>config/src/types/cron_jitter.rs\<close>)\<close>

record 'f jitter_config =
  jc_enabled :: bool
  jc_recurring_frac :: 'f
  jc_recurring_cap_ms :: int
  jc_one_shot_max_ms :: int
  jc_one_shot_floor_ms :: int
  jc_one_shot_minute_mod :: u32
  jc_recurring_max_age_ms :: int

text \<open>
  \<open>fl_scale n w\<close> is \<open>(n / 2^32 * w as f64) as i64\<close>, \<open>fl_window frac i\<close> is \<open>(i as f64 * frac) as i64\<close>, \<open>fl_in_unit frac\<close> is false when the
  fraction is below zero or above one, \<open>fl_percent p\<close> is \<open>p as f64 / 100.0\<close>.
\<close>

record 'f float_lib =
  fl_nonpos :: "'f \<Rightarrow> bool"
  fl_in_unit :: "'f \<Rightarrow> bool"
  fl_finite :: "'f \<Rightarrow> bool"
  fl_window :: "'f \<Rightarrow> int \<Rightarrow> int"
  fl_scale :: "u32 \<Rightarrow> int \<Rightarrow> int"
  fl_percent :: "u32 \<Rightarrow> 'f"

definition default_jitter :: "'f \<Rightarrow> 'f jitter_config" where
  "default_jitter tenth =
     \<lparr>jc_enabled = True, jc_recurring_frac = tenth, jc_recurring_cap_ms = 5 * 60000, jc_one_shot_max_ms = 30000,
      jc_one_shot_floor_ms = 0, jc_one_shot_minute_mod = 1, jc_recurring_max_age_ms = 0\<rparr>"

definition jitter_from_pct :: "'f float_lib \<Rightarrow> 'f \<Rightarrow> u32 \<Rightarrow> 'f jitter_config" where
  "jitter_from_pct fl tenth pct = (default_jitter tenth)\<lparr>jc_recurring_frac := fl_percent fl (min pct 100)\<rparr>"

text \<open>The check at boot; an error is the name of the knob.\<close>

definition validate_jitter :: "'f float_lib \<Rightarrow> 'f jitter_config \<Rightarrow> string + unit" where
  "validate_jitter fl c =
     (if \<not> fl_in_unit fl (jc_recurring_frac c) then Inl ''recurring_frac''
      else if \<not> fl_finite fl (jc_recurring_frac c) then Inl ''recurring_frac''
      else if jc_recurring_cap_ms c < 0 then Inl ''recurring_cap_ms''
      else if jc_one_shot_max_ms c < 0 then Inl ''one_shot_max_ms''
      else if jc_one_shot_floor_ms c < 0 then Inl ''one_shot_floor_ms''
      else if jc_one_shot_max_ms c < jc_one_shot_floor_ms c \<and> 0 < jc_one_shot_max_ms c then Inl ''one_shot_floor_ms''
      else if jc_recurring_max_age_ms c < 0 then Inl ''recurring_max_age_ms''
      else Inr ())"

definition hex_value :: "char \<Rightarrow> nat option" where
  "hex_value c =
     (if 48 \<le> byte c \<and> byte c \<le> 57 then Some (byte c - 48)
      else if 97 \<le> byte c \<and> byte c \<le> 102 then Some (byte c - 87)
      else if 65 \<le> byte c \<and> byte c \<le> 70 then Some (byte c - 55)
      else None)"

text \<open>The numerator of the fraction over \<open>2^32\<close>: the first eight hex digits of the id.\<close>

definition jitter_frac_from_entry_id :: "string \<Rightarrow> u32" where
  "jitter_frac_from_entry_id i =
     (let ds = take 8 (List.map_filter hex_value i)
      in if length ds < 8 then 0 else of_nat (foldl (\<lambda>n d. 16 * n + d) 0 ds))"

definition apply_recurring_jitter :: "'f float_lib \<Rightarrow> int \<Rightarrow> int \<Rightarrow> int \<Rightarrow> string \<Rightarrow> 'f jitter_config \<Rightarrow> int" where
  "apply_recurring_jitter fl next_fire following from i c =
     (if \<not> jc_enabled c \<or> fl_nonpos fl (jc_recurring_frac c) \<or> jc_recurring_cap_ms c \<le> 0 then next_fire
      else
        let interval = (following - next_fire) * 1000; w = min (fl_window fl (jc_recurring_frac c) interval) (jc_recurring_cap_ms c)
        in if interval \<le> 0 \<or> w \<le> 0 then next_fire
           else let result = next_fire + fl_scale fl (jitter_frac_from_entry_id i) w sdiv 1000
                in if result \<le> from then from + 1 else result)"

definition apply_one_shot_lead :: "'f float_lib \<Rightarrow> int \<Rightarrow> int \<Rightarrow> string \<Rightarrow> 'f jitter_config \<Rightarrow> u32 \<Rightarrow> int" where
  "apply_one_shot_lead fl target from i c minute =
     (if \<not> jc_enabled c \<or> jc_one_shot_max_ms c \<le> 0 then target
      else if jc_one_shot_minute_mod c = 0 then target
      else if minute mod jc_one_shot_minute_mod c \<noteq> 0 then target
      else
        let lead = max (fl_scale fl (jitter_frac_from_entry_id i) (jc_one_shot_max_ms c)) (jc_one_shot_floor_ms c);
            result = target - lead sdiv 1000
        in if result \<le> from then from else result)"

text \<open>The superseded jitter of a percentage; \<open>n\<close> is the process counter.\<close>

definition apply_pct_jitter :: "64 word \<Rightarrow> int \<Rightarrow> int \<Rightarrow> u32 \<Rightarrow> int" where
  "apply_pct_jitter n next_fire from pct =
     (if pct = 0 then next_fire
      else let span = next_fire - from; m = sint (word_of_int (max 0 (span * uint pct div 100)) :: 64 word)
           in if span \<le> 0 \<or> m = 0 then next_fire
              else
                let mix = xor (word_of_int next_fire * 0x9e3779b97f4a7c15 :: 128 word) (ucast n * 0xbf58476d1ce4e5b9);
                    signed = \<bar>sint mix\<bar> mod (2 * m + 1) - m
                in if next_fire + signed \<le> from then from + 1 else next_fire + signed)"


subsection \<open>The store\<close>

text \<open>\<open>cron_store_ops\<close> is the trait \<open>CronStore\<close>.\<close>

record 's cron_store_ops =
  co_insert :: "cron_entry \<Rightarrow> 's \<Rightarrow> (cron_error + unit) \<times> 's"
  co_list_by_binding :: "string \<Rightarrow> 's \<Rightarrow> cron_error + cron_entry list"
  co_count_by_binding :: "string \<Rightarrow> 's \<Rightarrow> cron_error + nat"
  co_delete :: "string \<Rightarrow> 's \<Rightarrow> (cron_error + unit) \<times> 's"
  co_due_at :: "int \<Rightarrow> 's \<Rightarrow> cron_error + cron_entry list"
  co_set_paused :: "string \<Rightarrow> bool \<Rightarrow> 's \<Rightarrow> (cron_error + unit) \<times> 's"
  co_get :: "string \<Rightarrow> 's \<Rightarrow> cron_error + cron_entry"
  co_advance :: "string \<Rightarrow> int \<Rightarrow> int \<Rightarrow> 's \<Rightarrow> (cron_error + unit) \<times> 's"
  co_retry :: "string \<Rightarrow> int \<Rightarrow> int \<Rightarrow> 's \<Rightarrow> (cron_error + u32) \<times> 's"
  co_sweep_missed :: "int \<Rightarrow> int \<Rightarrow> 's \<Rightarrow> (cron_error + nat) \<times> 's"
  co_sweep_expired :: "int \<Rightarrow> int \<Rightarrow> 's \<Rightarrow> (cron_error + nat) \<times> 's"

text \<open>The table \<open>nexo_cron_entries\<close> in the order of its rows; \<open>db\<close> says which statements succeed.\<close>

datatype cron_stmt =
    CronInsert | CronList | CronCount | CronDelete | CronDue | CronPause | CronGet | CronAdvance | CronBegin | CronRetry | CronReread
  | CronCommit | CronSweepMissed | CronSweepExpired

definition cron_db_down :: cron_error where "cron_db_down = CronSql ''database''"

definition sql_cron_list_all :: "(cron_stmt \<Rightarrow> bool) \<Rightarrow> cron_row list \<Rightarrow> cron_error + cron_entry list" where
  "sql_cron_list_all db s = (if \<not> db CronList then Inl cron_db_down else Inr (map row_to_cron_entry (sort_key ce_next_fire_at s)))"

definition sql_cron_insert :: "(cron_stmt \<Rightarrow> bool) \<Rightarrow> cron_entry \<Rightarrow> cron_row list \<Rightarrow> (cron_error + unit) \<times> cron_row list" where
  "sql_cron_insert db e s =
     (if \<not> db CronInsert then (Inl cron_db_down, s)
      else if ce_id e \<in> ce_id ` set s then (Inl (CronSql ''UNIQUE constraint failed''), s)
      else (Inr (), s @ [cron_entry_to_row e]))"

definition sql_cron_list_by_binding :: "(cron_stmt \<Rightarrow> bool) \<Rightarrow> string \<Rightarrow> cron_row list \<Rightarrow> cron_error + cron_entry list" where
  "sql_cron_list_by_binding db b s =
     (if \<not> db CronList then Inl cron_db_down
      else Inr (map row_to_cron_entry (sort_key ce_next_fire_at (filter (\<lambda>r. ce_binding_id r = b) s))))"

definition sql_cron_count :: "(cron_stmt \<Rightarrow> bool) \<Rightarrow> string \<Rightarrow> cron_row list \<Rightarrow> cron_error + nat" where
  "sql_cron_count db b s = (if \<not> db CronCount then Inl cron_db_down else Inr (length (filter (\<lambda>r. ce_binding_id r = b) s)))"

definition sql_cron_delete :: "(cron_stmt \<Rightarrow> bool) \<Rightarrow> string \<Rightarrow> cron_row list \<Rightarrow> (cron_error + unit) \<times> cron_row list" where
  "sql_cron_delete db i s =
     (if \<not> db CronDelete then (Inl cron_db_down, s)
      else if i \<notin> ce_id ` set s then (Inl (CronNotFound i), s)
      else (Inr (), filter (\<lambda>r. ce_id r \<noteq> i) s))"

definition cron_due :: "int \<Rightarrow> 'n cron_fields \<Rightarrow> bool" where
  "cron_due now r \<longleftrightarrow> \<not> ce_paused r \<and> ce_next_fire_at r \<le> now"

definition sql_cron_due :: "(cron_stmt \<Rightarrow> bool) \<Rightarrow> int \<Rightarrow> cron_row list \<Rightarrow> cron_error + cron_entry list" where
  "sql_cron_due db now s =
     (if \<not> db CronDue then Inl cron_db_down else Inr (map row_to_cron_entry (sort_key ce_next_fire_at (filter (cron_due now) s))))"

text \<open>An \<open>UPDATE\<close> of one row by its id, with \<open>NotFound\<close> when no row was hit.\<close>

definition update_cron_row :: "string \<Rightarrow> (cron_row \<Rightarrow> cron_row) \<Rightarrow> cron_row list \<Rightarrow> (cron_error + unit) \<times> cron_row list" where
  "update_cron_row i f s =
     (if i \<notin> ce_id ` set s then (Inl (CronNotFound i), s) else (Inr (), map (\<lambda>r. if ce_id r = i then f r else r) s))"

definition sql_cron_set_paused :: "(cron_stmt \<Rightarrow> bool) \<Rightarrow> string \<Rightarrow> bool \<Rightarrow> cron_row list \<Rightarrow> (cron_error + unit) \<times> cron_row list" where
  "sql_cron_set_paused db i p s =
     (if \<not> db CronPause then (Inl cron_db_down, s) else update_cron_row i (\<lambda>r. r\<lparr>ce_paused := p\<rparr>) s)"

definition sql_cron_get :: "(cron_stmt \<Rightarrow> bool) \<Rightarrow> string \<Rightarrow> cron_row list \<Rightarrow> cron_error + cron_entry" where
  "sql_cron_get db i s =
     (if \<not> db CronGet then Inl cron_db_down
      else case find (\<lambda>r. ce_id r = i) s of None \<Rightarrow> Inl (CronNotFound i) | Some r \<Rightarrow> Inr (row_to_cron_entry r))"

definition sql_cron_advance :: "(cron_stmt \<Rightarrow> bool) \<Rightarrow> string \<Rightarrow> int \<Rightarrow> int \<Rightarrow> cron_row list \<Rightarrow> (cron_error + unit) \<times> cron_row list" where
  "sql_cron_advance db i new_next fired s =
     (if \<not> db CronAdvance then (Inl cron_db_down, s)
      else update_cron_row i (\<lambda>r. r\<lparr>ce_next_fire_at := new_next, ce_last_fired_at := Some fired, ce_failure_count := 0\<rparr>) s)"

text \<open>One transaction: nothing is kept unless the commit succeeds.\<close>

definition retried_row :: "int \<Rightarrow> int \<Rightarrow> cron_row \<Rightarrow> cron_row" where
  "retried_row at fired r = r\<lparr>ce_next_fire_at := at, ce_last_fired_at := Some fired, ce_failure_count := ce_failure_count r + 1\<rparr>"

definition sql_cron_retry :: "(cron_stmt \<Rightarrow> bool) \<Rightarrow> string \<Rightarrow> int \<Rightarrow> int \<Rightarrow> cron_row list \<Rightarrow> (cron_error + u32) \<times> cron_row list" where
  "sql_cron_retry db i at fired s =
     (if \<not> db CronBegin \<or> \<not> db CronRetry then (Inl cron_db_down, s)
      else case update_cron_row i (retried_row at fired) s of
             (Inl e, s1) \<Rightarrow> (Inl e, s)
           | (Inr _, s1) \<Rightarrow>
               (case find (\<lambda>r. ce_id r = i) s1 of
                  None \<Rightarrow> (Inl cron_db_down, s)
                | Some r \<Rightarrow>
                    if \<not> db CronReread \<or> \<not> db CronCommit then (Inl cron_db_down, s)
                    else (Inr (word_of_int (max 0 (ce_failure_count r))), s1)))"

definition missed_entry :: "int \<Rightarrow> cron_row \<Rightarrow> bool" where
  "missed_entry cutoff r \<longleftrightarrow> ce_next_fire_at r < cutoff \<and> \<not> ce_paused r \<and> \<not> ce_permanent r"

definition sql_cron_sweep_missed :: "(cron_stmt \<Rightarrow> bool) \<Rightarrow> int \<Rightarrow> int \<Rightarrow> cron_row list \<Rightarrow> (cron_error + nat) \<times> cron_row list" where
  "sql_cron_sweep_missed db now skew s =
     (if skew \<le> 0 then (Inr 0, s)
      else if \<not> db CronSweepMissed then (Inl cron_db_down, s)
      else let cutoff = sat_i64 (now - skew sdiv 1000)
           in (Inr (length (filter (missed_entry cutoff) s)),
               map (\<lambda>r. if missed_entry cutoff r then r\<lparr>ce_next_fire_at := max_i64\<rparr> else r) s))"

definition expired_entry :: "int \<Rightarrow> cron_row \<Rightarrow> bool" where
  "expired_entry cutoff r \<longleftrightarrow> ce_recurring r \<and> ce_created_at r < cutoff \<and> \<not> ce_permanent r"

definition sql_cron_sweep_expired :: "(cron_stmt \<Rightarrow> bool) \<Rightarrow> int \<Rightarrow> int \<Rightarrow> cron_row list \<Rightarrow> (cron_error + nat) \<times> cron_row list" where
  "sql_cron_sweep_expired db now age s =
     (if age \<le> 0 then (Inr 0, s)
      else if \<not> db CronSweepExpired then (Inl cron_db_down, s)
      else let cutoff = sat_i64 (now - age sdiv 1000)
           in (Inr (length (filter (expired_entry cutoff) s)), filter (\<lambda>r. \<not> expired_entry cutoff r) s))"

definition sqlite_cron_ops :: "(cron_stmt \<Rightarrow> bool) \<Rightarrow> cron_row list cron_store_ops" where
  "sqlite_cron_ops db =
     \<lparr>co_insert = sql_cron_insert db, co_list_by_binding = sql_cron_list_by_binding db, co_count_by_binding = sql_cron_count db,
      co_delete = sql_cron_delete db, co_due_at = sql_cron_due db, co_set_paused = sql_cron_set_paused db, co_get = sql_cron_get db,
      co_advance = sql_cron_advance db, co_retry = sql_cron_retry db, co_sweep_missed = sql_cron_sweep_missed db,
      co_sweep_expired = sql_cron_sweep_expired db\<rparr>"


subsection \<open>New entries and the tools\<close>

definition build_new_entry ::
  "cron_lib \<Rightarrow> 's cron_store_ops \<Rightarrow> string \<Rightarrow> int \<Rightarrow> string \<Rightarrow> string \<Rightarrow> string \<Rightarrow> string option \<Rightarrow> bool \<Rightarrow> string option \<Rightarrow> string option \<Rightarrow>
     string option \<Rightarrow> string option \<Rightarrow> 's \<Rightarrow> cron_error + cron_entry" where
  "build_new_entry lib ops uuid now binding expr prompt channel recurring recipient provider model tenant s =
     and_then (next_fire_after lib expr now) (\<lambda>next_fire.
       and_then (co_count_by_binding ops binding s) (\<lambda>count.
         if MAX_CRON_ENTRIES_PER_BINDING \<le> count then Inl (BindingFull binding count ''50'')
         else Inr
           \<lparr>ce_id = uuid, ce_binding_id = binding, ce_cron_expr = expr, ce_prompt = prompt, ce_channel = channel,
            ce_model_provider = provider, ce_model_name = model, ce_recipient = recipient, ce_recurring = recurring, ce_created_at = now,
            ce_next_fire_at = next_fire, ce_last_fired_at = None, ce_failure_count = 0, ce_paused = False, ce_permanent = False,
            ce_tenant_id = tenant\<rparr>))"

text \<open>Of the agent's context: the origin of the message (plugin and instance), the agent, its effective model and its tenant.\<close>

record cron_ctx =
  cc_origin :: "(string \<times> string) option"
  cc_agent_id :: string
  cc_provider :: string
  cc_model :: string
  cc_tenant_id :: "string option"

definition binding_id_from_ctx :: "cron_ctx \<Rightarrow> string" where
  "binding_id_from_ctx c = (case cc_origin c of Some (plugin, inst) \<Rightarrow> plugin @ '':'' @ inst | None \<Rightarrow> cc_agent_id c)"

definition cron_map_err :: "cron_error \<Rightarrow> string" where
  "cron_map_err e =
     (case e of
        InvalidCron expr reason \<Rightarrow> ''invalid cron expression `'' @ expr @ ''`: '' @ reason
      | IntervalTooShort expr _ \<Rightarrow> ''cron expression `'' @ expr @ ''` schedules fires more often than the 60-second minimum''
      | BindingFull b n m \<Rightarrow>
          ''binding `'' @ b @ ''` already has '' @ show_decimal n @ '' cron entries (max '' @ m @ '') '' @
          map char_of [226 :: nat, 128, 148] @ '' delete one first via cron_delete''
      | CronNotFound i \<Rightarrow> ''cron entry `'' @ i @ ''` not found''
      | CronSql m \<Rightarrow> ''cron store sqlx error: '' @ m)"

definition need_str :: "string \<Rightarrow> string \<Rightarrow> json \<Rightarrow> string + string" where
  "need_str tool k args =
     (case json_str (json_get k args) of Some v \<Rightarrow> Inr v | None \<Rightarrow> Inl (tool @ '' requires `'' @ k @ ''` (string)''))"

definition non_empty :: "string \<Rightarrow> string option" where
  "non_empty s = (if s = [] then None else Some s)"

definition json_opt :: "string option \<Rightarrow> json" where
  "json_opt v = (case v of Some s \<Rightarrow> JString s | None \<Rightarrow> JNull)"

definition cron_create_reply :: "cron_entry \<Rightarrow> json" where
  "cron_create_reply e =
     JObject [(''ok'', JBool True), (''id'', JString (ce_id e)), (''binding_id'', JString (ce_binding_id e)), (''cron'', JString (ce_cron_expr e)),
       (''recurring'', JBool (ce_recurring e)), (''next_fire_at'', JNumber (show_signed (ce_next_fire_at e))),
       (''model_provider'', json_opt (ce_model_provider e)), (''model_name'', json_opt (ce_model_name e)),
       (''instructions'', JString ''Entry persisted. The runtime fires it on schedule. Use cron_list to inspect, cron_pause/cron_resume to temporarily stop/restart, and cron_delete to cancel.'')]"

text \<open>\<open>s0\<close> is the store when the entries are counted, \<open>s\<close> when the entry is inserted.\<close>

definition cron_create_tool ::
  "cron_lib \<Rightarrow> 's cron_store_ops \<Rightarrow> string \<Rightarrow> int \<Rightarrow> cron_ctx \<Rightarrow> json \<Rightarrow> 's \<Rightarrow> 's \<Rightarrow> (string + json) \<times> 's" where
  "cron_create_tool lib ops uuid now c args s0 s =
     (case and_then (need_str ''cron_create'' ''cron'' args) (\<lambda>expr. and_then (need_str ''cron_create'' ''prompt'' args) (\<lambda>prompt. Inr (trim expr, prompt))) of
        Inl m \<Rightarrow> (Inl m, s)
      | Inr (expr, prompt) \<Rightarrow>
          (case build_new_entry lib ops uuid now (binding_id_from_ctx c) expr prompt (json_str (json_get ''channel'' args))
                  (case json_get ''recurring'' args of Some (JBool b) \<Rightarrow> b | _ \<Rightarrow> True) (json_str (json_get ''recipient'' args))
                  (non_empty (trim (cc_provider c))) (non_empty (trim (cc_model c))) (cc_tenant_id c) s0 of
             Inl e \<Rightarrow> (Inl (cron_map_err e), s)
           | Inr e \<Rightarrow>
               (case co_insert ops e s of
                  (Inl er, s1) \<Rightarrow> (Inl (cron_map_err er), s1)
                | (Inr _, s1) \<Rightarrow> (Inr (cron_create_reply e), s1))))"

definition cron_entry_json :: "cron_entry \<Rightarrow> json" where
  "cron_entry_json e =
     JObject ([(''id'', JString (ce_id e)), (''binding_id'', JString (ce_binding_id e)), (''cron_expr'', JString (ce_cron_expr e)),
       (''prompt'', JString (ce_prompt e)), (''channel'', json_opt (ce_channel e)), (''model_provider'', json_opt (ce_model_provider e)),
       (''model_name'', json_opt (ce_model_name e)), (''recipient'', json_opt (ce_recipient e)), (''recurring'', JBool (ce_recurring e)),
       (''created_at'', JNumber (show_signed (ce_created_at e))), (''next_fire_at'', JNumber (show_signed (ce_next_fire_at e))),
       (''last_fired_at'', case ce_last_fired_at e of Some t \<Rightarrow> JNumber (show_signed t) | None \<Rightarrow> JNull),
       (''failure_count'', JNumber (show_decimal (unat (ce_failure_count e)))), (''paused'', JBool (ce_paused e)),
       (''permanent'', JBool (ce_permanent e))] @
       (case ce_tenant_id e of Some t \<Rightarrow> [(''tenant_id'', JString t)] | None \<Rightarrow> []))"

definition cron_list_tool :: "'s cron_store_ops \<Rightarrow> cron_ctx \<Rightarrow> 's \<Rightarrow> string + json" where
  "cron_list_tool ops c s =
     (case co_list_by_binding ops (binding_id_from_ctx c) s of
        Inl e \<Rightarrow> Inl (cron_map_err e)
      | Inr es \<Rightarrow>
          Inr (JObject [(''binding_id'', JString (binding_id_from_ctx c)), (''count'', JNumber (show_decimal (length es))),
                        (''entries'', JArray (map cron_entry_json es))]))"

text \<open>The remaining tools take an id and no context.\<close>

definition cron_pause_tool :: "'s cron_store_ops \<Rightarrow> json \<Rightarrow> 's \<Rightarrow> (string + json) \<times> 's" where
  "cron_pause_tool ops args s =
     (case need_str ''cron_pause'' ''id'' args of
        Inl m \<Rightarrow> (Inl m, s)
      | Inr i \<Rightarrow>
          (case co_set_paused ops i True s of
             (Inl e, s1) \<Rightarrow> (Inl (cron_map_err e), s1)
           | (Inr _, s1) \<Rightarrow> (Inr (JObject [(''ok'', JBool True), (''id'', JString i), (''paused'', JBool True)]), s1)))"

definition cron_resume_tool :: "'s cron_store_ops \<Rightarrow> json \<Rightarrow> 's \<Rightarrow> (string + json) \<times> 's" where
  "cron_resume_tool ops args s =
     (case need_str ''cron_resume'' ''id'' args of
        Inl m \<Rightarrow> (Inl m, s)
      | Inr i \<Rightarrow>
          (case co_set_paused ops i False s of
             (Inl e, s1) \<Rightarrow> (Inl (cron_map_err e), s1)
           | (Inr _, s1) \<Rightarrow> (Inr (JObject [(''ok'', JBool True), (''id'', JString i), (''paused'', JBool False)]), s1)))"

definition cron_delete_tool :: "'s cron_store_ops \<Rightarrow> json \<Rightarrow> 's \<Rightarrow> (string + json) \<times> 's" where
  "cron_delete_tool ops args s =
     (case need_str ''cron_delete'' ''id'' args of
        Inl m \<Rightarrow> (Inl m, s)
      | Inr i \<Rightarrow>
          (case co_delete ops i s of
             (Inl e, s1) \<Rightarrow> (Inl (cron_map_err e), s1)
           | (Inr _, s1) \<Rightarrow> (Inr (JObject [(''ok'', JBool True), (''id'', JString i)]), s1)))"


subsection \<open>What a runner relies on\<close>

text \<open>
  \<open>row s i\<close> is the entry of the id \<open>i\<close>.  What is due is what the rows say; each update touches one row, and an update that fails none.
  The argument \<open>d\<close> of \<open>ops\<close> says how the store fares at that moment, \<open>up d\<close> that nothing fails.
\<close>

locale cron_contract =
  fixes ops :: "'d \<Rightarrow> 's cron_store_ops"
    and row :: "'s \<Rightarrow> string \<Rightarrow> cron_entry option"
    and ok :: "'s \<Rightarrow> bool"
    and up :: "'d \<Rightarrow> bool"
  assumes due_set: "\<lbrakk>ok s; co_due_at (ops d) now s = Inr es\<rbrakk> \<Longrightarrow> e \<in> set es \<longleftrightarrow> row s (ce_id e) = Some e \<and> cron_due now e"
    and due_distinct: "\<lbrakk>ok s; co_due_at (ops d) now s = Inr es\<rbrakk> \<Longrightarrow> distinct (map ce_id es)"
    and due_up: "up d \<Longrightarrow> \<exists>es. co_due_at (ops d) now s = Inr es"
    and advanced: "\<lbrakk>ok s; co_advance (ops d) i n t s = (Inr (), s')\<rbrakk> \<Longrightarrow> ok s' \<and>
      (\<exists>e. row s i = Some e \<and> row s' = (row s)(i \<mapsto> e\<lparr>ce_next_fire_at := n, ce_last_fired_at := Some t, ce_failure_count := 0\<rparr>))"
    and advance_failed: "co_advance (ops d) i n t s = (Inl er, s') \<Longrightarrow> s' = s"
    and advance_up: "\<lbrakk>up d; row s i \<noteq> None\<rbrakk> \<Longrightarrow> \<exists>s'. co_advance (ops d) i n t s = (Inr (), s')"
    and retried: "\<lbrakk>ok s; co_retry (ops d) i n t s = (Inr m, s')\<rbrakk> \<Longrightarrow> ok s' \<and>
      (\<exists>e. row s i = Some e \<and> m = ce_failure_count e + 1 \<and>
        row s' = (row s)(i \<mapsto> e\<lparr>ce_next_fire_at := n, ce_last_fired_at := Some t, ce_failure_count := m\<rparr>))"
    and retry_failed: "co_retry (ops d) i n t s = (Inl er, s') \<Longrightarrow> s' = s"
    and retry_up: "\<lbrakk>up d; row s i \<noteq> None\<rbrakk> \<Longrightarrow> \<exists>m s'. co_retry (ops d) i n t s = (Inr m, s')"
    and deleted: "\<lbrakk>ok s; co_delete (ops d) i s = (Inr (), s')\<rbrakk> \<Longrightarrow> ok s' \<and> row s' = (row s)(i := None)"
    and delete_failed: "co_delete (ops d) i s = (Inl er, s') \<Longrightarrow> s' = s"
    and delete_up: "\<lbrakk>up d; row s i \<noteq> None\<rbrakk> \<Longrightarrow> \<exists>s'. co_delete (ops d) i s = (Inr (), s')"

text \<open>The SQLite store keeps the contract.\<close>

definition cron_rows_ok :: "cron_row list \<Rightarrow> bool" where
  "cron_rows_ok s \<longleftrightarrow> distinct (map ce_id s) \<and> (\<forall>r \<in> set s. 0 \<le> ce_failure_count r)"

definition stored_entry :: "cron_row list \<Rightarrow> string \<Rightarrow> cron_entry option" where
  "stored_entry s i = map_option row_to_cron_entry (find (\<lambda>r. ce_id r = i) s)"

lemma with_failures_simps [simp]:
  "ce_id (with_failures n e) = ce_id e" "ce_binding_id (with_failures n e) = ce_binding_id e"
  "ce_recurring (with_failures n e) = ce_recurring e" "ce_next_fire_at (with_failures n e) = ce_next_fire_at e"
  "ce_paused (with_failures n e) = ce_paused e" "ce_failure_count (with_failures n e) = n"
  "ce_permanent (with_failures n e) = ce_permanent e" "ce_created_at (with_failures n e) = ce_created_at e"
  "cron_due now (with_failures n e) = cron_due now e"
  by (simp_all add: with_failures_def cron_due_def)

lemma row_to_cron_entry_simps [simp]:
  "ce_id (row_to_cron_entry r) = ce_id r" "ce_binding_id (row_to_cron_entry r) = ce_binding_id r"
  "ce_recurring (row_to_cron_entry r) = ce_recurring r" "ce_next_fire_at (row_to_cron_entry r) = ce_next_fire_at r"
  "ce_paused (row_to_cron_entry r) = ce_paused r" "cron_due now (row_to_cron_entry r) = cron_due now r"
  by (simp_all add: row_to_cron_entry_def)

lemma ce_id_entry_row [simp]: "ce_id (cron_entry_to_row e) = ce_id e" "ce_binding_id (cron_entry_to_row e) = ce_binding_id e"
  by (simp_all add: cron_entry_to_row_def)

lemma row_of_entry [simp]: "row_to_cron_entry (cron_entry_to_row e) = e"
  by (simp add: row_to_cron_entry_def cron_entry_to_row_def with_failures_def)

lemma stored_entry_Some:
  "distinct (map ce_id s) \<Longrightarrow> stored_entry s i = Some e \<longleftrightarrow> (\<exists>r \<in> set s. ce_id r = i \<and> e = row_to_cron_entry r)"
  by (auto simp: stored_entry_def find_distinct)

lemma stored_entry_None: "stored_entry s i = None \<longleftrightarrow> i \<notin> ce_id ` set s"
  by (simp add: stored_entry_def find_key_None)

lemma find_map_if:
  "(\<And>r. ce_id (f r) = ce_id r) \<Longrightarrow>
     find (\<lambda>r. ce_id r = j) (map (\<lambda>r. if ce_id r = i then f r else r) s) =
       (if j = i then map_option f (find (\<lambda>r. ce_id r = i) s) else find (\<lambda>r. ce_id r = j) s)"
  by (induction s) auto

lemma update_cron_row_ok:
  assumes "cron_rows_ok s" "update_cron_row i f s = (Inr (), s')" "\<And>r. ce_id (f r) = ce_id r"
    "\<And>r. 0 \<le> ce_failure_count r \<Longrightarrow> 0 \<le> ce_failure_count (f r)"
  shows "cron_rows_ok s' \<and> (\<exists>r \<in> set s. ce_id r = i \<and> stored_entry s i = Some (row_to_cron_entry r) \<and>
    find (\<lambda>r. ce_id r = i) s' = Some (f r) \<and> stored_entry s' = (stored_entry s)(i \<mapsto> row_to_cron_entry (f r)))"
proof -
  have s': "s' = map (\<lambda>r. if ce_id r = i then f r else r) s" and "i \<in> ce_id ` set s"
    using assms(2) by (auto simp: update_cron_row_def split: if_splits)
  then obtain r where r: "r \<in> set s" "ce_id r = i" by auto
  then have fr: "find (\<lambda>r. ce_id r = i) s = Some r" using assms(1) by (simp add: cron_rows_ok_def find_distinct)
  have ids: "map ce_id s' = map ce_id s" using assms(3) by (simp add: s')
  have "distinct (map ce_id s')" using assms(1) unfolding ids by (simp add: cron_rows_ok_def)
  then have "cron_rows_ok s'" using assms(1,4) unfolding cron_rows_ok_def by (auto simp: s')
  moreover have "stored_entry s' = (stored_entry s)(i \<mapsto> row_to_cron_entry (f r))"
    by (rule ext) (simp add: stored_entry_def s' find_map_if [OF assms(3)] fr)
  moreover have "find (\<lambda>r. ce_id r = i) s' = Some (f r)" by (simp add: s' find_map_if [OF assms(3)] fr)
  ultimately show ?thesis using r fr by (auto simp: stored_entry_def)
qed

lemma update_cron_row_up: "i \<in> ce_id ` set s \<Longrightarrow> \<exists>s'. update_cron_row i f s = (Inr (), s')"
  by (simp add: update_cron_row_def)

lemma update_cron_row_failed: "update_cron_row i f s = (Inl e, s') \<Longrightarrow> s' = s \<and> i \<notin> ce_id ` set s"
  by (auto simp: update_cron_row_def split: if_splits)

lemma update_finds:
  assumes "update_cron_row i f s = (Inr (), s')" "\<And>r. ce_id (f r) = ce_id r"
  shows "find (\<lambda>r. ce_id r = i) s' \<noteq> None"
proof -
  have "s' = map (\<lambda>r. if ce_id r = i then f r else r) s" and i: "find (\<lambda>r. ce_id r = i) s \<noteq> None"
    using assms(1) by (auto simp: update_cron_row_def find_key_None split: if_splits)
  then show ?thesis using find_map_if [of f i i s, OF assms(2)] by simp
qed

lemma find_filter_other: "find (\<lambda>r. ce_id r = j) (filter (\<lambda>r. ce_id r \<noteq> i) s) = (if j = i then None else find (\<lambda>r. ce_id r = j) s)"
  by (induction s) auto

lemma sql_cron_due_set:
  assumes "cron_rows_ok s" "sql_cron_due db now s = Inr es"
  shows "e \<in> set es \<longleftrightarrow> stored_entry s (ce_id e) = Some e \<and> cron_due now e" "distinct (map ce_id es)"
proof -
  have es: "es = map row_to_cron_entry (sort_key ce_next_fire_at (filter (cron_due now) s))"
    using assms(2) by (auto simp: sql_cron_due_def split: if_splits)
  have d: "distinct (map ce_id s)" using assms(1) by (simp add: cron_rows_ok_def)
  show "e \<in> set es \<longleftrightarrow> stored_entry s (ce_id e) = Some e \<and> cron_due now e"
    by (auto simp: es stored_entry_Some [OF d])
  have "distinct (map ce_id (filter (cron_due now) s))" using d by (rule distinct_map_filter)
  then have "distinct (map ce_id (sort_key ce_next_fire_at (filter (cron_due now) s)))"
    by (auto simp: distinct_map)
  then show "distinct (map ce_id es)" by (simp add: es comp_def)
qed

lemma sql_cron_retry_ok:
  assumes "cron_rows_ok s" "sql_cron_retry db i at t s = (Inr m, s')"
  shows "cron_rows_ok s' \<and> (\<exists>e. stored_entry s i = Some e \<and> m = ce_failure_count e + 1 \<and>
    stored_entry s' = (stored_entry s)(i \<mapsto> e\<lparr>ce_next_fire_at := at, ce_last_fired_at := Some t, ce_failure_count := m\<rparr>))"
proof -
  have upd: "update_cron_row i (retried_row at t) s = (Inr (), s')" and
    m: "\<exists>r. find (\<lambda>r. ce_id r = i) s' = Some r \<and> m = word_of_int (max 0 (ce_failure_count r))"
    using assms(2) by (auto simp: sql_cron_retry_def split: if_splits prod.splits sum.splits option.splits)
  from update_cron_row_ok [OF assms(1) upd] obtain r where r: "cron_rows_ok s'" "r \<in> set s" "stored_entry s i = Some (row_to_cron_entry r)"
    "find (\<lambda>r. ce_id r = i) s' = Some (retried_row at t r)"
    "stored_entry s' = (stored_entry s)(i \<mapsto> row_to_cron_entry (retried_row at t r))"
    by (auto simp: retried_row_def)
  have "0 \<le> ce_failure_count r" using r(2) assms(1) by (auto simp: cron_rows_ok_def)
  then have "m = word_of_int (ce_failure_count r) + 1"
    using m r(4) by (simp add: retried_row_def max_def)
  with r \<open>0 \<le> ce_failure_count r\<close> show ?thesis
    by (auto simp: retried_row_def row_to_cron_entry_def with_failures_def max_def)
qed

interpretation sqlite_cron: cron_contract sqlite_cron_ops stored_entry cron_rows_ok "\<lambda>db. \<forall>st. db st"
proof
  show "e \<in> set es \<longleftrightarrow> stored_entry s (ce_id e) = Some e \<and> cron_due now e"
    if "cron_rows_ok s" "co_due_at (sqlite_cron_ops d) now s = Inr es" for s d now es e
    using sql_cron_due_set(1) that by (simp add: sqlite_cron_ops_def)
  show "distinct (map ce_id es)" if "cron_rows_ok s" "co_due_at (sqlite_cron_ops d) now s = Inr es" for s d now es
    using sql_cron_due_set(2) that by (simp add: sqlite_cron_ops_def)
  show "cron_rows_ok s' \<and> (\<exists>e. stored_entry s i = Some e \<and>
      stored_entry s' = (stored_entry s)(i \<mapsto> e\<lparr>ce_next_fire_at := n, ce_last_fired_at := Some t, ce_failure_count := 0\<rparr>))"
    if s: "cron_rows_ok s" and u: "co_advance (sqlite_cron_ops d) i n t s = (Inr (), s')" for s d i n t s'
  proof -
    let ?f = "\<lambda>r. r\<lparr>ce_next_fire_at := n, ce_last_fired_at := Some t, ce_failure_count := 0 :: int\<rparr>"
    have "update_cron_row i ?f s = (Inr (), s')" using u by (auto simp: sqlite_cron_ops_def sql_cron_advance_def split: if_splits)
    from update_cron_row_ok [OF s this] show ?thesis by (auto simp: row_to_cron_entry_def with_failures_def)
  qed
  show "cron_rows_ok s' \<and> (\<exists>e. stored_entry s i = Some e \<and> m = ce_failure_count e + 1 \<and>
      stored_entry s' = (stored_entry s)(i \<mapsto> e\<lparr>ce_next_fire_at := n, ce_last_fired_at := Some t, ce_failure_count := m\<rparr>))"
    if "cron_rows_ok s" "co_retry (sqlite_cron_ops d) i n t s = (Inr m, s')" for s d i n t m s'
    using sql_cron_retry_ok that by (simp add: sqlite_cron_ops_def)
  show "cron_rows_ok s' \<and> stored_entry s' = (stored_entry s)(i := None)"
    if "cron_rows_ok s" "co_delete (sqlite_cron_ops d) i s = (Inr (), s')" for s d i s'
    using that by (auto simp: sqlite_cron_ops_def sql_cron_delete_def cron_rows_ok_def stored_entry_def fun_eq_iff find_filter_other
        distinct_map_filter split: if_splits)
  show "\<exists>m s'. co_retry (sqlite_cron_ops d) i n t s = (Inr m, s')" if d: "\<forall>st. d st" and i: "stored_entry s i \<noteq> None" for d s i n t
  proof -
    obtain s1 where s1: "update_cron_row i (retried_row n t) s = (Inr (), s1)"
      using i update_cron_row_up [of i s] by (auto simp: stored_entry_None)
    then have "find (\<lambda>r. ce_id r = i) s1 \<noteq> None" by (rule update_finds) (simp add: retried_row_def)
    with d s1 show ?thesis by (auto simp: sqlite_cron_ops_def sql_cron_retry_def split: option.splits)
  qed
qed (auto simp: sqlite_cron_ops_def sql_cron_due_def sql_cron_advance_def sql_cron_retry_def sql_cron_delete_def stored_entry_None
    update_cron_row_def split: if_splits prod.splits sum.splits option.splits)

end
