(* ===== verification/Cron_Runner.thy ===== *)
theory Cron_Runner
  imports Cron_Store
begin

section \<open>Firing the scheduled prompts (\<open>crates/core/src/cron_runner.rs\<close>)\<close>

text \<open>
  A tick asks the store what is due and dispatches each entry in turn.  What the dispatcher says of an entry, what other tasks do to the store
  meanwhile, and how the store fares afterwards is a record \<open>fire_io\<close> per entry.  The runner knows the store by its contract only.
\<close>

subsection \<open>Retries of one-shot entries\<close>

record one_shot_policy =
  op_max_retries :: u32
  op_base_backoff :: "64 word"
  op_max_backoff :: "64 word"

definition default_one_shot_policy :: one_shot_policy where
  "default_one_shot_policy = \<lparr>op_max_retries = 3, op_base_backoff = 30, op_max_backoff = 1800\<rparr>"

definition sat_mul :: "64 word \<Rightarrow> 64 word \<Rightarrow> 64 word" where
  "sat_mul a b = (if unat a * unat b < 2 ^ 64 then a * b else - 1)"

definition retry_delay_secs :: "one_shot_policy \<Rightarrow> u32 \<Rightarrow> 64 word" where
  "retry_delay_secs p attempt =
     (let base = max (op_base_backoff p) 1; pow = min (if attempt = 0 then 0 else attempt - 1) 31
      in min (sat_mul base (push_bit (unat pow) 1)) (max (op_max_backoff p) 1))"

subsection \<open>One entry\<close>

datatype fire_outcome =
    Advanced string int
  | OneShotDeleted string
  | OneShotRetryScheduled string int u32 u32 string
  | OneShotDroppedAfterRetries string u32 u32 string
  | DispatcherFailed string string
  | NextFireUnknown string string

fun fired_id :: "fire_outcome \<Rightarrow> string" where
  "fired_id (Advanced i n) = i"
| "fired_id (OneShotDeleted i) = i"
| "fired_id (OneShotRetryScheduled i n a m e) = i"
| "fired_id (OneShotDroppedAfterRetries i a m e) = i"
| "fired_id (DispatcherFailed i e) = i"
| "fired_id (NextFireUnknown i e) = i"

definition cron_error_str :: "cron_error \<Rightarrow> string" where
  "cron_error_str e =
     (case e of
        InvalidCron expr reason \<Rightarrow> ''invalid cron expression `'' @ expr @ ''`: '' @ reason
      | IntervalTooShort expr m \<Rightarrow> ''interval below minimum 60s for cron `'' @ expr @ ''` ('' @ m @ '')''
      | BindingFull b n m \<Rightarrow> ''binding `'' @ b @ ''` already has '' @ show_decimal n @ '' entries (max '' @ m @ '')''
      | CronNotFound i \<Rightarrow> ''cron entry `'' @ i @ ''` not found''
      | CronSql m \<Rightarrow> ''sqlx: '' @ m)"

text \<open>\<open>cron\<close> and the arithmetic on floats are libraries of the runner; \<open>tick_interval\<close> only times the loop.\<close>

record 'f cron_runner =
  rn_lib :: cron_lib
  rn_floats :: "'f float_lib"
  rn_tick_interval :: duration
  rn_one_shot :: one_shot_policy
  rn_jitter :: "'f jitter_config"

record ('s, 'd) fire_io =
  fi_fire :: "cron_entry \<Rightarrow> string option"
  fi_others :: "'s \<Rightarrow> 's"
  fi_db :: 'd

text \<open>The minute of the hour of a candidate, 0 when it is out of chrono's range.\<close>

definition minute_of :: "cron_lib \<Rightarrow> int \<Rightarrow> u32" where
  "minute_of lib t = (if cl_in_range lib t then word_of_int (t div 60 mod 60) else 0)"

definition retry_at :: "'f cron_runner \<Rightarrow> int \<Rightarrow> cron_entry \<Rightarrow> int" where
  "retry_at c now e =
     (let next_attempt = (if ce_failure_count e = - 1 then - 1 else ce_failure_count e + 1);
          target = sat_i64 (now + sint (retry_delay_secs (rn_one_shot c) next_attempt))
      in apply_one_shot_lead (rn_floats c) target now (ce_id e) (rn_jitter c) (minute_of (rn_lib c) target))"

definition jittered_next :: "'f cron_runner \<Rightarrow> cron_entry \<Rightarrow> int \<Rightarrow> int \<Rightarrow> int" where
  "jittered_next c e now next1 =
     (let following = (case next_fire_after (rn_lib c) (ce_cron_expr e) next1 of Inr t \<Rightarrow> t | Inl _ \<Rightarrow> next1)
      in apply_recurring_jitter (rn_floats c) next1 following now (ce_id e) (rn_jitter c))"

definition advance_entry ::
  "'f cron_runner \<Rightarrow> 's cron_store_ops \<Rightarrow> int \<Rightarrow> string option \<Rightarrow> cron_entry \<Rightarrow> 's \<Rightarrow> fire_outcome \<times> 's" where
  "advance_entry c ops now err e s =
     (case next_fire_after (rn_lib c) (ce_cron_expr e) now of
        Inl er \<Rightarrow> (NextFireUnknown (ce_id e) (cron_error_str er), s)
      | Inr next1 \<Rightarrow>
          let n = jittered_next c e now next1
          in case co_advance ops (ce_id e) n now s of
               (Inl er, s1) \<Rightarrow> (NextFireUnknown (ce_id e) (cron_error_str er), s1)
             | (Inr _, s1) \<Rightarrow> (case err of Some m \<Rightarrow> DispatcherFailed (ce_id e) m | None \<Rightarrow> Advanced (ce_id e) n, s1))"

definition drop_entry :: "'s cron_store_ops \<Rightarrow> fire_outcome \<Rightarrow> cron_entry \<Rightarrow> 's \<Rightarrow> fire_outcome \<times> 's" where
  "drop_entry ops out e s =
     (case co_delete ops (ce_id e) s of
        (Inl er, s1) \<Rightarrow> (NextFireUnknown (ce_id e) (cron_error_str er), s1)
      | (Inr _, s1) \<Rightarrow> (out, s1))"

definition settle_one_shot ::
  "'f cron_runner \<Rightarrow> 's cron_store_ops \<Rightarrow> int \<Rightarrow> string option \<Rightarrow> cron_entry \<Rightarrow> 's \<Rightarrow> fire_outcome \<times> 's" where
  "settle_one_shot c ops now err e s =
     (let m = op_max_retries (rn_one_shot c)
      in case err of
           None \<Rightarrow> drop_entry ops (OneShotDeleted (ce_id e)) e s
         | Some why \<Rightarrow>
             if ce_failure_count e < m then
               (case co_retry ops (ce_id e) (retry_at c now e) now s of
                  (Inl er, s1) \<Rightarrow> (NextFireUnknown (ce_id e) (cron_error_str er), s1)
                | (Inr attempt, s1) \<Rightarrow> (OneShotRetryScheduled (ce_id e) (retry_at c now e) attempt m why, s1))
             else drop_entry ops
               (OneShotDroppedAfterRetries (ce_id e) (if ce_failure_count e = - 1 then - 1 else ce_failure_count e + 1) m why) e s)"

definition fire_entry ::
  "'f cron_runner \<Rightarrow> ('d \<Rightarrow> 's cron_store_ops) \<Rightarrow> int \<Rightarrow> ('s, 'd) fire_io \<Rightarrow> cron_entry \<Rightarrow> 's \<Rightarrow> fire_outcome \<times> 's" where
  "fire_entry c ops now io e s =
     (let err = fi_fire io e; s1 = fi_others io s
      in if ce_recurring e then advance_entry c (ops (fi_db io)) now err e s1
         else settle_one_shot c (ops (fi_db io)) now err e s1)"

subsection \<open>One tick, and many\<close>

fun fire_all ::
  "'f cron_runner \<Rightarrow> ('d \<Rightarrow> 's cron_store_ops) \<Rightarrow> int \<Rightarrow> (nat \<Rightarrow> ('s, 'd) fire_io) \<Rightarrow> nat \<Rightarrow> cron_entry list \<Rightarrow> 's \<Rightarrow> fire_outcome list \<times> 's" where
  "fire_all c ops now io k [] s = ([], s)"
| "fire_all c ops now io k (e # es) s =
     (let (out, s1) = fire_entry c ops now (io k) e s; (outs, s2) = fire_all c ops now io (Suc k) es s1
      in (out # outs, s2))"

definition cron_tick_once ::
  "'f cron_runner \<Rightarrow> ('d \<Rightarrow> 's cron_store_ops) \<Rightarrow> int \<Rightarrow> 'd \<Rightarrow> (nat \<Rightarrow> ('s, 'd) fire_io) \<Rightarrow> 's \<Rightarrow> fire_outcome list \<times> 's" where
  "cron_tick_once c ops now d io s =
     (if \<not> jc_enabled (rn_jitter c) then ([], s)
      else case co_due_at (ops d) now s of
             Inl e \<Rightarrow> ([], s)
           | Inr due \<Rightarrow> fire_all c ops now io 0 due s)"

text \<open>The loop: every tick finds the jitter configuration and the store as they are by then.\<close>

record ('f, 's, 'd) cron_tick =
  tk_now :: int
  tk_jitter :: "'f jitter_config"
  tk_others :: "'s \<Rightarrow> 's"
  tk_db :: 'd
  tk_io :: "nat \<Rightarrow> ('s, 'd) fire_io"

fun run_cron ::
  "'f cron_runner \<Rightarrow> ('d \<Rightarrow> 's cron_store_ops) \<Rightarrow> ('f, 's, 'd) cron_tick list \<Rightarrow> 's \<Rightarrow> fire_outcome list \<times> 's" where
  "run_cron c ops [] s = ([], s)"
| "run_cron c ops (t # ts) s =
     (let (outs, s1) = cron_tick_once (c\<lparr>rn_jitter := tk_jitter t\<rparr>) ops (tk_now t) (tk_db t) (tk_io t) (tk_others t s);
          (rest, s2) = run_cron c ops ts s1
      in (outs @ rest, s2))"


subsection \<open>What a tick does\<close>

lemma fire_entry_id: "fire_entry c ops now io e s = (out, s') \<Longrightarrow> fired_id out = ce_id e"
  by (auto simp: fire_entry_def advance_entry_def settle_one_shot_def drop_entry_def Let_def
      split: if_splits sum.splits prod.splits option.splits)

lemma fire_all_ids: "map fired_id (fst (fire_all c ops now io k es s)) = map ce_id es"
  by (induction c ops now io k es s rule: fire_all.induct) (auto simp: Let_def fire_entry_id split: prod.splits)

definition dispatches :: "string \<Rightarrow> fire_outcome list \<Rightarrow> nat" where
  "dispatches i outs = length (filter (\<lambda>out. fired_id out = i) outs)"

lemma dispatches_simps [simp]:
  "dispatches i [] = 0" "dispatches i (out # outs) = (if fired_id out = i then 1 else 0) + dispatches i outs"
  "dispatches i (xs @ ys) = dispatches i xs + dispatches i ys"
  by (simp_all add: dispatches_def)

lemma unat_step:
  assumes "x < (m :: u32)"
  shows "unat (x + 1) = unat x + 1"
proof -
  have "x \<noteq> - 1" using assms word_order.extremum_strict by auto
  then have "1 + x \<noteq> 0" by (metis add_eq_0_iff minus_equation_iff)
  then show ?thesis by (simp add: unatSuc add.commute)
qed

text \<open>How often a one-shot entry may still be dispatched.\<close>

definition attempts_left :: "u32 \<Rightarrow> cron_entry option \<Rightarrow> nat" where
  "attempts_left m r = (case r of None \<Rightarrow> 0 | Some e \<Rightarrow> unat m - unat (ce_failure_count e) + 1)"

text \<open>Other tasks may remove an entry, pause it or move it, but neither make one up nor touch its kind and its failures.\<close>

definition tolerates :: "('s \<Rightarrow> string \<Rightarrow> cron_entry option) \<Rightarrow> ('s \<Rightarrow> bool) \<Rightarrow> string \<Rightarrow> ('s \<Rightarrow> 's) \<Rightarrow> bool" where
  "tolerates row ok i f \<longleftrightarrow>
     (\<forall>s. ok s \<longrightarrow> ok (f s) \<and>
       (\<forall>e'. row (f s) i = Some e' \<longrightarrow>
         (\<exists>e. row s i = Some e \<and> ce_recurring e' = ce_recurring e \<and> ce_failure_count e' = ce_failure_count e)))"

context cron_contract
begin

definition one_shot :: "string \<Rightarrow> 's \<Rightarrow> bool" where
  "one_shot i s \<longleftrightarrow> ok s \<and> (\<forall>e. row s i = Some e \<longrightarrow> \<not> ce_recurring e)"

lemma tolerated:
  assumes "tolerates row ok i f" "one_shot i s"
  shows "one_shot i (f s)" "attempts_left m (row (f s) i) \<le> attempts_left m (row s i)"
    "row (f s) i = Some e' \<Longrightarrow> \<exists>e. row s i = Some e \<and> ce_failure_count e' = ce_failure_count e"
  using assms by (fastforce simp: tolerates_def one_shot_def attempts_left_def split: option.splits)+

lemma drop_result:
  assumes "drop_entry (ops d) out e s = (out', s')" "ok s"
  shows "ok s'" "row s' = (row s)(ce_id e := None) \<or> s' = s" "up d \<Longrightarrow> row s' (ce_id e) = None"
proof -
  show "ok s'" "row s' = (row s)(ce_id e := None) \<or> s' = s"
    using assms deleted delete_failed by (fastforce simp: drop_entry_def split: sum.splits prod.splits)+
  show "row s' (ce_id e) = None" if "up d"
  proof (cases "row s (ce_id e) = None")
    case True
    with assms deleted delete_failed show ?thesis by (fastforce simp: drop_entry_def split: sum.splits prod.splits)
  next
    case False
    with delete_up [OF that] obtain s2 where "co_delete (ops d) (ce_id e) s = (Inr (), s2)" by blast
    with assms deleted show ?thesis by (auto simp: drop_entry_def)
  qed
qed

text \<open>The entry of another id is left alone.\<close>

lemma fire_other:
  assumes "fire_entry c ops now io e s = (out, s')" "ce_id e \<noteq> i" "ok (fi_others io s)"
  shows "ok s'" "row s' i = row (fi_others io s) i"
proof -
  let ?s = "fi_others io s"
  have adv: "ok s' \<and> row s' i = row ?s i" if "advance_entry c (ops (fi_db io)) now err e ?s = (out, s')" for err
    using that assms(2,3) advanced advance_failed
    by (fastforce simp: advance_entry_def Let_def split: sum.splits prod.splits option.splits)
  have drp: "ok s' \<and> row s' i = row ?s i" if "drop_entry (ops (fi_db io)) out1 e ?s = (out, s')" for out1
    using drop_result(1,2) [OF that assms(3)] assms(2) by auto
  have ret: "ok s' \<and> row s' i = row ?s i" if "co_retry (ops (fi_db io)) (ce_id e) n now ?s = (r, s')" for n r
    using that assms(2,3) retried [of ?s] retry_failed by (cases r) fastforce+
  have "ok s' \<and> row s' i = row ?s i"
    using assms(1) adv drp ret
    by (auto simp: fire_entry_def settle_one_shot_def Let_def split: if_splits option.splits sum.splits prod.splits)
  then show "ok s'" "row s' i = row ?s i" by auto
qed

text \<open>A dispatch of the entry uses up an attempt.\<close>

lemma fire_one_shot:
  assumes "fire_entry c ops now io e s = (out, s')" "ce_id e = i" "\<not> ce_recurring e" "up (fi_db io)" "tolerates row ok i (fi_others io)"
    "one_shot i s" "\<And>e'. row s i = Some e' \<Longrightarrow> ce_failure_count e' = ce_failure_count e" "op_max_retries (rn_one_shot c) = m"
  shows "one_shot i s'" "attempts_left m (row s' i) \<le> unat m - unat (ce_failure_count e)"
proof -
  let ?s = "fi_others io s"
  note tol = tolerated [OF assms(5,6)]
  have ok: "ok ?s" using tol(1) by (simp add: one_shot_def)
  have fc: "ce_failure_count e' = ce_failure_count e" if "row ?s i = Some e'" for e'
    using tol(3) [OF that] assms(7) by auto
  have drp: "one_shot i s' \<and> attempts_left m (row s' i) = 0" if "drop_entry (ops (fi_db io)) out1 e ?s = (out, s')" for out1
    using drop_result [OF that ok] assms(2,4) by (auto simp: one_shot_def attempts_left_def)
  have ret: "one_shot i s' \<and> attempts_left m (row s' i) \<le> unat m - unat (ce_failure_count e)"
    if r: "co_retry (ops (fi_db io)) i n now ?s = (r, s')" and lt: "ce_failure_count e < m" for n r
  proof (cases r)
    case (Inl er)
    then have "s' = ?s" using r retry_failed by blast
    moreover have "row ?s i = None" using retry_up [OF assms(4), of ?s i n now] r Inl by fastforce
    ultimately show ?thesis using tol(1) by (simp add: attempts_left_def)
  next
    case (Inr k)
    from retried [OF ok r [unfolded Inr]] obtain e1 where e1: "ok s'" "row ?s i = Some e1" "k = ce_failure_count e1 + 1"
      "row s' i = Some (e1\<lparr>ce_next_fire_at := n, ce_last_fired_at := Some now, ce_failure_count := k\<rparr>)" by auto
    have "\<not> ce_recurring e1" using tol(1) e1(2) by (simp add: one_shot_def)
    moreover have "unat k = unat (ce_failure_count e) + 1"
      using fc [OF e1(2)] e1(3) unat_step [OF lt] by simp
    ultimately show ?thesis using e1(1,4) lt by (simp add: one_shot_def attempts_left_def word_less_nat_alt)
  qed
  have "one_shot i s' \<and> attempts_left m (row s' i) \<le> unat m - unat (ce_failure_count e)"
    using assms(1-3,8) drp ret
    by (fastforce simp: fire_entry_def settle_one_shot_def Let_def split: if_splits option.splits sum.splits prod.splits)
  then show "one_shot i s'" "attempts_left m (row s' i) \<le> unat m - unat (ce_failure_count e)" by auto
qed

end


text \<open>Ticks whose store answers and whose other tasks leave the entry's kind and failures alone.\<close>

definition fair_tick ::
  "('s \<Rightarrow> string \<Rightarrow> cron_entry option) \<Rightarrow> ('s \<Rightarrow> bool) \<Rightarrow> ('d \<Rightarrow> bool) \<Rightarrow> string \<Rightarrow> ('f, 's, 'd) cron_tick \<Rightarrow> bool" where
  "fair_tick row ok up i t \<longleftrightarrow>
     tolerates row ok i (tk_others t) \<and> (\<forall>k. tolerates row ok i (fi_others (tk_io t k)) \<and> up (fi_db (tk_io t k)))"

context cron_contract
begin

lemma fire_all_one_shot:
  assumes "fire_all c ops now io k es s = (outs, s')" "distinct (map ce_id es)" "one_shot i s" "op_max_retries (rn_one_shot c) = m"
    "\<forall>k. tolerates row ok i (fi_others (io k)) \<and> up (fi_db (io k))"
    "\<forall>e \<in> set es. ce_id e = i \<longrightarrow> \<not> ce_recurring e \<and> (\<forall>e'. row s i = Some e' \<longrightarrow> ce_failure_count e' = ce_failure_count e)"
  shows "one_shot i s' \<and> dispatches i outs = (if i \<in> ce_id ` set es then 1 else 0) \<and>
    (\<forall>e \<in> set es. ce_id e = i \<longrightarrow> attempts_left m (row s' i) \<le> unat m - unat (ce_failure_count e)) \<and>
    (i \<notin> ce_id ` set es \<longrightarrow> attempts_left m (row s' i) \<le> attempts_left m (row s i))"
  using assms
proof (induction es arbitrary: k s outs)
  case Nil
  then show ?case by simp
next
  case (Cons e es)
  from Cons.prems(1) obtain out s1 outs1 where fire: "fire_entry c ops now (io k) e s = (out, s1)"
    and rest: "fire_all c ops now io (Suc k) es s1 = (outs1, s')" and outs: "outs = out # outs1"
    by (auto simp: Let_def split: prod.splits)
  have dist: "distinct (map ce_id es)" and fid: "fired_id out = ce_id e" using Cons.prems(2) fire_entry_id [OF fire] by auto
  have tol: "tolerates row ok i (fi_others (io k))" and u: "up (fi_db (io k))" using Cons.prems(5) by auto
  show ?case
  proof (cases "ce_id e = i")
    case True
    then have notin: "i \<notin> ce_id ` set es" using Cons.prems(2) by auto
    have "\<not> ce_recurring e" "\<And>e'. row s i = Some e' \<Longrightarrow> ce_failure_count e' = ce_failure_count e"
      using Cons.prems(6) True by auto
    note f = fire_one_shot [OF fire True this(1) u tol Cons.prems(3) this(2) Cons.prems(4)]
    have rest0: "one_shot i s'" "dispatches i outs1 = 0" "attempts_left m (row s' i) \<le> attempts_left m (row s1 i)"
      using Cons.IH [OF rest dist f(1) Cons.prems(4,5)] notin by auto
    have only: "x = e" if "x \<in> set (e # es)" "ce_id x = i" for x using that notin by auto
    have left: "attempts_left m (row s' i) \<le> unat m - unat (ce_failure_count e)" using rest0(3) f(2) by (rule le_trans)
    show ?thesis
    proof (intro conjI ballI impI)
      show "attempts_left m (row s' i) \<le> unat m - unat (ce_failure_count x)" if "x \<in> set (e # es)" "ce_id x = i" for x
        using left only [OF that] by simp
      show "dispatches i outs = (if i \<in> ce_id ` set (e # es) then 1 else 0)" using True fid outs rest0(2) by simp
      show "attempts_left m (row s' i) \<le> attempts_left m (row s i)" if "i \<notin> ce_id ` set (e # es)" using that True by simp
    qed (rule rest0(1))
  next
    case False
    note tl = tolerated [OF tol Cons.prems(3)]
    have "ok (fi_others (io k) s)" using tl(1) by (simp add: one_shot_def)
    note f = fire_other [OF fire False this]
    have one: "one_shot i s1" using tl(1) f by (simp add: one_shot_def)
    have snap: "\<forall>x \<in> set es. ce_id x = i \<longrightarrow> \<not> ce_recurring x \<and> (\<forall>e'. row s1 i = Some e' \<longrightarrow> ce_failure_count e' = ce_failure_count x)"
    proof (intro ballI impI conjI allI)
      fix x assume x: "x \<in> set es" "ce_id x = i"
      show "\<not> ce_recurring x" using Cons.prems(6) x by simp
      fix e' assume "row s1 i = Some e'"
      then obtain y where "row s i = Some y" "ce_failure_count e' = ce_failure_count y" using tl(3) f(2) by auto
      with Cons.prems(6) x show "ce_failure_count e' = ce_failure_count x" by simp
    qed
    have "attempts_left m (row s1 i) \<le> attempts_left m (row s i)" using tl(2) f(2) by simp
    with Cons.IH [OF rest dist one Cons.prems(4,5) snap] False fid outs show ?thesis by auto
  qed
qed

lemma tick_one_shot:
  assumes "cron_tick_once c ops now d io s = (outs, s')" "one_shot i s" "op_max_retries (rn_one_shot c) = m"
    "\<forall>k. tolerates row ok i (fi_others (io k)) \<and> up (fi_db (io k))"
  shows "one_shot i s' \<and> dispatches i outs + attempts_left m (row s' i) \<le> attempts_left m (row s i)"
proof (cases "jc_enabled (rn_jitter c) \<and> (\<exists>due. co_due_at (ops d) now s = Inr due)")
  case True
  then obtain due where due: "co_due_at (ops d) now s = Inr due" and all: "fire_all c ops now io 0 due s = (outs, s')"
    using assms(1) by (auto simp: cron_tick_once_def)
  have ok: "ok s" using assms(2) by (simp add: one_shot_def)
  have rows: "e \<in> set due \<Longrightarrow> row s (ce_id e) = Some e" for e using due_set [OF ok due] by simp
  have "\<forall>e \<in> set due. ce_id e = i \<longrightarrow> \<not> ce_recurring e \<and> (\<forall>e'. row s i = Some e' \<longrightarrow> ce_failure_count e' = ce_failure_count e)"
    using rows assms(2) by (auto simp: one_shot_def)
  note f = fire_all_one_shot [OF all due_distinct [OF ok due] assms(2,3,4) this]
  show ?thesis
  proof (cases "i \<in> ce_id ` set due")
    case True
    then obtain e where e: "e \<in> set due" "ce_id e = i" by auto
    then have "attempts_left m (row s i) = unat m - unat (ce_failure_count e) + 1" using rows by (auto simp: attempts_left_def)
    moreover have "attempts_left m (row s' i) \<le> unat m - unat (ce_failure_count e)" "dispatches i outs = 1" using f e True by auto
    ultimately show ?thesis using f by simp
  qed (use f in auto)
next
  case False
  then show ?thesis using assms(1,2) by (auto simp: cron_tick_once_def split: if_splits sum.splits)
qed

lemma run_one_shot:
  assumes "run_cron c ops ts s = (outs, s')" "one_shot i s" "op_max_retries (rn_one_shot c) = m" "\<forall>t \<in> set ts. fair_tick row ok up i t"
  shows "dispatches i outs + attempts_left m (row s' i) \<le> attempts_left m (row s i)"
  using assms
proof (induction ts arbitrary: s outs)
  case Nil
  then show ?case by simp
next
  case (Cons t ts)
  from Cons.prems(1) obtain outs1 s1 rest
    where t: "cron_tick_once (c\<lparr>rn_jitter := tk_jitter t\<rparr>) ops (tk_now t) (tk_db t) (tk_io t) (tk_others t s) = (outs1, s1)"
      and r: "run_cron c ops ts s1 = (rest, s')" and outs: "outs = outs1 @ rest"
    by (auto simp: Let_def split: prod.splits)
  have fair: "fair_tick row ok up i t" using Cons.prems(4) by simp
  then have tl: "one_shot i (tk_others t s)" "attempts_left m (row (tk_others t s) i) \<le> attempts_left m (row s i)"
    using tolerated [of i "tk_others t" s] Cons.prems(2) by (auto simp: fair_tick_def)
  from tick_one_shot [OF t tl(1), of m] fair Cons.prems(3)
  have "one_shot i s1" "dispatches i outs1 + attempts_left m (row s1 i) \<le> attempts_left m (row (tk_others t s) i)"
    by (auto simp: fair_tick_def)
  with Cons.IH [OF r this(1) Cons.prems(3)] Cons.prems(4) tl(2) outs show ?case by simp
qed

text \<open>A recurring entry moves on whatever the dispatcher says.\<close>

lemma fire_recurring:
  assumes "fire_entry c ops now io e s = (out, s')" "ce_recurring e" "up (fi_db io)" "ok (fi_others io s)"
    "row (fi_others io s) (ce_id e) = Some e1" "next_fire_after (rn_lib c) (ce_cron_expr e) now = Inr next1"
  shows "ok s'" "out = (case fi_fire io e of Some m \<Rightarrow> DispatcherFailed (ce_id e) m | None \<Rightarrow> Advanced (ce_id e) (jittered_next c e now next1))"
    "row s' (ce_id e) = Some (e1\<lparr>ce_next_fire_at := jittered_next c e now next1, ce_last_fired_at := Some now, ce_failure_count := 0\<rparr>)"
proof -
  let ?s = "fi_others io s"
  from advance_up [OF assms(3), of ?s "ce_id e" "jittered_next c e now next1" now] assms(5)
  obtain s2 where s2: "co_advance (ops (fi_db io)) (ce_id e) (jittered_next c e now next1) now ?s = (Inr (), s2)" by auto
  have fired: "s' = s2" "out = (case fi_fire io e of Some m \<Rightarrow> DispatcherFailed (ce_id e) m | None \<Rightarrow> Advanced (ce_id e) (jittered_next c e now next1))"
    using assms(1,2,6) s2 by (auto simp: fire_entry_def advance_entry_def Let_def split: option.splits)
  have "ok s2" "row s2 (ce_id e) = Some (e1\<lparr>ce_next_fire_at := jittered_next c e now next1, ce_last_fired_at := Some now, ce_failure_count := 0\<rparr>)"
    using advanced [OF assms(4) s2] assms(5) by auto
  with fired show "ok s'" "out = (case fi_fire io e of Some m \<Rightarrow> DispatcherFailed (ce_id e) m | None \<Rightarrow> Advanced (ce_id e) (jittered_next c e now next1))"
    "row s' (ce_id e) = Some (e1\<lparr>ce_next_fire_at := jittered_next c e now next1, ce_last_fired_at := Some now, ce_failure_count := 0\<rparr>)"
    by simp_all
qed

end

end
