(* ===== verification/Cron_Facts.thy ===== *)
theory Cron_Facts
  imports Cron_Runner
begin

section \<open>Properties of the scheduled prompts\<close>

text \<open>
  The runner over the SQLite store: how often a one-shot entry is dispatched, where a recurring entry moves to, the entry that never moves, the
  cap on the entries of a binding, and the entry that a sweep put aside.
\<close>


definition plain_io :: "string option \<Rightarrow> ('s, cron_stmt \<Rightarrow> bool) fire_io" where
  "plain_io err = \<lparr>fi_fire = (\<lambda>_. err), fi_others = (\<lambda>s. s), fi_db = (\<lambda>_. True)\<rparr>"

definition plain_tick :: "string option \<Rightarrow> int \<Rightarrow> (unit, 's, cron_stmt \<Rightarrow> bool) cron_tick" where
  "plain_tick err now =
     \<lparr>tk_now = now, tk_jitter = (default_jitter ())\<lparr>jc_one_shot_max_ms := 0\<rparr>, tk_others = (\<lambda>s. s), tk_db = (\<lambda>_. True), tk_io = (\<lambda>_. plain_io err)\<rparr>"

lemma plain_tick_fair: "fair_tick row ok (\<lambda>db. \<forall>st. db st) i (plain_tick err now)"
  by (simp add: fair_tick_def plain_tick_def plain_io_def tolerates_def)

text \<open>A runner without jitter, and an entry for the instant 100.\<close>

definition sample_floats :: "unit float_lib" where
  "sample_floats =
     \<lparr>fl_nonpos = (\<lambda>_. True), fl_in_unit = (\<lambda>_. True), fl_finite = (\<lambda>_. True), fl_window = (\<lambda>_ _. 0), fl_scale = (\<lambda>_ _. 0), fl_percent = (\<lambda>_. ())\<rparr>"

definition sample_cron_entry :: "string \<Rightarrow> bool \<Rightarrow> cron_entry" where
  "sample_cron_entry expr recurring =
     \<lparr>ce_id = ''e'', ce_binding_id = ''telegram:bot'', ce_cron_expr = expr, ce_prompt = ''hello'', ce_channel = None, ce_model_provider = None,
      ce_model_name = None, ce_recipient = None, ce_recurring = recurring, ce_created_at = 0, ce_next_fire_at = 100, ce_last_fired_at = None,
      ce_failure_count = 0, ce_paused = False, ce_permanent = False, ce_tenant_id = None\<rparr>"

definition sample_cron_runner :: "cron_lib \<Rightarrow> unit cron_runner" where
  "sample_cron_runner lib =
     \<lparr>rn_lib = lib, rn_floats = sample_floats, rn_tick_interval = 5000000000, rn_one_shot = default_one_shot_policy\<lparr>op_max_retries := 1\<rparr>,
      rn_jitter = default_jitter ()\<rparr>"

text \<open>Every minute, and twice at nine, half a minute apart.\<close>

definition sample_lib :: cron_lib where
  "sample_lib =
     \<lparr>cl_parse = (\<lambda>x. Inr (\<lambda>t. if x = ''0 * * * * *'' then [(t div 60 + 1) * 60, (t div 60 + 2) * 60]
        else let n = t div 86400 * 86400 + 32400 in filter (\<lambda>f. t < f) [n, n + 30, n + 86400, n + 86430])),
      cl_in_range = (\<lambda>_. True)\<rparr>"



subsection \<open>Recurring entries\<close>

lemma sdiv_nonneg: "0 \<le> a \<Longrightarrow> a sdiv 1000 = a div (1000 :: int)"
  by (simp add: signed_divide_int_def sgn_if)

text \<open>What is assumed of the floats: scaling by a fraction below one stays in the window.\<close>

definition scales_down :: "'f float_lib \<Rightarrow> bool" where
  "scales_down fl \<longleftrightarrow> (\<forall>n w. 0 < w \<longrightarrow> 0 \<le> fl_scale fl n w \<and> fl_scale fl n w \<le> w)"

text \<open>Either there is no jitter or the offset is that of a window below the cap and below the fraction of the interval.\<close>

lemma jitter_cases:
  assumes "scales_down fl" "from < next1"
  obtains "apply_recurring_jitter fl next1 t from i c = next1"
  | d where "apply_recurring_jitter fl next1 t from i c = next1 + d div 1000" "0 \<le> d" "d \<le> jc_recurring_cap_ms c"
      "d \<le> fl_window fl (jc_recurring_frac c) ((t - next1) * 1000)"
proof -
  define w where "w = min (fl_window fl (jc_recurring_frac c) ((t - next1) * 1000)) (jc_recurring_cap_ms c)"
  let ?d = "fl_scale fl (jitter_frac_from_entry_id i) w" and ?r = "apply_recurring_jitter fl next1 t from i c"
  show thesis
  proof (cases "?r = next1")
    case False
    then have w: "0 < w" and eq: "?r = (if next1 + ?d sdiv 1000 \<le> from then from + 1 else next1 + ?d sdiv 1000)"
      unfolding apply_recurring_jitter_def Let_def w_def [symmetric] by (auto split: if_splits)
    have d: "0 \<le> ?d" "?d \<le> w" using assms(1) w unfolding scales_down_def by blast+
    then have "0 \<le> ?d div 1000" by (simp add: pos_imp_zdiv_nonneg_iff)
    then have r: "?r = next1 + ?d div 1000" using eq assms(2) by (simp add: sdiv_nonneg [OF d(1)])
    show thesis by (rule that(2) [OF r d(1)]) (use d(2) in \<open>simp_all only: w_def min.bounded_iff\<close>)
  qed (rule that(1))
qed

lemma jitter_bounds:
  assumes "scales_down fl" "from < next1"
  shows "next1 \<le> apply_recurring_jitter fl next1 t from i c"
    "apply_recurring_jitter fl next1 t from i c \<le> next1 + max 0 (jc_recurring_cap_ms c) div 1000"
  using assms by (cases rule: jitter_cases [of fl "from" next1 t i c]; simp add: pos_imp_zdiv_nonneg_iff zdiv_mono1 max_def)+

lemma jitter_before_following:
  assumes "scales_down fl" "from < next1" "next1 \<le> t" "fl_window fl (jc_recurring_frac c) ((t - next1) * 1000) \<le> (t - next1) * 1000"
  shows "apply_recurring_jitter fl next1 t from i c \<le> t"
  using assms(1,2)
proof (cases rule: jitter_cases [of fl "from" next1 t i c])
  case (2 d)
  then have "d div 1000 \<le> (t - next1) * 1000 div 1000" using assms(4) by (intro zdiv_mono1) linarith+
  with 2(1) show ?thesis by simp
qed (use assms(3) in simp)

text \<open>What is assumed of the cron crate: the fires after an instant are later than it, in order.\<close>

definition fires_later :: "cron_lib \<Rightarrow> bool" where
  "fires_later lib \<longleftrightarrow> (\<forall>x after t. cl_parse lib x = Inr after \<longrightarrow> (\<forall>f \<in> set (after t). t < f) \<and> sorted (after t))"

lemma next_fire_later: "fires_later lib \<Longrightarrow> next_fire_after lib x t = Inr f \<Longrightarrow> t < f"
  by (fastforce simp: fires_later_def next_fire_after_def split: sum.splits if_splits list.splits)


lemma sample_lib_later: "fires_later sample_lib"
  by (auto simp: fires_later_def sample_lib_def Let_def)



subsection \<open>An entry that never moves\<close>

definition leaves :: "('s \<Rightarrow> string \<Rightarrow> cron_entry option) \<Rightarrow> ('s \<Rightarrow> bool) \<Rightarrow> string \<Rightarrow> ('s \<Rightarrow> 's) \<Rightarrow> bool" where
  "leaves row ok i f \<longleftrightarrow> (\<forall>s. ok s \<longrightarrow> ok (f s) \<and> row (f s) i = row s i)"

text \<open>A tick at which the entry is due but its next fire cannot be computed.\<close>

definition stuck_tick ::
  "'f cron_runner \<Rightarrow> ('s \<Rightarrow> string \<Rightarrow> cron_entry option) \<Rightarrow> ('s \<Rightarrow> bool) \<Rightarrow> ('d \<Rightarrow> bool) \<Rightarrow> cron_entry \<Rightarrow> ('f, 's, 'd) cron_tick \<Rightarrow> bool" where
  "stuck_tick c row ok up e t \<longleftrightarrow>
     jc_enabled (tk_jitter t) \<and> up (tk_db t) \<and> cron_due (tk_now t) e \<and>
     (case next_fire_after (rn_lib c) (ce_cron_expr e) (tk_now t) of Inl _ \<Rightarrow> True | Inr _ \<Rightarrow> False) \<and>
     leaves row ok (ce_id e) (tk_others t) \<and> (\<forall>k. leaves row ok (ce_id e) (fi_others (tk_io t k)))"

context cron_contract
begin

lemma fire_all_stuck:
  assumes "fire_all c ops now io k es s = (outs, s')" "distinct (map ce_id es)" "ok s" "row s (ce_id e) = Some e" "ce_recurring e"
    "\<forall>x \<in> set es. ce_id x = ce_id e \<longrightarrow> x = e" "next_fire_after (rn_lib c) (ce_cron_expr e) now = Inl er"
    "\<forall>k. leaves row ok (ce_id e) (fi_others (io k))"
  shows "ok s' \<and> row s' (ce_id e) = Some e \<and> dispatches (ce_id e) outs = (if e \<in> set es then 1 else 0)"
  using assms
proof (induction es arbitrary: k s outs)
  case Nil
  then show ?case by simp
next
  case (Cons x es)
  from Cons.prems(1) obtain out s1 outs1 where fire: "fire_entry c ops now (io k) x s = (out, s1)"
    and rest: "fire_all c ops now io (Suc k) es s1 = (outs1, s')" and outs: "outs = out # outs1"
    by (auto simp: Let_def split: prod.splits)
  have lv: "ok (fi_others (io k) s)" "row (fi_others (io k) s) (ce_id e) = Some e"
    using Cons.prems(3,4,8) by (simp_all add: leaves_def)
  have s1: "ok s1 \<and> row s1 (ce_id e) = Some e"
  proof (cases "ce_id x = ce_id e")
    case True
    then have "x = e" using Cons.prems(6) by simp
    then have "s1 = fi_others (io k) s" using fire Cons.prems(5,7) by (simp add: fire_entry_def advance_entry_def)
    with lv show ?thesis by simp
  qed (use fire_other [OF fire _ lv(1)] lv(2) in auto)
  have id: "fired_id out = ce_id x" using fire by (rule fire_entry_id)
  have "ok s' \<and> row s' (ce_id e) = Some e \<and> dispatches (ce_id e) outs1 = (if e \<in> set es then 1 else 0)"
    using Cons.IH [OF rest _ _ _ Cons.prems(5) _ Cons.prems(7,8)] s1 Cons.prems(2,6) by auto
  moreover have "ce_id x = ce_id e \<longleftrightarrow> x = e" using Cons.prems(6) by auto
  moreover have "e \<in> set es \<Longrightarrow> x \<noteq> e" using Cons.prems(2) by auto
  ultimately show ?case using id outs by auto
qed

lemma run_stuck:
  assumes "run_cron c ops ts s = (outs, s')" "ok s" "row s (ce_id e) = Some e" "ce_recurring e" "\<forall>t \<in> set ts. stuck_tick c row ok up e t"
  shows "ok s' \<and> row s' (ce_id e) = Some e \<and> dispatches (ce_id e) outs = length ts"
  using assms
proof (induction ts arbitrary: s outs)
  case Nil
  then show ?case by simp
next
  case (Cons t ts)
  let ?c = "c\<lparr>rn_jitter := tk_jitter t\<rparr>"
  from Cons.prems(1) obtain outs1 s1 rest
    where t: "cron_tick_once ?c ops (tk_now t) (tk_db t) (tk_io t) (tk_others t s) = (outs1, s1)"
      and r: "run_cron c ops ts s1 = (rest, s')" and outs: "outs = outs1 @ rest"
    by (auto simp: Let_def split: prod.splits)
  have st: "stuck_tick c row ok up e t" using Cons.prems(5) by simp
  then obtain er where er: "next_fire_after (rn_lib ?c) (ce_cron_expr e) (tk_now t) = Inl er"
    by (auto simp: stuck_tick_def split: sum.splits)
  have lv: "ok (tk_others t s)" "row (tk_others t s) (ce_id e) = Some e"
    using st Cons.prems(2,3) by (auto simp: stuck_tick_def leaves_def)
  obtain due where due: "co_due_at (ops (tk_db t)) (tk_now t) (tk_others t s) = Inr due"
    using due_up [of "tk_db t"] st unfolding stuck_tick_def by blast
  have all: "fire_all ?c ops (tk_now t) (tk_io t) 0 due (tk_others t s) = (outs1, s1)"
    using t due st by (simp add: cron_tick_once_def stuck_tick_def)
  have "cron_due (tk_now t) e" using st unfolding stuck_tick_def by blast
  then have "e \<in> set due" using due_set [OF lv(1) due, of e] lv(2) by simp
  have only: "\<forall>x \<in> set due. ce_id x = ce_id e \<longrightarrow> x = e"
  proof (intro ballI impI)
    fix x assume "x \<in> set due" "ce_id x = ce_id e"
    then show "x = e" using due_set [OF lv(1) due, of x] lv(2) by simp
  qed
  note \<open>e \<in> set due\<close>
  moreover have "\<forall>k. leaves row ok (ce_id e) (fi_others (tk_io t k))" using st by (simp add: stuck_tick_def)
  ultimately have "ok s1 \<and> row s1 (ce_id e) = Some e \<and> dispatches (ce_id e) outs1 = 1"
    using fire_all_stuck [OF all due_distinct [OF lv(1) due] lv Cons.prems(4) only er] by simp
  with Cons.IH [OF r _ _ Cons.prems(4)] Cons.prems(5) outs show ?case by simp
qed

end

text \<open>A recurring entry whose next fire cannot be computed stays where it is and is dispatched again at every tick.\<close>

theorem uncomputable_entry_fires_at_every_tick:
  assumes "run_cron c sqlite_cron_ops ts s = (outs, s')" "cron_rows_ok s" "stored_entry s (ce_id e) = Some e" "ce_recurring e"
    "\<forall>t \<in> set ts. stuck_tick c stored_entry cron_rows_ok (\<lambda>db. \<forall>st. db st) e t"
  shows "stored_entry s' (ce_id e) = Some e \<and> dispatches (ce_id e) outs = length ts"
  using sqlite_cron.run_stuck [OF assms] by simp

text \<open>An entry made a quarter of a minute past nine for nine o'clock and half a minute past it is accepted, and from then on fires every five
  seconds until the next day.\<close>

definition nine_entry :: cron_entry where
  "nine_entry = (sample_cron_entry ''0,30 0 9 * * *'' True)\<lparr>ce_created_at := 32415, ce_next_fire_at := 32430\<rparr>"

lemma nine_entry_accepted:
  "build_new_entry sample_lib (sqlite_cron_ops (\<lambda>_. True)) ''e'' 32415 ''telegram:bot'' ''0,30 0 9 * * *'' ''hello'' None True None None None None [] =
     Inr nine_entry"
  by (simp add: build_new_entry_def next_fire_after_def six_fields_def sample_lib_def Let_def MIN_CRON_INTERVAL_SECS_def sqlite_cron_ops_def
      sql_cron_count_def MAX_CRON_ENTRIES_PER_BINDING_def nine_entry_def sample_cron_entry_def)

theorem uncomputable_entry_fires_at_every_tick_witness:
  "dispatches ''e'' (fst (run_cron (sample_cron_runner sample_lib) sqlite_cron_ops (map (plain_tick None) [32432, 32437, 32442]) [cron_entry_to_row nine_entry])) = 3"
proof -
  let ?s = "[cron_entry_to_row nine_entry]"
  have e: "ce_id nine_entry = ''e''" "ce_recurring nine_entry" "ce_cron_expr nine_entry = ''0,30 0 9 * * *''" "ce_next_fire_at nine_entry = 32430"
    "\<not> ce_paused nine_entry"
    by (simp_all add: nine_entry_def sample_cron_entry_def)
  have s: "cron_rows_ok ?s" "stored_entry ?s (ce_id nine_entry) = Some nine_entry"
    by (simp_all add: cron_rows_ok_def stored_entry_def) (simp add: cron_entry_to_row_def)
  obtain outs s' where run: "run_cron (sample_cron_runner sample_lib) sqlite_cron_ops (map (plain_tick None) [32432, 32437, 32442]) ?s = (outs, s')"
    by fastforce
  have "\<forall>t \<in> set (map (plain_tick None) [32432, 32437, 32442]).
      stuck_tick (sample_cron_runner sample_lib) stored_entry cron_rows_ok (\<lambda>db. \<forall>st. db st) nine_entry t"
    using e by (simp add: stuck_tick_def plain_tick_def default_jitter_def cron_due_def sample_cron_runner_def next_fire_after_def
        six_fields_def sample_lib_def Let_def MIN_CRON_INTERVAL_SECS_def leaves_def plain_io_def)
  from uncomputable_entry_fires_at_every_tick [OF run s e(2) this] e(1) run show ?thesis by simp
qed

subsection \<open>The cap, the sweep and the namespaces\<close>

definition binding_size :: "string \<Rightarrow> cron_row list \<Rightarrow> nat" where
  "binding_size b s = length (filter (\<lambda>r. ce_binding_id r = b) s)"

text \<open>A creation counts the binding's entries before it inserts: it exceeds the cap by as many entries as were added in between, and not at all
  when it runs alone.\<close>

theorem cron_cap_overshoot:
  assumes "cron_create_tool lib (sqlite_cron_ops db) uuid now c args s0 s = (Inr reply, s')" "binding_size (binding_id_from_ctx c) s \<le> binding_size (binding_id_from_ctx c) s0 + d"
  shows "binding_size (binding_id_from_ctx c) s' \<le> MAX_CRON_ENTRIES_PER_BINDING + d \<and>
    binding_size (binding_id_from_ctx c) s' = binding_size (binding_id_from_ctx c) s + 1"
proof -
  from assms(1) obtain expr prompt e where build: "build_new_entry lib (sqlite_cron_ops db) uuid now (binding_id_from_ctx c) expr prompt
        (json_str (json_get ''channel'' args)) (case json_get ''recurring'' args of Some (JBool b) \<Rightarrow> b | _ \<Rightarrow> True)
        (json_str (json_get ''recipient'' args)) (non_empty (trim (cc_provider c))) (non_empty (trim (cc_model c))) (cc_tenant_id c) s0 = Inr e"
      and ins: "sql_cron_insert db e s = (Inr (), s')"
    unfolding cron_create_tool_def sqlite_cron_ops_def by (auto split: sum.splits prod.splits)
  from build have "binding_size (binding_id_from_ctx c) s0 < MAX_CRON_ENTRIES_PER_BINDING" "ce_binding_id e = binding_id_from_ctx c"
    by (auto simp: build_new_entry_def and_then_Inr_iff sqlite_cron_ops_def sql_cron_count_def binding_size_def split: if_splits)
  moreover have "s' = s @ [cron_entry_to_row e]" using ins by (auto simp: sql_cron_insert_def split: if_splits)
  ultimately show ?thesis using assms(2) by (simp add: binding_size_def)
qed


definition sample_cron_ctx :: cron_ctx where
  "sample_cron_ctx =
     \<lparr>cc_origin = Some (''telegram'', ''bot''), cc_agent_id = ''ana'', cc_provider = ''minimax'', cc_model = '''', cc_tenant_id = None\<rparr>"

definition sample_cron_args :: json where
  "sample_cron_args = JObject [(''cron'', JString ''0,30 0 9 * * *''), (''prompt'', JString ''hello'')]"

theorem cron_cap_overshoot_witness:
  "\<exists>reply s'. cron_create_tool sample_lib (sqlite_cron_ops (\<lambda>_. True)) ''e'' 32415 sample_cron_ctx sample_cron_args [] [] = (Inr reply, s') \<and>
     binding_size ''telegram:bot'' s' = 1"
proof -
  have b: "binding_id_from_ctx sample_cron_ctx = ''telegram:bot''" by (simp add: binding_id_from_ctx_def sample_cron_ctx_def)
  obtain reply s' where r: "cron_create_tool sample_lib (sqlite_cron_ops (\<lambda>_. True)) ''e'' 32415 sample_cron_ctx sample_cron_args [] [] = (Inr reply, s')"
    by (simp add: cron_create_tool_def need_str_def sample_cron_args_def json_str_def trim_def build_new_entry_def next_fire_after_def six_fields_def
        sample_lib_def Let_def MIN_CRON_INTERVAL_SECS_def sqlite_cron_ops_def sql_cron_count_def sql_cron_insert_def MAX_CRON_ENTRIES_PER_BINDING_def)
  from cron_cap_overshoot [OF r, of 0] r b show ?thesis by (auto simp: binding_size_def)
qed

text \<open>An entry that the sweep of missed fires put aside does not come back by a pause and a resume: it is never due again.\<close>

lemma swept_entry_is_never_due:
  assumes "cron_rows_ok s" "r \<in> set s" "missed_entry (sat_i64 (t - skew sdiv 1000)) r" "0 < skew" "now < max_i64"
    "snd (sql_cron_sweep_missed (\<lambda>_. True) t skew s) = s1" "snd (sql_cron_set_paused db (ce_id r) p s1) = s2"
  shows "\<exists>e. stored_entry s2 (ce_id r) = Some e \<and> \<not> cron_due now e"
proof -
  let ?f = "\<lambda>r. if missed_entry (sat_i64 (t - skew sdiv 1000)) r then r\<lparr>ce_next_fire_at := max_i64\<rparr> else r"
  have s1: "s1 = map ?f s" using assms(4,6) by (simp add: sql_cron_sweep_missed_def Let_def not_le)
  have "find (\<lambda>x. ce_id x = ce_id r) s = Some r" using assms(1,2) by (simp add: cron_rows_ok_def find_distinct)
  moreover have "find (\<lambda>x. ce_id x = k) (map ?f s) = map_option ?f (find (\<lambda>x. ce_id x = k) s)" for k by (rule find_map_same_key) simp
  ultimately have f1: "find (\<lambda>x. ce_id x = ce_id r) s1 = Some (r\<lparr>ce_next_fire_at := max_i64\<rparr>)" using assms(3) s1 by simp
  have "s2 = s1 \<or> s2 = map (\<lambda>x. if ce_id x = ce_id r then x\<lparr>ce_paused := p\<rparr> else x) s1"
    using assms(7) by (auto simp: sql_cron_set_paused_def update_cron_row_def split: if_splits)
  then have "\<exists>x. find (\<lambda>x. ce_id x = ce_id r) s2 = Some x \<and> ce_next_fire_at x = max_i64"
    using f1 by (auto simp: find_map_if [of "\<lambda>x. x\<lparr>ce_paused := p\<rparr>"])
  then show ?thesis using assms(5) by (auto simp: stored_entry_def cron_due_def)
qed

text \<open>An entry of one binding is deleted by whoever knows its id.\<close>

lemma cron_delete_ignores_the_binding:
  "r \<in> set s \<Longrightarrow> cron_delete_tool (sqlite_cron_ops (\<lambda>_. True)) (JObject [(''id'', JString (ce_id r))]) s =
     (Inr (JObject [(''ok'', JBool True), (''id'', JString (ce_id r))]), filter (\<lambda>x. ce_id x \<noteq> ce_id r) s)"
  by (simp add: cron_delete_tool_def need_str_def json_str_def sqlite_cron_ops_def sql_cron_delete_def)

text \<open>The wait before a retry lies between nothing at all and the longest back-off: the lead may use it up.\<close>

lemma retry_at_bounds:
  assumes "\<And>n w. 0 \<le> w \<Longrightarrow> 0 \<le> fl_scale (rn_floats c) n w" "op_max_backoff (rn_one_shot c) \<le> 2 ^ 62" "- (2 ^ 62) \<le> now" "now \<le> 2 ^ 61"
  shows "now \<le> retry_at c now e" "retry_at c now e \<le> now + int (unat (max (op_max_backoff (rn_one_shot c)) 1))"
proof -
  let ?m = "max (op_max_backoff (rn_one_shot c)) 1"
  define d where "d = retry_delay_secs (rn_one_shot c) (if ce_failure_count e = - 1 then - 1 else ce_failure_count e + 1)"
  have m: "?m \<le> 2 ^ 62" using assms(2) by (simp add: max_def)
  have "d \<le> ?m" by (simp add: d_def retry_delay_secs_def Let_def)
  then have "uint d \<le> uint ?m" by (simp add: word_le_def)
  moreover have "uint ?m \<le> 2 ^ 62" using m by (simp add: word_le_def)
  ultimately have u: "uint d \<le> 2 ^ 62" "0 \<le> uint d" by (rule order_trans) simp
  from u have "- (2 ^ 63) \<le> uint d" by (simp add: order_trans [of _ 0])
  with u have "signed_take_bit 63 (uint d) = uint d" by (intro signed_take_bit_int_eq_self) simp_all
  then have s: "sint d = uint d" by (simp add: sint_uint)
  have "(2 :: int) ^ 63 = 2 * 2 ^ 62" "(2 :: int) ^ 62 = 2 * 2 ^ 61" "(1 :: int) \<le> 2 ^ 61" by simp_all
  with u assms(3,4) have "- (2 ^ 63) \<le> now + uint d" "now + uint d \<le> 2 ^ 63 - 1" by linarith+
  then have t: "sat_i64 (now + sint d) = now + uint d" "0 \<le> uint d" using u(2) s by (simp_all add: sat_i64_def max_i64_def)
  define lead where "lead = max (fl_scale (rn_floats c) (jitter_frac_from_entry_id (ce_id e)) (jc_one_shot_max_ms (rn_jitter c))) (jc_one_shot_floor_ms (rn_jitter c))"
  have lead: "0 \<le> lead sdiv 1000" if "0 < jc_one_shot_max_ms (rn_jitter c)"
    using assms(1) [of "jc_one_shot_max_ms (rn_jitter c)"] that by (simp add: lead_def sdiv_nonneg pos_imp_zdiv_nonneg_iff max.coboundedI1)
  have "now \<le> retry_at c now e \<and> retry_at c now e \<le> now + uint d"
    unfolding retry_at_def Let_def apply_one_shot_lead_def d_def [symmetric] t(1) lead_def [symmetric] using t(2) lead by auto
  then show "now \<le> retry_at c now e" "retry_at c now e \<le> now + int (unat ?m)"
    using \<open>uint d \<le> uint ?m\<close> by (auto simp: uint_nat [symmetric])
qed

end
