(* ===== verification/Team_Store.thy ===== *)
theory Team_Store
  imports Json "HOL-Library.List_Lexorder" "HOL-Library.Product_Lexorder" "HOL-Library.Char_ord"
begin

section \<open>Teams of agents (\<open>crates/team-store\<close>)\<close>

text \<open>
  Names of teams and members, and the SQLite tables of teams, members and events.  \<open>db\<close> says which statements succeed.  SQLite checks the primary
  keys and, as \<open>sqlx\<close> opens it, that a member's team exists.
\<close>

definition TEAM_MAX_MEMBERS :: nat where "TEAM_MAX_MEMBERS = 8"
definition TEAM_NAME_MAX_LEN :: nat where "TEAM_NAME_MAX_LEN = 64"
definition MEMBER_NAME_MAX_LEN :: nat where "MEMBER_NAME_MAX_LEN = 32"
definition DM_BODY_MAX_BYTES :: nat where "DM_BODY_MAX_BYTES = 64 * 1024"
definition TEAM_LEAD_NAME :: string where "TEAM_LEAD_NAME = ''team-lead''"
definition BROADCAST_SENTINEL :: string where "BROADCAST_SENTINEL = ''broadcast''"
definition MAX_TAIL_EVENTS :: nat where "MAX_TAIL_EVENTS = 200"

datatype team_error =
    TeamSqlx string
  | TeamNameTaken string
  | TeamNotFound string
  | MemberNotFound string string
  | MemberNameTaken string string
  | TeamFull string nat nat
  | ConcurrentCapExceeded string nat nat
  | InvalidTeamName string
  | InvalidMemberName string
  | BodyTooLarge nat nat

subsection \<open>Names\<close>

text \<open>One character of a name: the first byte stands for a character outside ASCII.\<close>

definition name_char :: "char \<Rightarrow> char" where
  "name_char c =
     (if 97 \<le> byte c \<and> byte c \<le> 122 \<or> 48 \<le> byte c \<and> byte c \<le> 57 then c
      else if 65 \<le> byte c \<and> byte c \<le> 90 then char_of (byte c + 32)
      else CHR ''-'')"

definition sanitize_name :: "string \<Rightarrow> string" where
  "sanitize_name s = map name_char (filter (\<lambda>c. \<not> continuation c) s)"

definition sane_name :: "nat \<Rightarrow> string \<Rightarrow> string option" where
  "sane_name limit s =
     (let t = trim s; n = sanitize_name t
      in if t = [] then None
         else if n = [] \<or> limit < length n \<or> (\<forall>c \<in> set n. c = CHR ''-'') then None
         else Some n)"

definition validate_team_name :: "string \<Rightarrow> team_error + string" where
  "validate_team_name s = (case sane_name TEAM_NAME_MAX_LEN s of None \<Rightarrow> Inl (InvalidTeamName s) | Some n \<Rightarrow> Inr n)"

definition validate_member_name :: "string \<Rightarrow> team_error + string" where
  "validate_member_name s =
     (case sane_name MEMBER_NAME_MAX_LEN s of
        None \<Rightarrow> Inl (InvalidMemberName s)
      | Some n \<Rightarrow> if n = BROADCAST_SENTINEL then Inl (InvalidMemberName s) else Inr n)"

text \<open>The variant for the lead's row has the same body.\<close>

definition validate_member_name_for_lead :: "string \<Rightarrow> team_error + string" where
  "validate_member_name_for_lead s =
     (case sane_name MEMBER_NAME_MAX_LEN s of
        None \<Rightarrow> Inl (InvalidMemberName s)
      | Some n \<Rightarrow> if n = BROADCAST_SENTINEL then Inl (InvalidMemberName s) else Inr n)"

subsection \<open>Rows\<close>

record team_row =
  tr_team_id :: string
  tr_display_name :: string
  tr_description :: "string option"
  tr_lead_agent_id :: string
  tr_lead_goal_id :: string
  tr_flow_id :: string
  tr_worktree :: bool
  tr_created_at :: int
  tr_deleted_at :: "int option"
  tr_last_active_at :: int

record team_member =
  mr_team_id :: string
  mr_name :: string
  mr_agent_id :: string
  mr_agent_type :: "string option"
  mr_model :: "string option"
  mr_goal_id :: string
  mr_worktree_path :: "string option"
  mr_joined_at :: int
  mr_is_active :: bool
  mr_last_active_at :: int

record team_event =
  ter_event_id :: string
  ter_team_id :: string
  ter_kind :: string
  ter_actor :: "string option"
  ter_payload :: string
  ter_created_at :: int

record team_db =
  td_teams :: "team_row list"
  td_members :: "team_member list"
  td_events :: "team_event list"

datatype team_stmt =
    TsCreate | TsDelete | TsGet | TsListTeams | TsCountActive | TsTouch | TsCountMembers | TsAdd | TsListMembers | TsSetActive | TsRemove
  | TsRecord | TsTail

definition team_db_down :: team_error where "team_db_down = TeamSqlx ''database''"

subsection \<open>Statements\<close>

definition team_of :: "string \<Rightarrow> team_db \<Rightarrow> team_row option" where
  "team_of t s = find (\<lambda>r. tr_team_id r = t) (td_teams s)"

definition members_of :: "string \<Rightarrow> team_db \<Rightarrow> team_member list" where
  "members_of t s = filter (\<lambda>m. mr_team_id m = t) (td_members s)"

definition create_team :: "(team_stmt \<Rightarrow> bool) \<Rightarrow> team_row \<Rightarrow> team_db \<Rightarrow> (team_error + unit) \<times> team_db" where
  "create_team db r s =
     (if \<not> db TsCreate then (Inl team_db_down, s)
      else if team_of (tr_team_id r) s \<noteq> None then (Inl (TeamNameTaken (tr_team_id r)), s)
      else (Inr (), s\<lparr>td_teams := td_teams s @ [r]\<rparr>))"

definition get_team :: "(team_stmt \<Rightarrow> bool) \<Rightarrow> string \<Rightarrow> team_db \<Rightarrow> team_error + team_row option" where
  "get_team db t s = (if \<not> db TsGet then Inl team_db_down else Inr (team_of t s))"

definition deletable :: "string \<Rightarrow> team_row \<Rightarrow> bool" where
  "deletable t r \<longleftrightarrow> tr_team_id r = t \<and> tr_deleted_at r = None"

definition soft_delete_team :: "(team_stmt \<Rightarrow> bool) \<Rightarrow> string \<Rightarrow> int \<Rightarrow> team_db \<Rightarrow> (team_error + unit) \<times> team_db" where
  "soft_delete_team db t now s =
     (if \<not> db TsDelete then (Inl team_db_down, s)
      else if \<exists>r \<in> set (td_teams s). deletable t r
           then (Inr (), s\<lparr>td_teams := map (\<lambda>r. if deletable t r then r\<lparr>tr_deleted_at := Some now\<rparr> else r) (td_teams s)\<rparr>)
      else case get_team db t s of
             Inl e \<Rightarrow> (Inl e, s)
           | Inr None \<Rightarrow> (Inl (TeamNotFound t), s)
           | Inr (Some _) \<Rightarrow> (Inr (), s))"

definition list_teams :: "(team_stmt \<Rightarrow> bool) \<Rightarrow> string option \<Rightarrow> bool \<Rightarrow> team_db \<Rightarrow> team_error + team_row list" where
  "list_teams db owner active_only s =
     (if \<not> db TsListTeams then Inl team_db_down
      else Inr (sort_key (\<lambda>r. (- tr_created_at r, tr_team_id r))
        (filter (\<lambda>r. (case owner of Some a \<Rightarrow> tr_lead_agent_id r = a | None \<Rightarrow> True) \<and> (active_only \<longrightarrow> tr_deleted_at r = None)) (td_teams s))))"

definition active_teams :: "string \<Rightarrow> team_db \<Rightarrow> team_row list" where
  "active_teams a s = filter (\<lambda>r. tr_lead_agent_id r = a \<and> tr_deleted_at r = None) (td_teams s)"

definition count_active_for_agent :: "(team_stmt \<Rightarrow> bool) \<Rightarrow> string \<Rightarrow> team_db \<Rightarrow> team_error + nat" where
  "count_active_for_agent db a s = (if \<not> db TsCountActive then Inl team_db_down else Inr (length (active_teams a s)))"

definition touch_team :: "(team_stmt \<Rightarrow> bool) \<Rightarrow> string \<Rightarrow> int \<Rightarrow> team_db \<Rightarrow> (team_error + unit) \<times> team_db" where
  "touch_team db t now s =
     (if \<not> db TsTouch then (Inl team_db_down, s)
      else (Inr (), s\<lparr>td_teams := map (\<lambda>r. if tr_team_id r = t then r\<lparr>tr_last_active_at := now\<rparr> else r) (td_teams s)\<rparr>))"

text \<open>The members are counted in \<open>s0\<close> and the row is inserted in \<open>s\<close>; other tasks may act in between.\<close>

definition add_member :: "(team_stmt \<Rightarrow> bool) \<Rightarrow> team_member \<Rightarrow> team_db \<Rightarrow> team_db \<Rightarrow> (team_error + unit) \<times> team_db" where
  "add_member db m s0 s =
     (if \<not> db TsCountMembers then (Inl team_db_down, s)
      else let count = length (members_of (mr_team_id m) s0)
           in if TEAM_MAX_MEMBERS \<le> count then (Inl (TeamFull (mr_team_id m) count TEAM_MAX_MEMBERS), s)
              else if \<not> db TsAdd then (Inl team_db_down, s)
              else if \<exists>x \<in> set (td_members s). mr_team_id x = mr_team_id m \<and> mr_name x = mr_name m
                   then (Inl (MemberNameTaken (mr_team_id m) (mr_name m)), s)
              else if team_of (mr_team_id m) s = None then (Inl (TeamSqlx ''FOREIGN KEY constraint failed''), s)
              else (Inr (), s\<lparr>td_members := td_members s @ [m]\<rparr>))"

definition list_members :: "(team_stmt \<Rightarrow> bool) \<Rightarrow> string \<Rightarrow> team_db \<Rightarrow> team_error + team_member list" where
  "list_members db t s =
     (if \<not> db TsListMembers then Inl team_db_down else Inr (sort_key (\<lambda>m. (mr_joined_at m, mr_name m)) (members_of t s)))"

definition is_member :: "string \<Rightarrow> string \<Rightarrow> team_member \<Rightarrow> bool" where
  "is_member t n m \<longleftrightarrow> mr_team_id m = t \<and> mr_name m = n"

definition set_member_active :: "(team_stmt \<Rightarrow> bool) \<Rightarrow> string \<Rightarrow> string \<Rightarrow> bool \<Rightarrow> int \<Rightarrow> team_db \<Rightarrow> (team_error + unit) \<times> team_db" where
  "set_member_active db t n active now s =
     (if \<not> db TsSetActive then (Inl team_db_down, s)
      else if \<not> (\<exists>m \<in> set (td_members s). is_member t n m) then (Inl (MemberNotFound t n), s)
      else (Inr (), s\<lparr>td_members :=
             map (\<lambda>m. if is_member t n m then m\<lparr>mr_is_active := active, mr_last_active_at := now\<rparr> else m) (td_members s)\<rparr>))"

definition remove_member :: "(team_stmt \<Rightarrow> bool) \<Rightarrow> string \<Rightarrow> string \<Rightarrow> team_db \<Rightarrow> (team_error + unit) \<times> team_db" where
  "remove_member db t n s =
     (if \<not> db TsRemove then (Inl team_db_down, s)
      else if \<not> (\<exists>m \<in> set (td_members s). is_member t n m) then (Inl (MemberNotFound t n), s)
      else (Inr (), s\<lparr>td_members := filter (\<lambda>m. \<not> is_member t n m) (td_members s)\<rparr>))"

definition record_team_event :: "(team_stmt \<Rightarrow> bool) \<Rightarrow> team_event \<Rightarrow> team_db \<Rightarrow> (team_error + unit) \<times> team_db" where
  "record_team_event db e s =
     (if \<not> db TsRecord then (Inl team_db_down, s)
      else if \<exists>x \<in> set (td_events s). ter_event_id x = ter_event_id e then (Inr (), s)
      else (Inr (), s\<lparr>td_events := td_events s @ [e]\<rparr>))"

text \<open>The newest first; of the same second, the one inserted last.\<close>

definition tail_events :: "(team_stmt \<Rightarrow> bool) \<Rightarrow> string option \<Rightarrow> nat \<Rightarrow> team_db \<Rightarrow> team_error + team_event list" where
  "tail_events db t n s =
     (if \<not> db TsTail then Inl team_db_down
      else Inr (take (max 1 (min n MAX_TAIL_EVENTS))
        (sort_key (\<lambda>e. - ter_created_at e) (rev (filter (\<lambda>e. case t of Some x \<Rightarrow> ter_team_id e = x | None \<Rightarrow> True) (td_events s))))))"

end
