(* ===== verification/Team_Tools.thy ===== *)
theory Team_Tools
  imports Team_Store Topics
begin

section \<open>Team tools and the message router (\<open>core/agent/team_tools.rs\<close>, \<open>core/team_message_router.rs\<close>)\<close>

text \<open>
  The five tools a model calls, over the team store, and the router that puts messages on the broker and hands arriving ones to the teams'
  channels.  Other tasks may act on the database wherever a tool waits for a statement: \<open>acts i\<close> is what they do before its \<open>i\<close>-th statement.
  What \<open>serde_json\<close> prints (\<open>txt\<close>, and \<open>ser_len\<close>, its length) is an argument, and so is the broker's answer to a publish.
\<close>

subsection \<open>Policy\<close>

definition TEAM_MAX_CONCURRENT_DEFAULT :: nat where "TEAM_MAX_CONCURRENT_DEFAULT = 4"
definition TEAM_IDLE_TIMEOUT_DEFAULT :: nat where "TEAM_IDLE_TIMEOUT_DEFAULT = 3600"

record team_policy =
  tp_enabled :: bool
  tp_max_members :: u32
  tp_max_concurrent :: u32
  tp_idle_timeout_secs :: "64 word"
  tp_worktree_per_member :: bool

definition default_team_policy :: team_policy where
  "default_team_policy =
     \<lparr>tp_enabled = False, tp_max_members = of_nat TEAM_MAX_MEMBERS, tp_max_concurrent = of_nat TEAM_MAX_CONCURRENT_DEFAULT,
      tp_idle_timeout_secs = of_nat TEAM_IDLE_TIMEOUT_DEFAULT, tp_worktree_per_member = False\<rparr>"

definition effective_max_members :: "team_policy \<Rightarrow> nat" where
  "effective_max_members p = max 1 (min (unat (tp_max_members p)) TEAM_MAX_MEMBERS)"

definition effective_max_concurrent :: "team_policy \<Rightarrow> nat" where
  "effective_max_concurrent p = max 1 (min (unat (tp_max_concurrent p)) TEAM_MAX_CONCURRENT_DEFAULT)"

subsection \<open>Router\<close>

definition PER_TEAM_BUFFER :: nat where "PER_TEAM_BUFFER = 64"

record dm_frame =
  df_team_id :: string
  df_to :: string
  df_from :: string
  df_body :: json
  df_correlation_id :: "string option"

definition opt_str_json :: "string option \<Rightarrow> json" where
  "opt_str_json v = (case v of None \<Rightarrow> JNull | Some s \<Rightarrow> JString s)"

definition frame_json :: "dm_frame \<Rightarrow> json" where
  "frame_json f = JObject
     [(''team_id'', JString (df_team_id f)), (''to'', JString (df_to f)), (''from'', JString (df_from f)), (''body'', df_body f),
      (''correlation_id'', opt_str_json (df_correlation_id f))]"

text \<open>The derived reader: an object with the four required members, or an array of all five.\<close>

definition frame_fields :: "json option \<Rightarrow> json option \<Rightarrow> json option \<Rightarrow> json option \<Rightarrow> json \<Rightarrow> dm_frame option" where
  "frame_fields t to f b c =
     (case (json_str t, json_str to, json_str f, b, c) of
        (Some t', Some to', Some f', Some b', JNull) \<Rightarrow>
          Some \<lparr>df_team_id = t', df_to = to', df_from = f', df_body = b', df_correlation_id = None\<rparr>
      | (Some t', Some to', Some f', Some b', JString x) \<Rightarrow>
          Some \<lparr>df_team_id = t', df_to = to', df_from = f', df_body = b', df_correlation_id = Some x\<rparr>
      | _ \<Rightarrow> None)"

fun parse_frame :: "json \<Rightarrow> dm_frame option" where
  "parse_frame (JObject m) =
     frame_fields (map_of m ''team_id'') (map_of m ''to'') (map_of m ''from'') (map_of m ''body'')
       (case map_of m ''correlation_id'' of None \<Rightarrow> JNull | Some v \<Rightarrow> v)"
| "parse_frame (JArray [t, to, f, b, c]) = frame_fields (Some t) (Some to) (Some f) (Some b) c"
| "parse_frame _ = None"

text \<open>A team's channel: what each of its receivers has not read yet, the last 64 frames at most.\<close>

type_synonym team_channel = "dm_frame list list"

definition channel_send :: "dm_frame \<Rightarrow> team_channel \<Rightarrow> team_channel" where
  "channel_send f c = map (\<lambda>q. drop (Suc (length q) - PER_TEAM_BUFFER) (q @ [f])) c"

text \<open>\<open>splitn(4, '.')\<close> leaves the rest of the topic in its fourth part; only the number of parts and the first two are read.\<close>

definition dispatch_inbound :: "string \<Rightarrow> json \<Rightarrow> (string, team_channel) table \<Rightarrow> (string, team_channel) table" where
  "dispatch_inbound topic payload per_team =
     (let parts = split_on (CHR ''.'') topic
      in if length parts < 3 \<or> parts ! 0 \<noteq> ''team'' then per_team
         else case parse_frame payload of
                None \<Rightarrow> per_team
              | Some f \<Rightarrow> (case map_of per_team (parts ! 1) of
                             None \<Rightarrow> per_team
                           | Some c \<Rightarrow> AList.update (parts ! 1) (channel_send f c) per_team))"

definition subscribe_member :: "string \<Rightarrow> (string, team_channel) table \<Rightarrow> (string, team_channel) table" where
  "subscribe_member t per_team =
     AList.update t ((case map_of per_team t of None \<Rightarrow> [] | Some c \<Rightarrow> c) @ [[]]) per_team"

definition drop_team :: "string \<Rightarrow> (string, team_channel) table \<Rightarrow> (string, team_channel) table" where
  "drop_team t per_team = AList.delete t per_team"

text \<open>A publish hands \<open>(topic, payload)\<close> to the broker and returns its answer.\<close>

definition dm_event :: "string \<Rightarrow> string \<Rightarrow> string \<Rightarrow> json \<Rightarrow> string option \<Rightarrow> string \<times> json" where
  "dm_event t from_name to body corr =
     (''team.'' @ t @ ''.dm.'' @ to,
      frame_json \<lparr>df_team_id = t, df_to = to, df_from = from_name, df_body = body, df_correlation_id = corr\<rparr>)"

definition broadcast_event :: "string \<Rightarrow> string \<Rightarrow> json \<Rightarrow> string \<times> json" where
  "broadcast_event t from_name body =
     (''team.'' @ t @ ''.broadcast'',
      frame_json \<lparr>df_team_id = t, df_to = ''broadcast'', df_from = from_name, df_body = body, df_correlation_id = None\<rparr>)"

subsection \<open>Callers, effects and answers\<close>

record tool_ctx =
  tc_team_id :: "string option"
  tc_member_name :: "string option"
  tc_team_policy :: team_policy

definition is_teammate :: "tool_ctx \<Rightarrow> bool" where
  "is_teammate c \<longleftrightarrow> tc_team_id c \<noteq> None \<and> tc_member_name c \<noteq> None"

record team_tools =
  tt_agent_id :: string
  tt_goal_id :: string

record team_world =
  tw_db :: team_db
  tw_channels :: "(string, team_channel) table"
  tw_published :: "(string \<times> json) list"

datatype tool_fault = StoreFault string team_error | PublishFault string

definition tool_err :: "string \<Rightarrow> string \<Rightarrow> json" where
  "tool_err kind msg = JObject [(''ok'', JBool False), (''kind'', JString kind), (''error'', JString msg)]"

definition num :: "nat \<Rightarrow> json" where "num n = JNumber (show_decimal n)"
definition inum :: "int \<Rightarrow> json" where "inum i = JNumber (show_signed i)"

text \<open>The audit row; a failed insert is logged only.\<close>

definition record_event ::
  "(json \<Rightarrow> string) \<Rightarrow> (team_stmt \<Rightarrow> bool) \<Rightarrow> string \<Rightarrow> int \<Rightarrow> string \<Rightarrow> string \<Rightarrow> string option \<Rightarrow> json \<Rightarrow> team_db \<Rightarrow> team_db" where
  "record_event txt db event_id now t kind actor payload s =
     snd (record_team_event db
       \<lparr>ter_event_id = event_id, ter_team_id = t, ter_kind = kind, ter_actor = actor, ter_payload = txt payload, ter_created_at = now\<rparr> s)"

subsection \<open>The tools\<close>

text \<open>
  What surrounds a call: what other tasks do to the database before the call's \<open>i\<close>-th statement, whether the statement works, what \<open>serde_json\<close>
  prints, the clock, the fresh identifiers, and the broker's answer to a publish, \<open>None\<close> when it takes the event.
\<close>

record call_env =
  ce_acts :: "nat \<Rightarrow> team_db \<Rightarrow> team_db"
  ce_db :: "nat \<Rightarrow> team_stmt \<Rightarrow> bool"
  ce_txt :: "json \<Rightarrow> string"
  ce_len :: "json \<Rightarrow> nat option"
  ce_now :: int
  ce_event_id :: string
  ce_corr :: string
  ce_publish :: "string \<times> json \<Rightarrow> string option"

definition team_create_text :: string where
  "team_create_text = ''Members are added by the operator (Phase 79.6.b CLI) or by the runtime when sub-goals spawn. From inside a turn, the model coordinates members via `TeamSendMessage` (DM or broadcast) + `TeamStatus`. Wind down via `TeamSendMessage { to: \"broadcast\", message: { type: \"shutdown_request\" } }` then `TeamDelete`.''"

text \<open>The statements of a creation after its guards: the team's row, the lead's row, and the audit event.\<close>

definition team_create_rows ::
  "call_env \<Rightarrow> team_tools \<Rightarrow> string \<Rightarrow> string \<Rightarrow> string option \<Rightarrow> string option \<Rightarrow> bool \<Rightarrow> team_world \<Rightarrow> (tool_fault + json) \<times> team_world" where
  "team_create_rows e tt team_id team_name description agent_type worktree w =
     (let now = ce_now e;
          row = \<lparr>tr_team_id = team_id, tr_display_name = team_name, tr_description = description, tr_lead_agent_id = tt_agent_id tt,
                 tr_lead_goal_id = tt_goal_id tt, tr_flow_id = team_id, tr_worktree = worktree, tr_created_at = now,
                 tr_deleted_at = None, tr_last_active_at = now\<rparr>
      in case create_team (ce_db e 1) row (ce_acts e 1 (tw_db w)) of
           (Inl (TeamNameTaken existing), s) \<Rightarrow>
             (Inr (JObject [(''ok'', JBool False), (''kind'', JString ''TeamNameTaken''), (''existing_team_id'', JString existing),
                (''error'', JString (''team `'' @ team_id @ ''` already exists''))]), w\<lparr>tw_db := s\<rparr>)
         | (Inl other, s) \<Rightarrow> (Inl (StoreFault ''create_team'' other), w\<lparr>tw_db := s\<rparr>)
         | (Inr _, s) \<Rightarrow>
             (let lead = \<lparr>mr_team_id = team_id, mr_name = TEAM_LEAD_NAME, mr_agent_id = tt_agent_id tt, mr_agent_type = agent_type,
                          mr_model = None, mr_goal_id = tt_goal_id tt, mr_worktree_path = None, mr_joined_at = now,
                          mr_is_active = True, mr_last_active_at = now\<rparr>;
                  s2 = ce_acts e 2 s
              in case add_member (ce_db e 2) lead s2 (ce_acts e 3 s2) of
                   (Inl x, s3) \<Rightarrow>
                     (Inl (StoreFault ''add_member(lead)'' x),
                      w\<lparr>tw_db := snd (soft_delete_team (ce_db e 4) team_id now (ce_acts e 4 s3))\<rparr>)
                 | (Inr _, s3) \<Rightarrow>
                     (Inr (JObject [(''ok'', JBool True), (''team_id'', JString team_id), (''lead_agent_id'', JString (tt_agent_id tt)),
                        (''lead_member_name'', JString TEAM_LEAD_NAME), (''flow_id'', JString (tr_flow_id row)), (''created_at'', inum now),
                        (''instructions'', JString team_create_text)]),
                      w\<lparr>tw_db := record_event (ce_txt e) (ce_db e 4) (ce_event_id e) now team_id ''team_created'' (Some TEAM_LEAD_NAME)
                           (JObject [(''display_name'', JString team_name), (''description'', opt_str_json description),
                              (''lead_agent_id'', JString (tt_agent_id tt)), (''agent_type'', opt_str_json agent_type),
                              (''worktree_per_member'', JBool worktree)]) (ce_acts e 4 s3)\<rparr>)))"

definition TeamCreate :: "call_env \<Rightarrow> team_tools \<Rightarrow> tool_ctx \<Rightarrow> json \<Rightarrow> team_world \<Rightarrow> (tool_fault + json) \<times> team_world" where
  "TeamCreate e tt c args w =
     (if is_teammate c then (Inr (tool_err ''TeammateCannotSpawnTeammate'' ''teammates cannot spawn other teams''), w)
      else if \<not> tp_enabled (tc_team_policy c) then (Inr (tool_err ''TeamingDisabled'' ''team feature not enabled for this agent''), w)
      else case json_str (json_get ''team_name'' args) of
             None \<Rightarrow> (Inr (tool_err ''Wire'' ''TeamCreate requires `team_name` (string)''), w)
           | Some team_name \<Rightarrow>
               (let description = json_str (json_get ''description'' args);
                    agent_type = json_str (json_get ''agent_type'' args);
                    worktree = (case json_get ''worktree_per_member'' args of
                                  Some (JBool b) \<Rightarrow> b | _ \<Rightarrow> tp_worktree_per_member (tc_team_policy c))
                in case validate_team_name team_name of
                     Inl _ \<Rightarrow> (Inr (tool_err ''InvalidName'' (''invalid team_name: `'' @ team_name @ ''`'')), w)
                   | Inr team_id \<Rightarrow>
                       (let s = ce_acts e 0 (tw_db w)
                        in case count_active_for_agent (ce_db e 0) (tt_agent_id tt) s of
                             Inl x \<Rightarrow> (Inl (StoreFault ''count_active_for_agent'' x), w\<lparr>tw_db := s\<rparr>)
                           | Inr count \<Rightarrow>
                               (let cap = effective_max_concurrent (tc_team_policy c)
                                in if cap \<le> count
                                   then (Inr (JObject [(''ok'', JBool False), (''kind'', JString ''ConcurrentCapExceeded''),
                                          (''count'', num count), (''cap'', num cap),
                                          (''error'', JString (''agent already leads '' @ show_decimal count @ '' active teams (cap '' @
                                             show_decimal cap @ '')''))]), w\<lparr>tw_db := s\<rparr>)
                                   else team_create_rows e tt team_id team_name description agent_type worktree (w\<lparr>tw_db := s\<rparr>)))))"

fun join_names :: "string list \<Rightarrow> string" where
  "join_names [] = ''''"
| "join_names [n] = n"
| "join_names (n # ns) = n @ '', '' @ join_names ns"

definition team_not_found :: "string \<Rightarrow> json" where
  "team_not_found t = tool_err ''TeamNotFound'' (''team `'' @ t @ ''` not found'')"

definition blocked_reply :: "string \<Rightarrow> string list \<Rightarrow> json" where
  "blocked_reply t names = JObject [(''ok'', JBool False), (''kind'', JString ''BlockedByActiveMembers''), (''names'', JArray (map JString names)),
     (''error'', JString (''team `'' @ t @ ''` has '' @ show_decimal (length names) @ '' active member(s): '' @ join_names names @
        ''. Send `TeamSendMessage { to: \"broadcast\", message: { type: \"shutdown_request\" } }` and wait for them to idle before deleting.''))]"

definition TeamDelete :: "call_env \<Rightarrow> team_tools \<Rightarrow> tool_ctx \<Rightarrow> json \<Rightarrow> team_world \<Rightarrow> (tool_fault + json) \<times> team_world" where
  "TeamDelete e tt c args w =
     (if is_teammate c
      then (Inr (tool_err ''TeammateCannotDeleteTeam'' ''only the team lead can delete the team (you are running as a teammate)''), w)
      else if \<not> tp_enabled (tc_team_policy c) then (Inr (tool_err ''TeamingDisabled'' ''team feature not enabled''), w)
      else case json_str (json_get ''team_id'' args) of
             None \<Rightarrow> (Inr (tool_err ''Wire'' ''TeamDelete requires `team_id`''), w)
           | Some raw \<Rightarrow>
               (let t = sanitize_name raw; s = ce_acts e 0 (tw_db w); w1 = w\<lparr>tw_db := s\<rparr>
                in case get_team (ce_db e 0) t s of
                     Inl x \<Rightarrow> (Inl (StoreFault ''get_team'' x), w1)
                   | Inr None \<Rightarrow> (Inr (team_not_found t), w1)
                   | Inr (Some team) \<Rightarrow>
                       (if tr_lead_agent_id team \<noteq> tt_agent_id tt
                        then (Inr (tool_err ''NotLeader'' (''agent `'' @ tt_agent_id tt @ ''` is not the lead of team `'' @ t @ ''`'')), w1)
                        else if tr_deleted_at team \<noteq> None
                        then (Inr (tool_err ''AlreadyDeleted'' (''team `'' @ t @ ''` was already soft-deleted'')), w1)
                        else (let s1 = ce_acts e 1 s; w2 = w\<lparr>tw_db := s1\<rparr>
                              in case list_members (ce_db e 1) t s1 of
                                   Inl x \<Rightarrow> (Inl (StoreFault ''list_members'' x), w2)
                                 | Inr members \<Rightarrow>
                                     (let active = filter (\<lambda>m. mr_is_active m \<and> mr_name m \<noteq> TEAM_LEAD_NAME) members
                                      in if active \<noteq> [] then (Inr (blocked_reply t (map mr_name active)), w2)
                                         else case soft_delete_team (ce_db e 2) t (ce_now e) (ce_acts e 2 s1) of
                                                (Inl x, s2) \<Rightarrow> (Inl (StoreFault ''soft_delete_team'' x), w\<lparr>tw_db := s2\<rparr>)
                                              | (Inr _, s2) \<Rightarrow>
                                                  (Inr (JObject [(''ok'', JBool True), (''team_id'', JString t),
                                                     (''members_cleaned'', num (length members)), (''force_killed'', num 0)]),
                                                   w\<lparr>tw_channels := drop_team t (tw_channels w),
                                                     tw_db := record_event (ce_txt e) (ce_db e 3) (ce_event_id e) (ce_now e) t ''team_deleted''
                                                       (Some TEAM_LEAD_NAME) (JObject [(''members_cleaned'', num (length members))])
                                                       (ce_acts e 3 s2)\<rparr>))))))"

definition max_usize :: nat where "max_usize = 2 ^ 64 - 1"

text \<open>\<open>to_vec(&body).map(len).unwrap_or(usize::MAX)\<close>\<close>

definition body_len :: "call_env \<Rightarrow> json \<Rightarrow> nat" where
  "body_len e body = (case ce_len e body of None \<Rightarrow> max_usize | Some n \<Rightarrow> n)"

definition leads :: "team_tools \<Rightarrow> tool_ctx \<Rightarrow> team_row \<Rightarrow> bool" where
  "leads tt c team \<longleftrightarrow> tr_lead_agent_id team = tt_agent_id tt \<and> (tc_member_name c = Some TEAM_LEAD_NAME \<or> \<not> is_teammate c)"

text \<open>What follows an accepted publish: the audit event, and \<open>touch_team\<close> with its result ignored.\<close>

definition after_publish :: "call_env \<Rightarrow> string \<Rightarrow> string \<Rightarrow> string \<Rightarrow> json \<Rightarrow> team_db \<Rightarrow> team_db" where
  "after_publish e t kind actor payload s =
     snd (touch_team (ce_db e 3) t (ce_now e)
       (ce_acts e 3 (record_event (ce_txt e) (ce_db e 2) (ce_event_id e) (ce_now e) t kind (Some actor) payload (ce_acts e 2 s))))"

text \<open>The message to everybody, or to one name.\<close>

definition send_as ::
  "call_env \<Rightarrow> string \<Rightarrow> string \<Rightarrow> bool \<Rightarrow> string \<Rightarrow> json \<Rightarrow> team_world \<Rightarrow> (tool_fault + json) \<times> team_world" where
  "send_as e t caller is_lead to body w =
     (if to = ''broadcast''
      then (if \<not> is_lead then (Inr (tool_err ''OnlyLeadCanBroadcast'' ''only the team lead can publish to `broadcast`''), w)
            else let ev = broadcast_event t caller body
                 in case ce_publish e ev of
                      Some x \<Rightarrow> (Inl (PublishFault x), w)
                    | None \<Rightarrow>
                        (Inr (JObject [(''ok'', JBool True), (''team_id'', JString t), (''to'', JString ''broadcast'')]),
                         w\<lparr>tw_published := tw_published w @ [ev],
                           tw_db := after_publish e t ''broadcast_sent'' caller (JObject [(''body_bytes'', num (body_len e body))]) (tw_db w)\<rparr>))
      else case validate_member_name_for_lead to of
             Inl _ \<Rightarrow> (Inr (tool_err ''InvalidMemberName'' (''invalid `to`: '' @ to)), w)
           | Inr n \<Rightarrow>
               (let ev = dm_event t caller n body (Some (ce_corr e))
                in case ce_publish e ev of
                     Some x \<Rightarrow> (Inl (PublishFault x), w)
                   | None \<Rightarrow>
                       (Inr (JObject [(''ok'', JBool True), (''team_id'', JString t), (''to'', JString n),
                          (''correlation_id'', JString (ce_corr e))]),
                        w\<lparr>tw_published := tw_published w @ [ev],
                          tw_db := after_publish e t ''dm_sent'' caller
                            (JObject [(''to'', JString n), (''body_bytes'', num (body_len e body)), (''correlation_id'', JString (ce_corr e))])
                            (tw_db w)\<rparr>)))"

definition TeamSendMessage :: "call_env \<Rightarrow> team_tools \<Rightarrow> tool_ctx \<Rightarrow> json \<Rightarrow> team_world \<Rightarrow> (tool_fault + json) \<times> team_world" where
  "TeamSendMessage e tt c args w =
     (if \<not> tp_enabled (tc_team_policy c) then (Inr (tool_err ''TeamingDisabled'' ''team feature not enabled''), w)
      else case json_str (json_get ''team_id'' args) of
             None \<Rightarrow> (Inr (tool_err ''Wire'' ''TeamSendMessage requires `team_id`''), w)
           | Some raw \<Rightarrow>
        (let t = sanitize_name raw
         in case json_str (json_get ''to'' args) of
              None \<Rightarrow> (Inr (tool_err ''Wire'' ''TeamSendMessage requires `to` (member name or \"broadcast\")''), w)
            | Some to \<Rightarrow>
         (let body = (case json_get ''message'' args of None \<Rightarrow> JNull | Some v \<Rightarrow> v)
          in if body = JNull then (Inr (tool_err ''Wire'' ''TeamSendMessage requires `message` (string or structured object)''), w)
             else if DM_BODY_MAX_BYTES < body_len e body
             then (Inr (JObject [(''ok'', JBool False), (''kind'', JString ''BodyTooLarge''), (''actual'', num (body_len e body)),
                     (''max'', num DM_BODY_MAX_BYTES),
                     (''error'', JString (''message body is '' @ show_decimal (body_len e body) @ '' bytes (max '' @
                        show_decimal DM_BODY_MAX_BYTES @ '')''))]), w)
             else let s = ce_acts e 0 (tw_db w); w1 = w\<lparr>tw_db := s\<rparr>
                  in case get_team (ce_db e 0) t s of
                       Inl x \<Rightarrow> (Inl (StoreFault ''get_team'' x), w1)
                     | Inr None \<Rightarrow> (Inr (team_not_found t), w1)
                     | Inr (Some team) \<Rightarrow>
                         (if tr_deleted_at team \<noteq> None
                          then (Inr (tool_err ''TeamDeleted'' (''team `'' @ t @ ''` is soft-deleted'')), w1)
                          else if leads tt c team then send_as e t TEAM_LEAD_NAME True to body w1
                          else let s1 = ce_acts e 1 s; w2 = w\<lparr>tw_db := s1\<rparr>
                               in case list_members (ce_db e 1) t s1 of
                                    Inl x \<Rightarrow> (Inl (StoreFault ''list_members'' x), w2)
                                  | Inr members \<Rightarrow>
                                      (case find (\<lambda>m. mr_agent_id m = tt_agent_id tt) members of
                                         None \<Rightarrow> (Inr (tool_err ''NotMember''
                                           (''agent `'' @ tt_agent_id tt @ ''` is not a member of team `'' @ t @ ''`'')), w2)
                                       | Some m \<Rightarrow> send_as e t (mr_name m) False to body w2)))))"

definition opt_inum :: "int option \<Rightarrow> json" where
  "opt_inum v = (case v of None \<Rightarrow> JNull | Some i \<Rightarrow> inum i)"

definition team_json :: "team_row \<Rightarrow> json" where
  "team_json r = JObject [(''team_id'', JString (tr_team_id r)), (''display_name'', JString (tr_display_name r)),
     (''description'', opt_str_json (tr_description r)), (''lead_agent_id'', JString (tr_lead_agent_id r)), (''created_at'', inum (tr_created_at r)),
     (''deleted_at'', opt_inum (tr_deleted_at r)), (''last_active_at'', inum (tr_last_active_at r))]"

definition TeamList :: "call_env \<Rightarrow> team_tools \<Rightarrow> tool_ctx \<Rightarrow> json \<Rightarrow> team_world \<Rightarrow> (tool_fault + json) \<times> team_world" where
  "TeamList e tt c args w =
     (if \<not> tp_enabled (tc_team_policy c) then (Inr (tool_err ''TeamingDisabled'' ''team feature not enabled''), w)
      else let active_only = (case json_get ''active_only'' args of Some (JBool b) \<Rightarrow> b | _ \<Rightarrow> True);
               s = ce_acts e 0 (tw_db w)
           in (case list_teams (ce_db e 0) (Some (tt_agent_id tt)) active_only s of
                 Inl x \<Rightarrow> Inl (StoreFault ''list_teams'' x)
               | Inr teams \<Rightarrow> Inr (JObject [(''ok'', JBool True), (''n'', num (length teams)), (''teams'', JArray (map team_json teams))]),
               w\<lparr>tw_db := s\<rparr>))"

definition member_json :: "team_member \<Rightarrow> json" where
  "member_json m = JObject [(''name'', JString (mr_name m)), (''agent_id'', JString (mr_agent_id m)), (''agent_type'', opt_str_json (mr_agent_type m)),
     (''model'', opt_str_json (mr_model m)), (''joined_at'', inum (mr_joined_at m)), (''is_active'', JBool (mr_is_active m)),
     (''last_active_at'', inum (mr_last_active_at m))]"

definition status_json :: "team_row \<Rightarrow> team_member list \<Rightarrow> json" where
  "status_json r members =
     (let running = length (filter mr_is_active members)
      in JObject [(''ok'', JBool True),
           (''team'', JObject [(''team_id'', JString (tr_team_id r)), (''display_name'', JString (tr_display_name r)),
              (''description'', opt_str_json (tr_description r)), (''lead_agent_id'', JString (tr_lead_agent_id r)),
              (''created_at'', inum (tr_created_at r)), (''deleted_at'', opt_inum (tr_deleted_at r)),
              (''last_active_at'', inum (tr_last_active_at r)), (''worktree_per_member'', JBool (tr_worktree r))]),
           (''members'', JArray (map member_json members)),
           (''task_summary'', JObject [(''pending'', num 0), (''running'', num running), (''done'', num (length members - running))])])"

definition TeamStatus :: "call_env \<Rightarrow> team_tools \<Rightarrow> tool_ctx \<Rightarrow> json \<Rightarrow> team_world \<Rightarrow> (tool_fault + json) \<times> team_world" where
  "TeamStatus e tt c args w =
     (if \<not> tp_enabled (tc_team_policy c) then (Inr (tool_err ''TeamingDisabled'' ''team feature not enabled''), w)
      else case json_str (json_get ''team_id'' args) of
             None \<Rightarrow> (Inr (tool_err ''Wire'' ''TeamStatus requires `team_id`''), w)
           | Some raw \<Rightarrow>
               (let t = sanitize_name raw; s = ce_acts e 0 (tw_db w); w1 = w\<lparr>tw_db := s\<rparr>
                in case get_team (ce_db e 0) t s of
                     Inl x \<Rightarrow> (Inl (StoreFault ''get_team'' x), w1)
                   | Inr None \<Rightarrow> (Inr (team_not_found t), w1)
                   | Inr (Some team) \<Rightarrow>
                       (let s1 = ce_acts e 1 s; w2 = w\<lparr>tw_db := s1\<rparr>
                        in case list_members (ce_db e 1) t s1 of
                             Inl x \<Rightarrow> (Inl (StoreFault ''list_members'' x), w2)
                           | Inr members \<Rightarrow>
                               (if tr_lead_agent_id team \<noteq> tt_agent_id tt \<and> (\<forall>m \<in> set members. mr_agent_id m \<noteq> tt_agent_id tt)
                                then (Inr (tool_err ''NotMember'' ''only the team lead or a current member may read the team status''), w2)
                                else (Inr (status_json team members), w2)))))"

end
