(* ===== verification/Team_Facts.thy ===== *)
theory Team_Facts
  imports Team_Tools
begin

section \<open>What the team store and its tools keep\<close>

text \<open>
  The statements of all tasks as a step relation on the database, the keys and references no step breaks, names that stay taken, the caps that
  hold when calls do not overlap, and who may put which message on the broker.
\<close>

subsection \<open>Steps of the store\<close>

inductive team_step :: "team_db \<Rightarrow> team_db \<Rightarrow> bool" where
  ts_create: "team_step s (snd (create_team db r s))"
| ts_delete: "team_step s (snd (soft_delete_team db t now s))"
| ts_touch: "team_step s (snd (touch_team db t now s))"
| ts_add: "team_step s (snd (add_member db m s0 s))"
| ts_active: "team_step s (snd (set_member_active db t n b now s))"
| ts_remove: "team_step s (snd (remove_member db t n s))"
| ts_record: "team_step s (snd (record_team_event db ev s))"

abbreviation team_run :: "team_db \<Rightarrow> team_db \<Rightarrow> bool" where
  "team_run \<equiv> team_step\<^sup>*\<^sup>*"

definition empty_team_db :: team_db where
  "empty_team_db = \<lparr>td_teams = [], td_members = [], td_events = []\<rparr>"

definition team_ids :: "team_db \<Rightarrow> string set" where
  "team_ids s = tr_team_id ` set (td_teams s)"

definition member_key :: "team_member \<Rightarrow> string \<times> string" where
  "member_key m = (mr_team_id m, mr_name m)"

definition team_inv :: "team_db \<Rightarrow> bool" where
  "team_inv s \<longleftrightarrow> distinct (map tr_team_id (td_teams s)) \<and> distinct (map member_key (td_members s))
     \<and> distinct (map ter_event_id (td_events s)) \<and> mr_team_id ` set (td_members s) \<subseteq> team_ids s"

named_theorems team_ops \<open>the statements of the team store\<close>

declare create_team_def [team_ops] soft_delete_team_def [team_ops] touch_team_def [team_ops] add_member_def [team_ops]
  set_member_active_def [team_ops] remove_member_def [team_ops] record_team_event_def [team_ops] get_team_def [team_ops]

lemma team_of_None: "team_of t s = None \<longleftrightarrow> t \<notin> team_ids s"
  by (auto simp: team_of_def team_ids_def find_None_iff)

lemma team_of_Some: "team_of t s = Some r \<Longrightarrow> r \<in> set (td_teams s) \<and> tr_team_id r = t"
  by (auto simp: team_of_def find_Some_iff in_set_conv_nth)

text \<open>What a statement can do to the teams: nothing, add a new one, or change the two time stamps of some.\<close>

definition stamped :: "team_row \<Rightarrow> team_row \<Rightarrow> bool" where
  "stamped r r' \<longleftrightarrow> tr_team_id r' = tr_team_id r \<and> tr_lead_agent_id r' = tr_lead_agent_id r \<and> (tr_deleted_at r \<noteq> None \<longrightarrow> tr_deleted_at r' \<noteq> None)"

lemma stamped_refl [simp, intro]: "stamped r r"
  by (simp add: stamped_def)

lemma step_teams:
  assumes "team_step s s'"
  shows "(\<exists>r. td_teams s' = td_teams s @ [r] \<and> tr_team_id r \<notin> team_ids s) \<or> list_all2 stamped (td_teams s) (td_teams s')"
  using assms
proof cases
  case (ts_create db r)
  then show ?thesis by (auto simp: team_ops team_of_None list.rel_refl)
qed (auto simp: team_ops list.rel_refl list_all2_conv_all_nth stamped_def deletable_def Let_def split: option.splits sum.splits)

lemma stamped_ids: "list_all2 stamped xs ys \<Longrightarrow> map tr_team_id ys = map tr_team_id xs"
  by (induction rule: list_all2_induct) (auto simp: stamped_def)

lemma ids_of: "set (map tr_team_id (td_teams s)) = team_ids s"
  by (simp add: team_ids_def)

lemma step_ids:
  assumes "team_step s s'"
  shows "team_ids s \<subseteq> team_ids s' \<and> (distinct (map tr_team_id (td_teams s)) \<longrightarrow> distinct (map tr_team_id (td_teams s')))"
  using step_teams [OF assms]
proof (elim disjE exE conjE)
  fix r assume "td_teams s' = td_teams s @ [r]" "tr_team_id r \<notin> team_ids s"
  then show ?thesis by (auto simp: team_ids_def)
next
  assume "list_all2 stamped (td_teams s) (td_teams s')"
  from stamped_ids [OF this] show ?thesis by (metis ids_of order_refl)
qed

lemma active_keys [simp]:
  "map member_key (map (\<lambda>m. if is_member t n m then m\<lparr>mr_is_active := b, mr_last_active_at := now\<rparr> else m) ms) = map member_key ms"
  by (simp add: member_key_def)

text \<open>What a statement can do to the members: add one under a new key to a known team, change flags, or leave some out.\<close>

lemma step_members:
  assumes "team_step s s'"
  shows "(\<exists>m. td_members s' = td_members s @ [m] \<and> member_key m \<notin> member_key ` set (td_members s) \<and> mr_team_id m \<in> team_ids s)
       \<or> subseq (map member_key (td_members s')) (map member_key (td_members s))"
  using assms
proof cases
  case (ts_add db m s0)
  then show ?thesis by (auto simp: team_ops team_of_None Let_def member_key_def)
next
  case (ts_active db t n b now)
  then have "map member_key (td_members s') = map member_key (td_members s)"
    unfolding set_member_active_def by (auto simp del: map_map split: if_splits)
  then show ?thesis by simp
next
  case (ts_remove db t n)
  then show ?thesis by (auto simp: team_ops subseq_map subseq_filter_left)
qed (auto simp: team_ops Let_def split: option.splits sum.splits)

lemma step_events:
  assumes "team_step s s'"
  shows "(\<exists>v. td_events s' = td_events s @ [v] \<and> ter_event_id v \<notin> ter_event_id ` set (td_events s)) \<or> td_events s' = td_events s"
  using assms by cases (auto simp: team_ops Let_def split: option.splits sum.splits)

lemma member_teams [simp]: "fst ` member_key ` set ms = mr_team_id ` set ms"
  by (simp add: image_image member_key_def)

lemma subseq_keys: "subseq xs ys \<Longrightarrow> (distinct ys \<longrightarrow> distinct xs) \<and> set xs \<subseteq> set ys"
  by (induction rule: list_emb.induct) auto

lemma step_inv [inv_rules]:
  assumes "team_step s s'" "team_inv s"
  shows "team_inv s'"
proof -
  note ids = step_ids [OF assms(1)]
  have old: "distinct (map member_key (td_members s))" "mr_team_id ` set (td_members s) \<subseteq> team_ids s"
    using assms(2) by (simp_all add: team_inv_def)
  have "distinct (map member_key (td_members s')) \<and> mr_team_id ` set (td_members s') \<subseteq> team_ids s'"
    using step_members [OF assms(1)]
  proof (elim disjE exE conjE)
    fix m assume "td_members s' = td_members s @ [m]" "member_key m \<notin> member_key ` set (td_members s)" "mr_team_id m \<in> team_ids s"
    with old ids show ?thesis by auto
  next
    assume "subseq (map member_key (td_members s')) (map member_key (td_members s))"
    note sub = subseq_keys [OF this]
    then have "fst ` member_key ` set (td_members s') \<subseteq> fst ` member_key ` set (td_members s)"
      unfolding list.set_map by blast
    with sub old ids show ?thesis by (simp add: subset_trans)
  qed
  moreover have "distinct (map ter_event_id (td_events s'))"
    using step_events [OF assms(1)] assms(2) by (auto simp: team_inv_def)
  ultimately show ?thesis
    using ids assms(2) by (simp add: team_inv_def)
qed

lemma run_inv: "team_run s s' \<Longrightarrow> team_inv s \<Longrightarrow> team_inv s'"
  by (induction rule: rtranclp_induct) (auto intro: step_inv)

lemma empty_inv [simp]: "team_inv empty_team_db"
  by (simp add: team_inv_def empty_team_db_def)

subsection \<open>Tools as runs of statements\<close>

definition orderly :: "call_env \<Rightarrow> bool" where
  "orderly e \<longleftrightarrow> (\<forall>i s. team_run s (ce_acts e i s))"

definition undisturbed :: "call_env \<Rightarrow> bool" where
  "undisturbed e \<longleftrightarrow> (\<forall>i s. ce_acts e i s = s)"

lemma undisturbed_acts [simp]: "undisturbed e \<Longrightarrow> ce_acts e i s = s"
  by (simp add: undisturbed_def)

lemma undisturbed_orderly [simp, intro]: "undisturbed e \<Longrightarrow> orderly e"
  by (simp add: orderly_def)

lemma run_acts: "orderly e \<Longrightarrow> team_run s0 s \<Longrightarrow> team_run s0 (ce_acts e i s)"
  by (auto simp: orderly_def intro: rtranclp_trans)

lemma run_step: "team_run s0 s \<Longrightarrow> team_step s s' \<Longrightarrow> team_run s0 s'"
  by (rule rtranclp.rtrancl_into_rtrancl)

lemma record_event_step: "team_step s (record_event txt db ei now t k a p s)"
  unfolding record_event_def by (rule ts_record)

lemmas run_intros = run_acts run_step [OF _ ts_touch] run_step [OF _ record_event_step]

lemma run_create: "create_team db r s = (x, s') \<Longrightarrow> team_run s0 s \<Longrightarrow> team_run s0 s'"
  using run_step [OF _ ts_create [of s db r]] by simp

lemma run_delete: "soft_delete_team db t now s = (x, s') \<Longrightarrow> team_run s0 s \<Longrightarrow> team_run s0 s'"
  using run_step [OF _ ts_delete [of s db t now]] by simp

lemma run_add: "add_member db m s1 s = (x, s') \<Longrightarrow> team_run s0 s \<Longrightarrow> team_run s0 s'"
  using run_step [OF _ ts_add [of s db m s1]] by simp

lemma create_rows_run:
  assumes "orderly e" "team_run s0 (tw_db w)"
  shows "team_run s0 (tw_db (snd (team_create_rows e tt t n d ty b w)))"
  unfolding team_create_rows_def Let_def
  using assms
  by (auto split: prod.splits sum.splits team_error.splits intro!: run_intros run_step [OF _ ts_delete])
    (blast intro: run_acts run_create run_add)+

lemma create_run:
  assumes "orderly e" "team_run s0 (tw_db w)"
  shows "team_run s0 (tw_db (snd (TeamCreate e tt c args w)))"
  unfolding TeamCreate_def Let_def
  using assms by (auto split: option.splits sum.splits intro!: run_acts create_rows_run)

lemma delete_run:
  assumes "orderly e" "team_run s0 (tw_db w)"
  shows "team_run s0 (tw_db (snd (TeamDelete e tt c args w)))"
  unfolding TeamDelete_def Let_def
  using assms by (auto split: option.splits sum.splits prod.splits intro!: run_intros)
    (blast intro: run_acts run_delete)+

lemma after_publish_run:
  "orderly e \<Longrightarrow> team_run s0 s \<Longrightarrow> team_run s0 (after_publish e t k a p s)"
  unfolding after_publish_def by (intro run_intros)

lemma send_as_run:
  assumes "orderly e" "team_run s0 (tw_db w)"
  shows "team_run s0 (tw_db (snd (send_as e t n l to body w)))"
  unfolding send_as_def Let_def
  using assms by (auto split: option.splits sum.splits intro!: after_publish_run)

lemma send_run:
  assumes "orderly e" "team_run s0 (tw_db w)"
  shows "team_run s0 (tw_db (snd (TeamSendMessage e tt c args w)))"
  unfolding TeamSendMessage_def Let_def
  using assms by (auto split: option.splits sum.splits intro!: run_acts send_as_run)

subsection \<open>Names\<close>

lemma name_char_ok: "name_char c \<noteq> CHR ''.''"
proof (cases "65 \<le> byte c \<and> byte c \<le> 90")
  case True
  then have "of_char (char_of (byte c + 32) :: char) \<noteq> byte (CHR ''.'')" by simp
  with True show ?thesis unfolding name_char_def by (auto simp del: of_char_of)
next
  case False
  then show ?thesis by (auto simp: name_char_def)
qed

lemma sanitized_has_no_dot [simp]: "CHR ''.'' \<notin> set (sanitize_name s)"
  by (auto simp: sanitize_name_def name_char_ok [symmetric])

lemma sane_name_no_dot: "sane_name l s = Some n \<Longrightarrow> CHR ''.'' \<notin> set n"
  by (auto simp: sane_name_def Let_def split: if_splits)

lemma member_name_no_dot: "validate_member_name_for_lead s = Inr n \<Longrightarrow> CHR ''.'' \<notin> set n"
  by (auto simp: validate_member_name_for_lead_def dest: sane_name_no_dot split: option.splits if_splits)

subsection \<open>Caps\<close>

lemma stamped_active: "list_all2 stamped xs ys \<Longrightarrow>
  length (filter (\<lambda>r. tr_lead_agent_id r = a \<and> tr_deleted_at r = None) ys)
    \<le> length (filter (\<lambda>r. tr_lead_agent_id r = a \<and> tr_deleted_at r = None) xs)"
  by (induction rule: list_all2_induct) (auto simp: stamped_def)

definition within_caps :: "team_db \<Rightarrow> bool" where
  "within_caps s \<longleftrightarrow> (\<forall>a. length (active_teams a s) \<le> TEAM_MAX_CONCURRENT_DEFAULT) \<and> (\<forall>t. length (members_of t s) \<le> TEAM_MAX_MEMBERS)"

text \<open>Statements that add no team and no member.\<close>

lemma caps_mono:
  assumes "within_caps s" "list_all2 stamped (td_teams s) (td_teams s')"
    and "\<And>t. length (members_of t s') \<le> length (members_of t s)"
  shows "within_caps s'"
  using assms(1) stamped_active [OF assms(2)] assms(3) unfolding within_caps_def active_teams_def by (blast intro: order_trans)

lemma members_len: "length (members_of t s) = length (filter (\<lambda>k. fst k = t) (map member_key (td_members s)))"
  by (simp add: members_of_def filter_map comp_def member_key_def)

lemma subseq_length: "subseq xs ys \<Longrightarrow> length (filter P xs) \<le> length (filter P ys)"
  by (induction rule: list_emb.induct) auto

lemma caps_keys:
  assumes "within_caps s" "list_all2 stamped (td_teams s) (td_teams s')"
    and "subseq (map member_key (td_members s')) (map member_key (td_members s))"
  shows "within_caps s'"
  using assms(1,2) by (rule caps_mono) (simp only: members_len subseq_length [OF assms(3)])

lemma caps_delete: "within_caps s \<Longrightarrow> within_caps (snd (soft_delete_team db t now s))"
  by (rule caps_keys, assumption)
    (auto simp: team_ops list.rel_refl list_all2_conv_all_nth stamped_def deletable_def split: option.splits sum.splits)

lemma caps_touch: "within_caps s \<Longrightarrow> within_caps (snd (touch_team db t now s))"
  by (rule caps_keys, assumption) (auto simp: team_ops list_all2_conv_all_nth stamped_def)

lemma caps_record: "within_caps s \<Longrightarrow> within_caps (record_event txt db ei now t k a p s)"
  by (rule caps_keys, assumption) (auto simp: record_event_def team_ops list.rel_refl)

lemma caps_set_active: "within_caps s \<Longrightarrow> within_caps (snd (set_member_active db t n b now s))"
  by (rule caps_keys, assumption) (auto simp: set_member_active_def list.rel_refl simp del: map_map)

lemma caps_remove: "within_caps s \<Longrightarrow> within_caps (snd (remove_member db t n s))"
  by (rule caps_keys, assumption) (auto simp: team_ops list.rel_refl subseq_map subseq_filter_left)

lemma caps_add: "within_caps s \<Longrightarrow> within_caps (snd (add_member db m s s))"
  by (auto simp: team_ops within_caps_def active_teams_def members_of_def Let_def)

lemma caps_create:
  assumes "within_caps s" "length (active_teams (tr_lead_agent_id r) s) < TEAM_MAX_CONCURRENT_DEFAULT"
  shows "within_caps (snd (create_team db r s))"
  using assms by (auto simp: team_ops within_caps_def active_teams_def members_of_def)

lemma concurrent_cap: "effective_max_concurrent p \<le> TEAM_MAX_CONCURRENT_DEFAULT"
  by (simp add: effective_max_concurrent_def TEAM_MAX_CONCURRENT_DEFAULT_def)

text \<open>Tool calls and the store's other statements, one after another.\<close>

inductive team_call :: "team_world \<Rightarrow> team_world \<Rightarrow> bool" where
  tc_create: "undisturbed e \<Longrightarrow> team_call w (snd (TeamCreate e tt c args w))"
| tc_delete: "undisturbed e \<Longrightarrow> team_call w (snd (TeamDelete e tt c args w))"
| tc_send: "undisturbed e \<Longrightarrow> team_call w (snd (TeamSendMessage e tt c args w))"
| tc_add: "team_call w (w\<lparr>tw_db := snd (add_member db m (tw_db w) (tw_db w))\<rparr>)"
| tc_active: "team_call w (w\<lparr>tw_db := snd (set_member_active db t n b now (tw_db w))\<rparr>)"
| tc_remove: "team_call w (w\<lparr>tw_db := snd (remove_member db t n (tw_db w))\<rparr>)"

lemma caps_pair: "p = (x, s') \<Longrightarrow> within_caps (snd p) \<Longrightarrow> within_caps s'"
  by simp

lemma caps_create_rows:
  assumes "undisturbed e" "within_caps (tw_db w)" "length (active_teams (tt_agent_id tt) (tw_db w)) < TEAM_MAX_CONCURRENT_DEFAULT"
  shows "within_caps (tw_db (snd (team_create_rows e tt t n d ty b w)))"
  unfolding team_create_rows_def Let_def
  using assms
  by (auto split: prod.splits sum.splits team_error.splits intro!: caps_record caps_delete
      elim!: caps_pair [OF _ caps_add] caps_pair [OF _ caps_create])

lemma caps_TeamCreate:
  assumes "undisturbed e" "within_caps (tw_db w)"
  shows "within_caps (tw_db (snd (TeamCreate e tt c args w)))"
  unfolding TeamCreate_def Let_def
  using assms concurrent_cap [of "tc_team_policy c"]
  by (auto simp: count_active_for_agent_def not_le split: option.splits sum.splits if_splits intro!: caps_create_rows)

lemma caps_TeamDelete:
  assumes "undisturbed e" "within_caps (tw_db w)"
  shows "within_caps (tw_db (snd (TeamDelete e tt c args w)))"
  unfolding TeamDelete_def Let_def
  using assms by (auto split: option.splits sum.splits prod.splits intro!: caps_record elim!: caps_pair [OF _ caps_delete])

lemma caps_send_as: "undisturbed e \<Longrightarrow> within_caps (tw_db w) \<Longrightarrow> within_caps (tw_db (snd (send_as e t n l to body w)))"
  unfolding send_as_def Let_def after_publish_def
  by (auto split: option.splits sum.splits intro!: caps_record caps_touch)

lemma caps_TeamSendMessage:
  assumes "undisturbed e" "within_caps (tw_db w)"
  shows "within_caps (tw_db (snd (TeamSendMessage e tt c args w)))"
  unfolding TeamSendMessage_def Let_def
  using assms by (auto split: option.splits sum.splits intro!: caps_send_as)

lemma call_caps: "team_call w w' \<Longrightarrow> within_caps (tw_db w) \<Longrightarrow> within_caps (tw_db w')"
  by (induction rule: team_call.induct)
    (simp_all add: caps_TeamCreate caps_TeamDelete caps_TeamSendMessage caps_add caps_set_active caps_remove)

lemma call_run: "team_call w w' \<Longrightarrow> team_run (tw_db w) (tw_db w')"
  by (induction rule: team_call.induct)
    (auto intro: create_run delete_run send_run ts_add ts_active ts_remove)

subsection \<open>Names are claimed once\<close>

text \<open>The contract of a store that gives out names: what is taken stays taken, and a claim succeeds on a free name only.\<close>

locale name_book =
  fixes step :: "'s \<Rightarrow> 's \<Rightarrow> bool"
    and taken :: "'s \<Rightarrow> 'k set"
    and claim :: "'r \<Rightarrow> 's \<Rightarrow> bool \<times> 's"
    and name :: "'r \<Rightarrow> 'k"
  assumes taken_grows: "step s s' \<Longrightarrow> taken s \<subseteq> taken s'"
    and claim_takes: "claim r s = (True, s') \<Longrightarrow> name r \<notin> taken s \<and> name r \<in> taken s'"
begin

lemma stays_taken: "step\<^sup>*\<^sup>* s s' \<Longrightarrow> k \<in> taken s \<Longrightarrow> k \<in> taken s'"
  by (induction rule: rtranclp_induct) (use taken_grows in auto)

lemma refused: "name r \<in> taken s \<Longrightarrow> \<not> fst (claim r s)"
  using claim_takes [of r s "snd (claim r s)"] by (cases "claim r s") auto

lemma claimed_once:
  assumes "claim r s = (True, s1)" "step\<^sup>*\<^sup>* s1 s2" "name r' = name r"
  shows "\<not> fst (claim r' s2)"
  using assms claim_takes stays_taken by (intro refused) fastforce

end

definition claim_team :: "(team_stmt \<Rightarrow> bool) \<times> team_row \<Rightarrow> team_db \<Rightarrow> bool \<times> team_db" where
  "claim_team p s = (case create_team (fst p) (snd p) s of (x, s') \<Rightarrow> (x = Inr (), s'))"

interpretation team_names: name_book team_step team_ids claim_team "\<lambda>p. tr_team_id (snd p)"
proof
  show "team_step s s' \<Longrightarrow> team_ids s \<subseteq> team_ids s'" for s s'
    using step_ids by blast
next
  fix p s s' assume "claim_team p s = (True, s')"
  then show "tr_team_id (snd p) \<notin> team_ids s \<and> tr_team_id (snd p) \<in> team_ids s'"
    by (auto simp: claim_team_def create_team_def team_of_None team_ids_def split: if_splits)
qed

lemma create_rows_refused:
  assumes "orderly e" "t \<in> team_ids (tw_db w)" "team_create_rows e tt t n d ty b w = (Inr reply, w')"
  shows "json_get ''ok'' reply = Some (JBool False)"
proof -
  have "t \<in> team_ids (ce_acts e 1 (tw_db w))"
    using assms(1,2) team_names.stays_taken unfolding orderly_def by blast
  then have "team_of t (ce_acts e 1 (tw_db w)) \<noteq> None" by (simp add: team_of_None)
  with assms(3) show ?thesis
    unfolding team_create_rows_def Let_def by (auto simp: create_team_def team_db_down_def split: if_splits)
qed

lemma get_team_known: "get_team db t s = Inr (Some r) \<Longrightarrow> t \<in> team_ids s"
  by (auto simp: get_team_def team_ids_def dest!: team_of_Some split: if_splits)

lemma delete_effect:
  assumes "TeamDelete e tt c args w = (Inr reply, w')" "json_true (json_get ''ok'' reply)"
  obtains raw team s s1 members x s2 where
    "json_str (json_get ''team_id'' args) = Some raw" "\<not> is_teammate c"
    "s = ce_acts e 0 (tw_db w)" "get_team (ce_db e 0) (sanitize_name raw) s = Inr (Some team)"
    "tr_lead_agent_id team = tt_agent_id tt" "tr_deleted_at team = None"
    "s1 = ce_acts e 1 s" "list_members (ce_db e 1) (sanitize_name raw) s1 = Inr members"
    "\<forall>m \<in> set members. mr_is_active m \<longrightarrow> mr_name m = TEAM_LEAD_NAME"
    "soft_delete_team (ce_db e 2) (sanitize_name raw) (ce_now e) (ce_acts e 2 s1) = (Inr x, s2)"
    "json_get ''team_id'' reply = Some (JString (sanitize_name raw))"
    "tw_channels w' = drop_team (sanitize_name raw) (tw_channels w)"
    "tw_db w' = record_event (ce_txt e) (ce_db e 3) (ce_event_id e) (ce_now e) (sanitize_name raw) ''team_deleted''
       (Some TEAM_LEAD_NAME) (JObject [(''members_cleaned'', num (length members))]) (ce_acts e 3 s2)"
  using assms unfolding TeamDelete_def Let_def
  by (auto simp: tool_err_def team_not_found_def blocked_reply_def json_true_def filter_empty_conv
      split: if_splits option.splits sum.splits prod.splits)

lemma deleted_name_is_known:
  assumes "TeamDelete e tt c args w = (Inr reply, w')" "json_true (json_get ''ok'' reply)" "orderly e"
    "json_get ''team_id'' reply = Some (JString t)"
  shows "t \<in> team_ids (tw_db w')"
  using assms(1,2)
proof (rule delete_effect)
  fix raw team s s1 members x s2
  assume d: "s = ce_acts e 0 (tw_db w)" "get_team (ce_db e 0) (sanitize_name raw) s = Inr (Some team)" "s1 = ce_acts e 1 s"
    "soft_delete_team (ce_db e 2) (sanitize_name raw) (ce_now e) (ce_acts e 2 s1) = (Inr x, s2)"
    "json_get ''team_id'' reply = Some (JString (sanitize_name raw))"
    "tw_db w' = record_event (ce_txt e) (ce_db e 3) (ce_event_id e) (ce_now e) (sanitize_name raw) ''team_deleted''
       (Some TEAM_LEAD_NAME) (JObject [(''members_cleaned'', num (length members))]) (ce_acts e 3 s2)"
  have "team_run s (ce_acts e 2 s1)" using assms(3) d(3) by (simp add: run_acts)
  then have "team_run s s2" by (rule run_delete [OF d(4)])
  then have "team_run s (tw_db w')" unfolding d(6) using assms(3) by (intro run_intros)
  moreover have "t \<in> team_ids s" using get_team_known [OF d(2)] d(5) assms(4) by simp
  ultimately show ?thesis by (rule team_names.stays_taken)
qed

lemma known_name_is_refused:
  assumes "orderly e" "t \<in> team_ids (tw_db w)" "TeamCreate e tt c args w = (Inr reply, w')"
    "json_str (json_get ''team_name'' args) = Some n" "validate_team_name n = Inr t"
  shows "json_get ''ok'' reply = Some (JBool False)"
proof -
  define w1 where "w1 = w\<lparr>tw_db := ce_acts e 0 (tw_db w)\<rparr>"
  have "t \<in> team_ids (tw_db w1)"
    unfolding w1_def using assms(1,2) team_names.stays_taken unfolding orderly_def by simp blast
  from assms(3-5) this show ?thesis
    unfolding TeamCreate_def Let_def w1_def [symmetric]
    by (auto simp: tool_err_def split: if_splits option.splits sum.splits dest: create_rows_refused [OF assms(1)])
qed

subsection \<open>Messages\<close>

lemma parse_frame_json [simp]: "parse_frame (frame_json f) = Some f"
  by (cases f) (auto simp: frame_json_def frame_fields_def json_str_def opt_str_json_def split: option.splits)

definition delivered_to :: "string \<Rightarrow> dm_frame \<Rightarrow> (string, team_channel) table \<Rightarrow> string \<rightharpoonup> team_channel" where
  "delivered_to t f ch = (case map_of ch t of None \<Rightarrow> map_of ch | Some c \<Rightarrow> (map_of ch)(t \<mapsto> channel_send f c))"

lemma split_team: "CHR ''.'' \<notin> set t \<Longrightarrow> split_on (CHR ''.'') (''team.'' @ t @ CHR ''.'' # rest) = ''team'' # t # split_on (CHR ''.'') rest"
  using split_on_append [of "CHR ''.''" "''team''" "t @ CHR ''.'' # rest"] split_on_append [of "CHR ''.''" t rest] by simp

lemma dispatch_frame:
  assumes "CHR ''.'' \<notin> set t"
  shows "map_of (dispatch_inbound (''team.'' @ t @ CHR ''.'' # rest) (frame_json f) ch) = delivered_to t f ch"
proof -
  have "split_on (CHR ''.'') rest \<noteq> []" by simp
  then have "\<not> length (''team'' # t # split_on (CHR ''.'') rest) < 3" by (cases "split_on (CHR ''.'') rest") auto
  then show ?thesis
    unfolding dispatch_inbound_def split_team [OF assms] Let_def
    by (simp add: delivered_to_def map_of_update split: option.splits)
qed

lemma dispatch_dm:
  "CHR ''.'' \<notin> set t \<Longrightarrow> map_of (dispatch_inbound (fst (dm_event t x n b k)) (snd (dm_event t x n b k)) ch)
     = delivered_to t \<lparr>df_team_id = t, df_to = n, df_from = x, df_body = b, df_correlation_id = k\<rparr> ch"
  using dispatch_frame [of t "''dm.'' @ n"] by (simp add: dm_event_def)

lemma dispatch_broadcast:
  "CHR ''.'' \<notin> set t \<Longrightarrow> map_of (dispatch_inbound (fst (broadcast_event t x b)) (snd (broadcast_event t x b)) ch)
     = delivered_to t \<lparr>df_team_id = t, df_to = ''broadcast'', df_from = x, df_body = b, df_correlation_id = None\<rparr> ch"
  using dispatch_frame [of t "''broadcast''"] by (simp add: broadcast_event_def)

lemma send_as_publishes:
  assumes "send_as e t n l to body w = (r, w')" "tw_published w' \<noteq> tw_published w"
  shows "\<exists>ev. tw_published w' = tw_published w @ [ev] \<and> ce_publish e ev = None
    \<and> (l \<and> ev = broadcast_event t n body \<or> (\<exists>k. ev = dm_event t n k body (Some (ce_corr e))))"
  using assms unfolding send_as_def Let_def
  by (auto simp del: split_paired_Ex split: if_splits option.splits sum.splits)

lemma find_in_set: "find P xs = Some x \<Longrightarrow> x \<in> set xs \<and> P x"
  by (induction xs) (auto split: if_splits)

lemma send_publishes:
  assumes "TeamSendMessage e tt c args w = (r, w')" "tw_published w' \<noteq> tw_published w"
  obtains raw team body ev where
    "json_str (json_get ''team_id'' args) = Some raw" "json_get ''message'' args = Some body" "body_len e body \<le> DM_BODY_MAX_BYTES"
    "tw_published w' = tw_published w @ [ev]" "ce_publish e ev = None"
    "team_of (sanitize_name raw) (ce_acts e 0 (tw_db w)) = Some team" "tr_deleted_at team = None"
    "leads tt c team \<and> (ev = broadcast_event (sanitize_name raw) TEAM_LEAD_NAME body
        \<or> (\<exists>k. ev = dm_event (sanitize_name raw) TEAM_LEAD_NAME k body (Some (ce_corr e))))
     \<or> \<not> leads tt c team \<and> (\<exists>m k. m \<in> set (members_of (sanitize_name raw) (ce_acts e 1 (ce_acts e 0 (tw_db w))))
        \<and> mr_agent_id m = tt_agent_id tt \<and> ev = dm_event (sanitize_name raw) (mr_name m) k body (Some (ce_corr e)))"
proof -
  let ?w = "\<lambda>s. w\<lparr>tw_db := s\<rparr>"
  obtain raw to body team where p: "json_str (json_get ''team_id'' args) = Some raw" "json_get ''message'' args = Some body"
    "body_len e body \<le> DM_BODY_MAX_BYTES" "team_of (sanitize_name raw) (ce_acts e 0 (tw_db w)) = Some team" "tr_deleted_at team = None"
    and sent: "leads tt c team \<and> send_as e (sanitize_name raw) TEAM_LEAD_NAME True to body (?w (ce_acts e 0 (tw_db w))) = (r, w')
      \<or> \<not> leads tt c team \<and> (\<exists>m ms. list_members (ce_db e 1) (sanitize_name raw) (ce_acts e 1 (ce_acts e 0 (tw_db w))) = Inr ms
           \<and> find (\<lambda>m. mr_agent_id m = tt_agent_id tt) ms = Some m
           \<and> send_as e (sanitize_name raw) (mr_name m) False to body (?w (ce_acts e 1 (ce_acts e 0 (tw_db w)))) = (r, w'))"
    using assms unfolding TeamSendMessage_def Let_def
    by (auto simp: get_team_def split: if_splits option.splits sum.splits)
  from sent show thesis
  proof (elim disjE conjE exE)
    assume l: "leads tt c team" and "send_as e (sanitize_name raw) TEAM_LEAD_NAME True to body (?w (ce_acts e 0 (tw_db w))) = (r, w')"
    from send_as_publishes [OF this(2)] assms(2) obtain ev where "tw_published w' = tw_published w @ [ev]" "ce_publish e ev = None"
      "ev = broadcast_event (sanitize_name raw) TEAM_LEAD_NAME body \<or> (\<exists>k. ev = dm_event (sanitize_name raw) TEAM_LEAD_NAME k body (Some (ce_corr e)))"
      by (auto simp del: split_paired_Ex)
    with l p show thesis by (intro that) blast+
  next
    fix m ms assume l: "\<not> leads tt c team" "list_members (ce_db e 1) (sanitize_name raw) (ce_acts e 1 (ce_acts e 0 (tw_db w))) = Inr ms"
      "find (\<lambda>m. mr_agent_id m = tt_agent_id tt) ms = Some m"
      and "send_as e (sanitize_name raw) (mr_name m) False to body (?w (ce_acts e 1 (ce_acts e 0 (tw_db w)))) = (r, w')"
    from send_as_publishes [OF this(4)] assms(2) obtain ev k where ev: "tw_published w' = tw_published w @ [ev]" "ce_publish e ev = None"
      "ev = dm_event (sanitize_name raw) (mr_name m) k body (Some (ce_corr e))"
      by (simp del: split_paired_Ex) blast
    have "m \<in> set (members_of (sanitize_name raw) (ce_acts e 1 (ce_acts e 0 (tw_db w)))) \<and> mr_agent_id m = tt_agent_id tt"
      using l(2,3) find_in_set [OF l(3)] by (auto simp: list_members_def split: if_splits)
    then show thesis by (intro that [OF p(1-3) ev(1,2) p(4,5)]) (use l(1) ev(3) in blast)
  qed
qed

text \<open>C39. 
  C0. However tool calls and the store's other statements follow one another, keys stay unique, every member belongs to a known team, no agent
  leads more than four live teams, and no team has more than eight members.
\<close>

theorem teams_stay_within_caps:
  assumes "team_call\<^sup>*\<^sup>* w w'" "tw_db w = empty_team_db"
  shows "team_inv (tw_db w') \<and> (\<forall>a. length (active_teams a (tw_db w')) \<le> TEAM_MAX_CONCURRENT_DEFAULT)
    \<and> (\<forall>t. length (members_of t (tw_db w')) \<le> TEAM_MAX_MEMBERS)"
proof -
  from assms(1) have "team_inv (tw_db w') \<and> within_caps (tw_db w')"
  proof (induction rule: rtranclp_induct)
    case base
    show ?case using assms(2) by (simp add: within_caps_def active_teams_def members_of_def empty_team_db_def team_inv_def)
  next
    case (step v v')
    then show ?case using run_inv [OF call_run] call_caps by blast
  qed
  then show ?thesis by (simp add: within_caps_def)
qed



text \<open>
  The name of a team the delete tool has deleted is never given out again: whatever happens to the store afterwards, no agent can create a team
  under it.
\<close>

lemma deleted_name_is_never_reusable:
  assumes "TeamDelete e tt c args w = (Inr reply, w')" "json_true (json_get ''ok'' reply)" "orderly e"
    "json_get ''team_id'' reply = Some (JString t)" "team_run (tw_db w') (tw_db v)"
    "orderly e'" "TeamCreate e' tt' c' args' v = (Inr reply', v')"
    "json_str (json_get ''team_name'' args') = Some n" "validate_team_name n = Inr t"
  shows "json_get ''ok'' reply' = Some (JBool False)"
  using known_name_is_refused [OF assms(6) _ assms(7-9)] team_names.stays_taken [OF assms(5)] deleted_name_is_known [OF assms(1-4)]
  by blast

subsection \<open>Concrete calls\<close>

definition demo_env :: call_env where
  "demo_env = \<lparr>ce_acts = \<lambda>_ s. s, ce_db = \<lambda>_ _. True, ce_txt = \<lambda>_. ''{}'', ce_len = \<lambda>_. Some 4, ce_now = 100, ce_event_id = ''ev'',
     ce_corr = ''corr'', ce_publish = \<lambda>_. None\<rparr>"

definition demo_ctx :: tool_ctx where
  "demo_ctx = \<lparr>tc_team_id = None, tc_member_name = None, tc_team_policy = default_team_policy\<lparr>tp_enabled := True\<rparr>\<rparr>"

definition demo_tools :: team_tools where
  "demo_tools = \<lparr>tt_agent_id = ''ana'', tt_goal_id = ''g''\<rparr>"

definition demo_world :: team_world where
  "demo_world = \<lparr>tw_db = empty_team_db, tw_channels = [], tw_published = []\<rparr>"

definition demo_team :: team_world where
  "demo_team = snd (TeamCreate demo_env demo_tools demo_ctx (JObject [(''team_name'', JString ''Docs'')]) demo_world)"

definition demo_message :: json where
  "demo_message = JObject [(''team_id'', JString ''docs''), (''to'', JString ''broadcast''), (''message'', JString ''hi'')]"

definition demo_sent :: "(tool_fault + json) \<times> team_world" where
  "demo_sent = TeamSendMessage demo_env demo_tools demo_ctx demo_message demo_team"

lemma demo_undisturbed [simp]: "undisturbed demo_env"
  by (simp add: undisturbed_def demo_env_def)

lemma demo_created: "length (active_teams ''ana'' (tw_db demo_team)) = 1 \<and> length (members_of ''docs'' (tw_db demo_team)) = 1"
  by code_simp

lemma demo_published: "tw_published (snd demo_sent) = [broadcast_event ''docs'' TEAM_LEAD_NAME (JString ''hi'')]"
  by code_simp

theorem teams_stay_within_caps_witness:
  "team_inv (tw_db demo_team) \<and> (\<forall>a. length (active_teams a (tw_db demo_team)) \<le> TEAM_MAX_CONCURRENT_DEFAULT)
    \<and> (\<forall>t. length (members_of t (tw_db demo_team)) \<le> TEAM_MAX_MEMBERS) \<and> length (active_teams ''ana'' (tw_db demo_team)) = 1"
proof -
  have "team_call demo_world demo_team" unfolding demo_team_def by (rule tc_create) simp
  then have "team_call\<^sup>*\<^sup>* demo_world demo_team" by simp
  from teams_stay_within_caps [OF this] demo_created show ?thesis by (simp add: demo_world_def)
qed



text \<open>
  Two calls that overlap: both count seven members before either inserts, and the team ends with nine.  The cap is a count and an insert, not one
  statement.
\<close>

definition demo_member :: "string \<Rightarrow> string \<Rightarrow> team_member" where
  "demo_member n a = \<lparr>mr_team_id = ''docs'', mr_name = n, mr_agent_id = a, mr_agent_type = None, mr_model = None, mr_goal_id = ''g'',
     mr_worktree_path = None, mr_joined_at = 101, mr_is_active = True, mr_last_active_at = 101\<rparr>"

definition demo_seven :: team_db where
  "demo_seven = (tw_db demo_team)\<lparr>td_members := td_members (tw_db demo_team) @ map (\<lambda>n. demo_member n ''bo'') [''a'', ''b'', ''c'', ''d'', ''e'', ''f'']\<rparr>"

lemma overlapping_adds_pass_the_cap:
  "let s1 = snd (add_member (\<lambda>_. True) (demo_member ''x'' ''bo'') demo_seven demo_seven);
       s2 = snd (add_member (\<lambda>_. True) (demo_member ''y'' ''bo'') demo_seven s1)
   in length (members_of ''docs'' demo_seven) = 7 \<and> length (members_of ''docs'' s2) = 9"
  by code_simp

text \<open>
  A member is found by its agent, not by its name: a teammate that runs as the agent which leads the team signs as the lead.
\<close>

lemma teammate_signs_as_lead:
  "let w = demo_team\<lparr>tw_db := (tw_db demo_team)\<lparr>td_members := td_members (tw_db demo_team) @ [demo_member ''bob'' ''ana'']\<rparr>\<rparr>;
       c = demo_ctx\<lparr>tc_team_id := Some ''docs'', tc_member_name := Some ''bob''\<rparr>;
       args = JObject [(''team_id'', JString ''docs''), (''to'', JString ''eve''), (''message'', JString ''hi'')]
   in tw_published (snd (TeamSendMessage demo_env demo_tools c args w)) = [dm_event ''docs'' ''team-lead'' ''eve'' (JString ''hi'') (Some ''corr'')]"
  by code_simp

text \<open>A creation whose lead row cannot be written fails, and the soft delete that follows keeps the name from being used again.\<close>

lemma failed_creation_takes_the_name:
  "let e = demo_env\<lparr>ce_db := \<lambda>_ st. st \<noteq> TsAdd\<rparr>; args = JObject [(''team_name'', JString ''Docs'')];
       w = snd (TeamCreate e demo_tools demo_ctx args demo_world)
   in fst (TeamCreate e demo_tools demo_ctx args demo_world) = Inl (StoreFault ''add_member(lead)'' team_db_down)
      \<and> active_teams ''ana'' (tw_db w) = [] \<and> isl (fst (TeamCreate demo_env demo_tools demo_ctx args w)) = False
      \<and> map_option (json_get ''kind'') (case fst (TeamCreate demo_env demo_tools demo_ctx args w) of Inr j \<Rightarrow> Some j | Inl _ \<Rightarrow> None)
        = Some (Some (JString ''TeamNameTaken''))"
  by code_simp

end
