(* ===== verification/Spec2Isabelle.thy ===== *)
theory Spec2Isabelle
  imports Circuit_Breaker Topics Local_Broker Disk_Queue Task_Types Flow_Store Flow_Manager Wait_Engine Nats_Broker
    Agent_Registry Session Pairing Poll_Runner Mcp_Concurrency Credentials Llm_Retry Bash_Policy Goal_Facts Cron_Facts Team_Facts
begin

text \<open>
  A verification library for nexo-rs, a daemon that runs conversational agents and long-lived goals.  It translates the parts of the daemon
  that carry state, decide or count, from the Rust sources under \<open>src/crates\<close>, and proves what makes each of them correct.

  \<^bold>\<open>How the program fits together.\<close>  Channels (WhatsApp, Telegram, e-mail) put events on a broker; agents subscribe to topics, keep a
  session per conversation and answer through an account they are allowed to use.  An unknown sender first has to be paired.  Work that
  outlives a message is a task flow, a polling job or a goal: flows are rows that wait for timers or events, jobs run on a schedule under a
  lease, goals are driven turn by turn through the \<open>claude\<close> CLI until an evaluator accepts them or a budget is spent.  Everything that calls
  outside (NATS, an LLM, a tool, SQLite) goes through a breaker, a queue, a retry or a cap.

  \<^bold>\<open>The theories.\<close>  Each models the files it names; the definitions bear the names of the functions and types there, with a prefix where two
  components have the same name.

  \<^item> \<open>Prelude\<close>: clocks, durations, uuids, tables (association lists read by key), text, and the lemmas the components share, collected in
    named theorems.  \<open>Json\<close>: serde's values.
  \<^item> \<open>Circuit_Breaker\<close> (\<open>resilience/lib.rs\<close>): the breaker with its three states.  The locale \<open>call_guard\<close> is what a caller may rely on.
  \<^item> \<open>Topics\<close>, \<open>Local_Broker\<close>, \<open>Disk_Queue\<close>, \<open>Nats_Broker\<close> (\<open>broker\<close>): subject matching, the in-process broker, the SQLite queue that
    holds what could not be sent, and the NATS broker that uses breaker and queue.  The locale \<open>fallback_queue\<close> is the queue as the broker
    sees it.
  \<^item> \<open>Task_Types\<close>, \<open>Flow_Store\<close>, \<open>Flow_Manager\<close>, \<open>Wait_Engine\<close> (\<open>taskflow\<close>): a flow's lifecycle, its rows with revisions, the manager
    that reads, changes and writes back under the revision it read, and the engine that resumes what is due.  The locale
    \<open>revisioned_store\<close> holds the laws of a store; the manager's lemmas are proved in it and it is interpreted on the SQLite store.
  \<^item> \<open>Agent_Types\<close>, \<open>Agent_Store\<close>, \<open>Agent_Registry\<close> (\<open>agent-registry\<close>): the registry of running goals with its cap and its FIFO, over a
    store in memory or in SQLite (locales \<open>handle_store\<close> and \<open>listing_store\<close>), and what a restart does with the stored goals.
  \<^item> \<open>Session_Binding\<close>, \<open>Claude_Turn\<close>, \<open>Goal_Policies\<close>, \<open>Goal_Loop\<close>, \<open>Goal_Facts\<close> (\<open>driver-claude\<close>, \<open>driver-types\<close>,
    \<open>driver-loop\<close>): which CLI session a goal resumes, one turn of the CLI, the policies for failed turns and for compaction, the
    orchestrator with the loop that drives a goal, and the properties of that loop.  The locale \<open>session_bindings\<close> has both binding stores
    as its interpretations.
  \<^item> \<open>Session\<close> (\<open>core/session\<close>): sessions with bounded histories.  \<open>Pairing\<close> (\<open>pairing\<close>): codes, requests, the allowlist and the caching
    gate.  \<open>Credentials\<close> (\<open>auth\<close>): which agent may send as which account (locale \<open>credential_store\<close>, interpreted for each channel).
  \<^item> \<open>Poll_State\<close>, \<open>Poll_Job\<close>, \<open>Poll_Runner\<close> (\<open>poller\<close>): the rows and leases of jobs, one job's loop, and the runner with its reload.
  \<^item> \<open>Mcp_Concurrency\<close> (\<open>mcp/server\<close>): the cap on concurrent calls per tenant and tool.  \<open>Llm_Retry\<close> (\<open>llm/retry.rs\<close>): the retry loop.
    \<open>Bash_Policy\<close> (\<open>driver-permission\<close>): the classifier of shell commands.

  \<^bold>\<open>How code becomes definitions.\<close>  A mutex or an actor makes an operation atomic: a function from state to state.  Where a task awaits between
  a read and a write, what other tasks do in between is an argument (\<open>env\<close>, \<open>others\<close>) or the theorem speaks of all sequences of steps.  A
  SQL statement succeeds or fails as the argument \<open>db\<close> says, so every error path is a branch.  A \<open>Result\<close> is a sum, a panic is \<open>None\<close>.
  Machine integers are words where they can wrap or saturate.  Clock readings, random bytes, floating-point comparisons, serde's parsers, tokio's
  channels and semaphores, cron's schedules, SHA-256, regular expressions, the CLI process and the NATS and LLM clients are arguments; what a
  theorem needs of them is a hypothesis it names, and a witness instantiates it.

  \<^bold>\<open>What the lemmas show.\<close>  Per component: an invariant every operation keeps (breaker counters, store integrity, registry cap, pairing
  tables, sessions, leases, in-flight counts), what each operation returns and changes on every branch, and the refinement of an abstract
  contract (locales above).  Across components: a flow mutation is atomic against any interleaving; a publish that succeeds reached the server
  or is in the queue; live goals are stored; a job ticks only under its lease; a goal is done only under a positive verdict.  Some properties
  state behaviour that the sources' own comments contradict; they are theorems about the code as it is.

  \<^bold>\<open>Loops and bounds.\<close>  The retry of a flow mutation has two attempts (\<open>RETRY_ATTEMPTS\<close>) and recurses on what is left.  A drain of the disk
  queue works through batches of a hundred rows that are fixed when they are read.  The code generator tries five hundred codes.  The LLM
  retry, a job's loop and the goal loop are \<open>partial_function\<close>s, so returning is a theorem: at most five calls for the first; for the
  goal loop, with both error budgets set, the position (turn, the two error counts) moves forward at every turn of work and stays within its caps,
  which bounds the iterations.  No fuel is used where the code has no bound.

  \<^bold>\<open>Not modelled.\<close>  HTTP, stdio and socket servers, child processes and terminals; opening and migrating databases; provider clients and
  their formats; full-text and vector search; installers, archives and catalogues; the setup wizard; the agent's loop over LLM and tools, whose
  steps are calls to services; the daemon's start-up code, which wires the crates together; wire types without behaviour.
\<close>

end
